(* ===== verification/Sage_Prelude.thy ===== *)
theory Sage_Prelude
  imports Main "HOL-Library.Word" "HOL-Library.Monad_Syntax"
begin

text \<open>
  Shared vocabulary of the SageOS development: the C integer types, the scan of a fixed table
  for its first free slot, and the interface of a table whose slots are handed out by such a scan.
  The kernel allocates capability slots, endpoints, ports, shared-memory regions and threads this
  way, so the laws of the scan are stated once, as the locales \<open>slot_pool\<close>, \<open>claiming_pool\<close> (the
  allocator marks the slot it returns as used) and \<open>lazy_pool\<close> (it does not), and every table
  interprets the one it satisfies.
\<close>

section \<open>Types\<close>

type_synonym u8 = "8 word"
type_synonym u16 = "16 word"
type_synonym u32 = "32 word"
type_synonym u64 = "64 word"
type_synonym i64 = int

named_theorems pool_defs \<open>definitions of the table allocators\<close>
named_theorems word_to_nat \<open>conversions from machine words to naturals\<close>

declare unat_of_nat [word_to_nat] unat_div [word_to_nat] unat_mod [word_to_nat]
  word_less_nat_alt [word_to_nat] word_le_nat_alt [word_to_nat]

text \<open>A difference of naturals stays under \<^const>\<open>of_nat\<close>, where its bounds are known.\<close>
declare of_nat_diff [simp del]

lemma u64_bound: "unat (x :: u64) < 2 ^ 64"
  using unsigned_less[of x, where 'a = nat] by simp

lemma u32_bound: "unat (x :: u32) < 2 ^ 32"
  using unsigned_less[of x, where 'a = nat] by simp

lemma u64_of_nat: "k < 2 ^ 64 \<Longrightarrow> unat (of_nat k :: u64) = k"
  by (simp add: unat_of_nat)

lemma u32_of_nat: "k < 2 ^ 32 \<Longrightarrow> unat (of_nat k :: u32) = k"
  by (simp add: unat_of_nat)

section \<open>The first slot that satisfies a test\<close>

text \<open>The value of \<open>for (i = 0; i < N; i++) if (P(t[i])) return i;\<close>, with \<open>None\<close> for falling through.\<close>
fun first_index :: "('a \<Rightarrow> bool) \<Rightarrow> 'a list \<Rightarrow> nat option" where
  "first_index P [] = None"
| "first_index P (x # xs) = (if P x then Some 0 else map_option Suc (first_index P xs))"

lemma first_index_None [simp]: "first_index P xs = None \<longleftrightarrow> (\<forall>x\<in>set xs. \<not> P x)"
  by (induction xs) auto

lemma first_index_SomeD:
  assumes "first_index P xs = Some i"
  shows "i < length xs" "P (xs ! i)" "j < i \<Longrightarrow> \<not> P (xs ! j)"
proof -
  have "i < length xs \<and> P (xs ! i) \<and> (\<forall>j<i. \<not> P (xs ! j))"
    using assms
  proof (induction xs arbitrary: i)
    case (Cons x xs)
    then show ?case
      by (cases i) (auto split: if_splits simp: less_Suc_eq_0_disj)
  qed simp
  then show "i < length xs" "P (xs ! i)" "j < i \<Longrightarrow> \<not> P (xs ! j)" by auto
qed

lemma first_index_eqI:
  assumes "i < length xs" "P (xs ! i)" "\<And>j. j < i \<Longrightarrow> \<not> P (xs ! j)"
  shows "first_index P xs = Some i"
  using assms
proof (induction xs arbitrary: i)
  case (Cons x xs)
  show ?case
  proof (cases i)
    case (Suc k)
    have "first_index P xs = Some k"
      using Cons.prems Suc by (intro Cons.IH) force+
    with Suc Cons.prems(3)[of 0] show ?thesis by simp
  qed (use Cons.prems in simp)
qed simp

lemma first_index_Some_iff:
  "first_index P xs = Some i \<longleftrightarrow> i < length xs \<and> P (xs ! i) \<and> (\<forall>j<i. \<not> P (xs ! j))"
  using first_index_SomeD first_index_eqI by metis

lemma first_index_update_same:
  assumes "first_index P xs = Some i" "P y"
  shows "first_index P (xs[i := y]) = Some i"
  using first_index_SomeD[OF assms(1)] assms(2)
  by (intro first_index_eqI) (auto simp: nth_list_update)

lemma first_index_update_later:
  assumes "first_index P xs = Some i" "\<not> P y" "first_index P (xs[i := y]) = Some j"
  shows "i < j" "P (xs ! j)"
proof -
  note i = first_index_SomeD[OF assms(1)] and j = first_index_SomeD[OF assms(3)]
  have "j \<noteq> i" using i j(2) assms(2) by auto
  moreover have "\<not> j < i" using i(3)[of j] j(2) by auto
  ultimately show "i < j" by simp
  then show "P (xs ! j)" using j(2) by simp
qed

lemma first_index_cong:
  assumes "length xs = length ys" "\<And>i. i < length xs \<Longrightarrow> P (xs ! i) \<longleftrightarrow> Q (ys ! i)"
  shows "first_index P xs = first_index Q ys"
  using assms
proof (induction xs ys rule: list_induct2)
  case (Cons x xs y ys)
  have "P x \<longleftrightarrow> Q y" using Cons.prems[of 0] by simp
  moreover have "first_index P xs = first_index Q ys"
    using Cons.prems[of "Suc _"] by (intro Cons.IH) force
  ultimately show ?case by simp
qed simp

section \<open>Tables handed out slot by slot\<close>

text \<open>
  A provider of slots: \<open>alloc\<close> fails exactly when no slot is free, and otherwise returns the first
  free index with the table in which that slot was prepared.
\<close>
locale slot_pool =
  fixes is_free :: "'a \<Rightarrow> bool"
    and prepare :: "nat \<Rightarrow> 'a \<Rightarrow> 'a"
    and alloc :: "'a list \<Rightarrow> (nat \<times> 'a list) option"
  assumes alloc_None: "alloc t = None \<longleftrightarrow> first_index is_free t = None"
    and alloc_Some: "alloc t = Some (i, t') \<Longrightarrow>
      first_index is_free t = Some i \<and> t' = t[i := prepare i (t ! i)]"
begin

lemma alloc_fails_iff: "alloc t = None \<longleftrightarrow> (\<forall>x\<in>set t. \<not> is_free x)"
  by (simp add: alloc_None)

lemma alloc_was_free:
  assumes "alloc t = Some (i, t')"
  shows "i < length t" "is_free (t ! i)" "t' ! i = prepare i (t ! i)" "length t' = length t"
  using alloc_Some[OF assms] first_index_SomeD by fastforce+

lemma alloc_others:
  assumes "alloc t = Some (i, t')" "j \<noteq> i"
  shows "t' ! j = t ! j"
  using alloc_Some[OF assms(1)] assms(2) by simp

lemma alloc_keeps_live:
  assumes "alloc t = Some (i, t')" "\<not> is_free (t ! j)"
  shows "t' ! j = t ! j"
  using alloc_others[OF assms(1)] alloc_was_free(2)[OF assms(1)] assms(2) by metis

end

text \<open>An allocator that marks the slot it returns: two allocations in a row never collide.\<close>
locale claiming_pool = slot_pool +
  assumes prepare_used: "\<not> is_free (prepare i x)"
begin

lemma alloc_twice_distinct:
  assumes "alloc t = Some (i, t')" "alloc t' = Some (j, t'')"
  shows "i < j"
proof -
  have "first_index is_free (t[i := prepare i (t ! i)]) = Some j"
    using alloc_Some[OF assms(2)] alloc_Some[OF assms(1)] by simp
  with alloc_Some[OF assms(1)] prepare_used show ?thesis
    by (blast intro: first_index_update_later(1))
qed

lemma alloc_live_count:
  assumes "alloc t = Some (i, t')"
  shows "length (filter (\<lambda>x. \<not> is_free x) t') = Suc (length (filter (\<lambda>x. \<not> is_free x) t))"
proof -
  have i: "i < length t" "is_free (t ! i)" "t' = t[i := prepare i (t ! i)]"
    using alloc_was_free[OF assms] alloc_Some[OF assms] by auto
  obtain xs ys where t: "t = xs @ t ! i # ys" "length xs = i"
    using i(1) id_take_nth_drop[of i t] by (metis length_take min.absorb4)
  with i(3) have "t' = xs @ prepare i (t ! i) # ys" by (metis list_update_length)
  moreover have "length (filter (\<lambda>x. \<not> is_free x) t) = length (filter (\<lambda>x. \<not> is_free x) (xs @ ys))"
    by (subst t(1)) (simp add: i(2))
  ultimately show ?thesis using prepare_used by simp
qed

end

text \<open>An allocator that leaves the slot it returns looking free: a second allocation returns it again.\<close>
locale lazy_pool = slot_pool +
  assumes prepare_free: "is_free x \<Longrightarrow> is_free (prepare i x)"
begin

lemma alloc_again_same:
  assumes "alloc t = Some (i, t')"
  shows "\<exists>t''. alloc t' = Some (i, t'')"
proof -
  have t: "first_index is_free t = Some i" "t' = t[i := prepare i (t ! i)]"
    using alloc_Some[OF assms] by auto
  then have same: "first_index is_free t' = Some i"
    using first_index_update_same prepare_free first_index_SomeD(2) by metis
  then have "alloc t' \<noteq> None" using alloc_None by (metis option.distinct(1))
  then obtain j t'' where "alloc t' = Some (j, t'')" by auto
  with alloc_Some[OF this] same show ?thesis by auto
qed

end

end
