(* ===== verification/Sage_PMM.thy ===== *)
theory Sage_PMM
  imports Sage_Prelude
begin

text \<open>
  The physical frame allocator of \<^verbatim>\<open>kernel/core/mm.c\<close>: a bitmap of 4 KiB frames in which a set bit
  is a reserved or allocated frame. The model keeps the bytes of the bitmap and the two
  counters; a write outside the bitmap, which C leaves undefined, is \<open>None\<close>. The loops of
  \<^verbatim>\<open>phys_init\<close> run on 64-bit addresses and are defined by \<open>partial_function (option)\<close>, so that an
  address that wraps around, and a loop that therefore never ends, is \<open>None\<close> as well.

  Shown: the allocator refines a set of free frames from which \<^verbatim>\<open>phys_alloc\<close> takes the least
  and to which \<^verbatim>\<open>phys_free\<close> returns one; the set \<^verbatim>\<open>phys_init\<close> establishes; and when the counter of used
  frames agrees with the bitmap.
\<close>

unbundle bit_operations_syntax

section \<open>State\<close>

definition PAGE_SIZE :: nat where "PAGE_SIZE = 4096"
definition MAX_RAM :: nat where "MAX_RAM = 128 * 1024 * 1024"
definition MAX_FRAMES :: nat where "MAX_FRAMES = MAX_RAM div PAGE_SIZE"
definition BITMAP_SIZE :: nat where "BITMAP_SIZE = MAX_FRAMES div 8"

record pmm =
  pmm_bitmap :: "u8 list"
  pmm_total_frames :: u64
  pmm_used_frames :: u64

text \<open>The fields of the boot information that the allocator reads.\<close>
record boot_info =
  memory_total :: u64
  kernel_base :: u64
  kernel_size :: u64

section \<open>Operations\<close>

definition pmm_set_frame :: "nat \<Rightarrow> u8 list \<Rightarrow> u8 list option" where
  "pmm_set_frame frame bm =
    (if frame div 8 < length bm
     then Some (bm[frame div 8 := (bm ! (frame div 8)) OR push_bit (frame mod 8) 1])
     else None)"

definition pmm_unset_frame :: "nat \<Rightarrow> u8 list \<Rightarrow> u8 list option" where
  "pmm_unset_frame frame bm =
    (if frame div 8 < length bm
     then Some (bm[frame div 8 := (bm ! (frame div 8)) AND NOT (push_bit (frame mod 8) 1)])
     else None)"

definition pmm_is_frame_set :: "u8 list \<Rightarrow> nat \<Rightarrow> bool" where
  "pmm_is_frame_set bm frame \<longleftrightarrow> (bm ! (frame div 8)) AND push_bit (frame mod 8) 1 \<noteq> 0"

definition pmm_count_used_frames :: "pmm \<Rightarrow> nat" where
  "pmm_count_used_frames s =
    fold (\<lambda>i count. if pmm_is_frame_set (pmm_bitmap s) i then Suc count else count)
      [0..<unat (pmm_total_frames s)] 0"

partial_function (option) free_usable :: "u64 \<Rightarrow> u64 \<Rightarrow> u64 \<Rightarrow> u8 list \<Rightarrow> u8 list option" where
  "free_usable addr usable_end total_frames bm =
    (if addr < usable_end
     then (let frame = addr div of_nat PAGE_SIZE in
           if frame < total_frames
           then Option.bind (pmm_unset_frame (unat frame) bm)
             (\<lambda>bm'. free_usable (addr + of_nat PAGE_SIZE) usable_end total_frames bm')
           else free_usable (addr + of_nat PAGE_SIZE) usable_end total_frames bm)
     else Some bm)"

partial_function (option) reserve_kernel :: "u64 \<Rightarrow> u64 \<Rightarrow> u8 list \<Rightarrow> u8 list option" where
  "reserve_kernel addr kernel_end bm =
    (if addr < kernel_end
     then Option.bind (pmm_set_frame (unat (addr div of_nat PAGE_SIZE)) bm)
       (\<lambda>bm'. reserve_kernel (addr + of_nat PAGE_SIZE) kernel_end bm')
     else Some bm)"

definition phys_init :: "boot_info \<Rightarrow> pmm \<Rightarrow> pmm option" where
  "phys_init info s =
    (let bm = replicate BITMAP_SIZE 0xFF;
         frames = memory_total info div of_nat PAGE_SIZE;
         total_frames = (if frames > of_nat MAX_FRAMES then of_nat MAX_FRAMES else frames)
     in do {
       bm \<leftarrow> free_usable 0x100000 (memory_total info) total_frames bm;
       bm \<leftarrow> reserve_kernel (kernel_base info) (kernel_base info + kernel_size info) bm;
       Some (s\<lparr>pmm_bitmap := bm, pmm_total_frames := total_frames\<rparr>)
     })"

text \<open>\<^verbatim>\<open>phys_alloc\<close> returns the address of the frame, and 0 for \<^verbatim>\<open>NULL\<close>.\<close>
definition phys_alloc :: "pmm \<Rightarrow> u64 \<times> pmm" where
  "phys_alloc s =
    (case first_index (\<lambda>i. \<not> pmm_is_frame_set (pmm_bitmap s) i) [0..<unat (pmm_total_frames s)] of
       None \<Rightarrow> (0, s)
     | Some i \<Rightarrow>
         (of_nat i * of_nat PAGE_SIZE,
          s\<lparr>pmm_bitmap := the (pmm_set_frame i (pmm_bitmap s)),
            pmm_used_frames := pmm_used_frames s + 1\<rparr>))"

definition phys_free :: "u64 \<Rightarrow> pmm \<Rightarrow> pmm" where
  "phys_free addr s =
    (let frame = addr div of_nat PAGE_SIZE in
     if frame < pmm_total_frames s
     then s\<lparr>pmm_bitmap := the (pmm_unset_frame (unat frame) (pmm_bitmap s)),
            pmm_used_frames := pmm_used_frames s - 1\<rparr>
     else s)"

section \<open>The bitmap as a set of frames\<close>

lemmas pmm_consts = PAGE_SIZE_def MAX_RAM_def MAX_FRAMES_def BITMAP_SIZE_def

lemma and_single_bit_nonzero:
  fixes x :: u8
  assumes "n < 8"
  shows "x AND push_bit n 1 \<noteq> 0 \<longleftrightarrow> bit x n"
proof -
  have "x AND push_bit n 1 = of_bool (bit x n) * push_bit n 1"
    using assms by (intro bit_eqI) (auto simp: bit_simps)
  moreover have "push_bit n 1 \<noteq> (0 :: u8)"
  proof
    assume "push_bit n 1 = (0 :: u8)"
    then have "bit (push_bit n 1 :: u8) n = bit (0 :: u8) n" by (rule arg_cong)
    with assms show False by (simp add: bit_simps del: push_bit_of_1)
  qed
  ultimately show ?thesis by simp
qed

lemma frame_set_bit: "pmm_is_frame_set bm f \<longleftrightarrow> bit (bm ! (f div 8)) (f mod 8)"
  unfolding pmm_is_frame_set_def by (rule and_single_bit_nonzero) simp

lemma frame_eq_iff: "(f :: nat) = g \<longleftrightarrow> f div 8 = g div 8 \<and> f mod 8 = g mod 8"
  by (metis div_mult_mod_eq)

lemma set_frame_Some:
  assumes "pmm_set_frame f bm = Some bm'"
  shows "length bm' = length bm" "pmm_is_frame_set bm' g \<longleftrightarrow> g = f \<or> pmm_is_frame_set bm g"
proof -
  have bm': "f div 8 < length bm" "bm' = bm[f div 8 := (bm ! (f div 8)) OR push_bit (f mod 8) 1]"
    using assms by (auto simp: pmm_set_frame_def split: if_splits)
  then show "length bm' = length bm" by simp
  show "pmm_is_frame_set bm' g \<longleftrightarrow> g = f \<or> pmm_is_frame_set bm g"
    using bm' frame_eq_iff[of g f]
    by (cases "g div 8 = f div 8") (auto simp: frame_set_bit bit_simps)
qed

lemma unset_frame_Some:
  assumes "pmm_unset_frame f bm = Some bm'"
  shows "length bm' = length bm" "pmm_is_frame_set bm' g \<longleftrightarrow> g \<noteq> f \<and> pmm_is_frame_set bm g"
proof -
  have bm': "f div 8 < length bm" "bm' = bm[f div 8 := (bm ! (f div 8)) AND NOT (push_bit (f mod 8) 1)]"
    using assms by (auto simp: pmm_unset_frame_def split: if_splits)
  then show "length bm' = length bm" by simp
  show "pmm_is_frame_set bm' g \<longleftrightarrow> g \<noteq> f \<and> pmm_is_frame_set bm g"
    using bm' frame_eq_iff[of g f]
    by (cases "g div 8 = f div 8") (auto simp: frame_set_bit bit_simps)
qed

lemma set_frame_defined: "(\<exists>bm'. pmm_set_frame f bm = Some bm') \<longleftrightarrow> f div 8 < length bm"
  by (simp add: pmm_set_frame_def)

lemma unset_frame_defined: "(\<exists>bm'. pmm_unset_frame f bm = Some bm') \<longleftrightarrow> f div 8 < length bm"
  by (simp add: pmm_unset_frame_def)

text \<open>Every frame the allocator manages has its bit in the bitmap.\<close>
definition pmm_wf :: "pmm \<Rightarrow> bool" where
  "pmm_wf s \<longleftrightarrow> length (pmm_bitmap s) = BITMAP_SIZE \<and> unat (pmm_total_frames s) \<le> MAX_FRAMES"

text \<open>The abstract state: the frames that may be handed out.\<close>
definition free_frames :: "pmm \<Rightarrow> nat set" where
  "free_frames s = {f. f < unat (pmm_total_frames s) \<and> \<not> pmm_is_frame_set (pmm_bitmap s) f}"

lemma wf_frame_in_bitmap:
  assumes "pmm_wf s" "f < unat (pmm_total_frames s)"
  shows "f div 8 < length (pmm_bitmap s)"
proof -
  have "f < 4096 * 8" "length (pmm_bitmap s) = 4096"
    using assms by (auto simp: pmm_wf_def pmm_consts)
  then show ?thesis by (simp add: less_mult_imp_div_less)
qed

lemma finite_free_frames [simp]: "finite (free_frames s)"
  by (rule finite_subset[of _ "{..<unat (pmm_total_frames s)}"]) (auto simp: free_frames_def)

lemma first_free_frame:
  "first_index (\<lambda>i. \<not> pmm_is_frame_set (pmm_bitmap s) i) [0..<unat (pmm_total_frames s)] =
    (if free_frames s = {} then None else Some (Min (free_frames s)))"
proof (cases "free_frames s = {}")
  case True
  then show ?thesis by (auto simp: free_frames_def)
next
  case False
  obtain f where f: "f = Min (free_frames s)" by simp
  with False have mem: "f \<in> free_frames s" by simp
  have least: "g \<notin> free_frames s" if "g < f" for g
    using that f by (meson Min_le finite_free_frames not_le)
  have "f < unat (pmm_total_frames s)" "\<not> pmm_is_frame_set (pmm_bitmap s) f"
    using mem by (auto simp: free_frames_def)
  moreover have "pmm_is_frame_set (pmm_bitmap s) g" if "g < f" for g
    using least[OF that] that calculation(1) by (auto simp: free_frames_def)
  ultimately have "first_index (\<lambda>i. \<not> pmm_is_frame_set (pmm_bitmap s) i)
      [0..<unat (pmm_total_frames s)] = Some f"
    by (intro first_index_eqI) auto
  with False f show ?thesis by simp
qed

lemma unset_abs:
  assumes "pmm_wf s" "f < unat (pmm_total_frames s)"
  shows "free_frames (s\<lparr>pmm_bitmap := the (pmm_unset_frame f (pmm_bitmap s)), pmm_used_frames := n\<rparr>)
      = insert f (free_frames s)"
    "pmm_wf (s\<lparr>pmm_bitmap := the (pmm_unset_frame f (pmm_bitmap s)), pmm_used_frames := n\<rparr>)"
proof -
  obtain bm where bm: "pmm_unset_frame f (pmm_bitmap s) = Some bm"
    using wf_frame_in_bitmap[OF assms] unset_frame_defined by blast
  with unset_frame_Some[OF bm] assms show
    "free_frames (s\<lparr>pmm_bitmap := the (pmm_unset_frame f (pmm_bitmap s)), pmm_used_frames := n\<rparr>)
      = insert f (free_frames s)"
    "pmm_wf (s\<lparr>pmm_bitmap := the (pmm_unset_frame f (pmm_bitmap s)), pmm_used_frames := n\<rparr>)"
    by (auto simp: free_frames_def pmm_wf_def)
qed

lemma set_abs:
  assumes "pmm_wf s" "f < unat (pmm_total_frames s)"
  shows "free_frames (s\<lparr>pmm_bitmap := the (pmm_set_frame f (pmm_bitmap s)), pmm_used_frames := n\<rparr>)
      = free_frames s - {f}"
    "pmm_wf (s\<lparr>pmm_bitmap := the (pmm_set_frame f (pmm_bitmap s)), pmm_used_frames := n\<rparr>)"
proof -
  obtain bm where bm: "pmm_set_frame f (pmm_bitmap s) = Some bm"
    using wf_frame_in_bitmap[OF assms] set_frame_defined by blast
  with set_frame_Some[OF bm] assms show
    "free_frames (s\<lparr>pmm_bitmap := the (pmm_set_frame f (pmm_bitmap s)), pmm_used_frames := n\<rparr>)
      = free_frames s - {f}"
    "pmm_wf (s\<lparr>pmm_bitmap := the (pmm_set_frame f (pmm_bitmap s)), pmm_used_frames := n\<rparr>)"
    by (auto simp: free_frames_def pmm_wf_def)
qed

section \<open>Allocation and release\<close>

lemma phys_alloc_cases:
  assumes "pmm_wf s" "phys_alloc s = (r, s')"
  obtains "free_frames s = {}" "r = 0" "s' = s"
  | f where "f = Min (free_frames s)" "f \<in> free_frames s" "r = of_nat f * of_nat PAGE_SIZE"
      "pmm_wf s'" "free_frames s' = free_frames s - {f}" "pmm_used_frames s' = pmm_used_frames s + 1"
      "pmm_total_frames s' = pmm_total_frames s"
proof (cases "free_frames s = {}")
  case True
  with assms(2) show ?thesis by (intro that(1)) (simp_all add: phys_alloc_def first_free_frame)
next
  case False
  then have mem: "Min (free_frames s) \<in> free_frames s" by simp
  then have lt: "Min (free_frames s) < unat (pmm_total_frames s)" by (simp add: free_frames_def)
  obtain f where f: "f = Min (free_frames s)" by simp
  have "r = of_nat f * of_nat PAGE_SIZE"
    "s' = s\<lparr>pmm_bitmap := the (pmm_set_frame f (pmm_bitmap s)), pmm_used_frames := pmm_used_frames s + 1\<rparr>"
    using assms(2) False unfolding f by (simp_all add: phys_alloc_def first_free_frame)
  with mem lt set_abs[OF assms(1) lt] show ?thesis
    unfolding f[symmetric] by (intro that(2)[OF f]) simp_all
qed

lemma frame_of_address:
  assumes "f < unat (pmm_total_frames s)" "pmm_wf s"
  shows "(of_nat f * of_nat PAGE_SIZE :: u64) div of_nat PAGE_SIZE = of_nat f"
    "unat (of_nat f :: u64) = f"
proof -
  have f: "f < 32768" using assms by (simp add: pmm_wf_def pmm_consts)
  then show "unat (of_nat f :: u64) = f" by (simp add: unat_of_nat)
  have "unat (of_nat f * of_nat PAGE_SIZE :: u64) = f * 4096"
    using f by (simp add: PAGE_SIZE_def unat_word_ariths unat_of_nat)
  then have "unat ((of_nat f * of_nat PAGE_SIZE :: u64) div of_nat PAGE_SIZE) = f"
    by (simp add: unat_div PAGE_SIZE_def)
  with f show "(of_nat f * of_nat PAGE_SIZE :: u64) div of_nat PAGE_SIZE = of_nat f"
    by (simp add: word_unat_eq_iff unat_of_nat)
qed

lemma phys_free_abs:
  assumes "pmm_wf s" "addr div of_nat PAGE_SIZE < pmm_total_frames s"
  shows "free_frames (phys_free addr s) = insert (unat (addr div of_nat PAGE_SIZE)) (free_frames s)"
    "pmm_wf (phys_free addr s)"
    "pmm_used_frames (phys_free addr s) = pmm_used_frames s - 1"
    "pmm_total_frames (phys_free addr s) = pmm_total_frames s"
  using assms unset_abs[OF assms(1), of "unat (addr div of_nat PAGE_SIZE)"]
  by (simp_all add: phys_free_def Let_def word_less_nat_alt)

text \<open>
  A run of a client: every address it frees is one it was given and still holds. The last
  argument is the set of addresses it holds.
\<close>
inductive pmm_run :: "pmm \<Rightarrow> pmm \<Rightarrow> u64 set \<Rightarrow> bool" for s\<^sub>0 where
  start: "pmm_run s\<^sub>0 s\<^sub>0 {}"
| alloc: "\<lbrakk>pmm_run s\<^sub>0 s L; phys_alloc s = (a, s'); a \<noteq> 0\<rbrakk> \<Longrightarrow> pmm_run s\<^sub>0 s' (insert a L)"
| alloc_fail: "\<lbrakk>pmm_run s\<^sub>0 s L; phys_alloc s = (0, s')\<rbrakk> \<Longrightarrow> pmm_run s\<^sub>0 s' L"
| free: "\<lbrakk>pmm_run s\<^sub>0 s L; a \<in> L\<rbrakk> \<Longrightarrow> pmm_run s\<^sub>0 (phys_free a s) (L - {a})"

definition frame_at :: "u64 \<Rightarrow> nat" where
  "frame_at a = unat (a div of_nat PAGE_SIZE)"

text \<open>What a run keeps: the held addresses are the frames missing from the free set.\<close>
definition ledger :: "pmm \<Rightarrow> pmm \<Rightarrow> u64 set \<Rightarrow> bool" where
  "ledger s\<^sub>0 s L \<longleftrightarrow>
    pmm_wf s \<and> 0 \<notin> free_frames s\<^sub>0 \<and> finite L \<and> pmm_total_frames s = pmm_total_frames s\<^sub>0 \<and>
    (\<forall>a\<in>L. of_nat (frame_at a) * of_nat PAGE_SIZE = a \<and> frame_at a < unat (pmm_total_frames s)) \<and>
    frame_at ` L \<inter> free_frames s = {} \<and> frame_at ` L \<union> free_frames s = free_frames s\<^sub>0 \<and>
    pmm_used_frames s = pmm_used_frames s\<^sub>0 + of_nat (card L)"

lemma ledger_alloc:
  assumes "ledger s\<^sub>0 s L" "phys_alloc s = (a, s')" "a \<noteq> 0"
  shows "ledger s\<^sub>0 s' (insert a L)" "a \<notin> L"
proof -
  have wf: "pmm_wf s" using assms(1) by (simp add: ledger_def)
  obtain f where f: "f \<in> free_frames s" "a = of_nat f * of_nat PAGE_SIZE" "pmm_wf s'"
      "free_frames s' = free_frames s - {f}" "pmm_used_frames s' = pmm_used_frames s + 1"
      "pmm_total_frames s' = pmm_total_frames s"
    using phys_alloc_cases[OF wf assms(2)] assms(3) by metis
  have lt: "f < unat (pmm_total_frames s)" using f(1) by (simp add: free_frames_def)
  have fa: "frame_at a = f" unfolding frame_at_def f(2) using frame_of_address[OF lt wf] by simp
  have addr: "of_nat f * of_nat PAGE_SIZE = a" by (simp add: f(2))
  show fresh: "a \<notin> L"
    using assms(1) f(1) unfolding ledger_def fa[symmetric] by blast
  have "card (insert a L) = Suc (card L)" using assms(1) fresh by (simp add: ledger_def)
  then show "ledger s\<^sub>0 s' (insert a L)"
    using assms(1) f(1,3-6) fa lt addr unfolding ledger_def by auto
qed

lemma ledger_free:
  assumes "ledger s\<^sub>0 s L" "a \<in> L"
  shows "ledger s\<^sub>0 (phys_free a s) (L - {a})"
proof -
  have wf: "pmm_wf s" and lt: "a div of_nat PAGE_SIZE < pmm_total_frames s"
    using assms by (auto simp: ledger_def frame_at_def word_less_nat_alt)
  have inj: "inj_on frame_at L"
    using assms(1) unfolding ledger_def inj_on_def by metis
  then have img: "frame_at ` (L - {a}) = frame_at ` L - {frame_at a}"
    using assms(2) by (auto simp: inj_on_def)
  have card: "of_nat (card L) = of_nat (card (L - {a})) + (1 :: u64)"
    using assms by (subst card.remove[of L a]) (simp_all add: ledger_def)
  have mem: "frame_at a \<in> frame_at ` L" using assms(2) by simp
  have abs: "free_frames (phys_free a s) = insert (frame_at a) (free_frames s)"
    using phys_free_abs(1)[OF wf lt] by (simp add: frame_at_def)
  have held: "frame_at ` L \<inter> free_frames s = {}" "frame_at ` L \<union> free_frames s = free_frames s\<^sub>0"
    using assms(1) by (simp_all add: ledger_def)
  have "frame_at ` (L - {a}) \<inter> free_frames (phys_free a s) = {}"
    unfolding img abs using held(1) by blast
  moreover have "frame_at ` (L - {a}) \<union> free_frames (phys_free a s) = free_frames s\<^sub>0"
    unfolding img abs held(2)[symmetric] using mem by blast
  moreover have "\<forall>b\<in>L - {a}. of_nat (frame_at b) * of_nat PAGE_SIZE = b \<and>
      frame_at b < unat (pmm_total_frames (phys_free a s))"
    unfolding phys_free_abs(4)[OF wf lt] using assms(1) unfolding ledger_def by blast
  ultimately show ?thesis
    using assms(1) phys_free_abs(2-4)[OF wf lt] card by (simp add: ledger_def)
qed

lemma ledger_exhausted:
  assumes "ledger s\<^sub>0 s L" "phys_alloc s = (0, s')"
  shows "s' = s" "free_frames s = {}"
proof -
  have wf: "pmm_wf s" and zero: "0 \<notin> free_frames s"
    using assms(1) by (auto simp: ledger_def)
  have "f = 0" if "f \<in> free_frames s" "(0 :: u64) = of_nat f * of_nat PAGE_SIZE" for f
    using that frame_of_address[of f s, OF _ wf] by (simp add: free_frames_def)
  then show "s' = s" "free_frames s = {}"
    using phys_alloc_cases[OF wf assms(2)] zero by metis+
qed

lemma pmm_run_ledger:
  assumes "pmm_run s\<^sub>0 s L" "pmm_wf s\<^sub>0" "0 \<notin> free_frames s\<^sub>0"
  shows "ledger s\<^sub>0 s L"
  using assms
proof (induction rule: pmm_run.induct)
  case start
  then show ?case by (simp add: ledger_def)
next
  case (alloc_fail s L s')
  then show ?case using ledger_exhausted by blast
qed (auto intro: ledger_alloc ledger_free)

section \<open>Initialisation\<close>

text \<open>The frames a loop \<open>for (addr = a; addr < e; addr += PAGE_SIZE)\<close> visits.\<close>
definition visited :: "nat \<Rightarrow> nat \<Rightarrow> nat set" where
  "visited a e = {f. a div PAGE_SIZE \<le> f \<and> f * PAGE_SIZE + a mod PAGE_SIZE < e}"

lemma visited_done: "\<not> a < e \<Longrightarrow> visited a e = {}"
proof -
  assume "\<not> a < e"
  moreover have "a \<le> f * PAGE_SIZE + a mod PAGE_SIZE" if "a div PAGE_SIZE \<le> f" for f
    by (metis add_le_mono1 div_mult_mod_eq mult_le_mono1 that)
  ultimately show ?thesis by (fastforce simp: visited_def)
qed

lemma visited_step: "a < e \<Longrightarrow> visited a e = insert (a div PAGE_SIZE) (visited (a + PAGE_SIZE) e)"
  by (auto simp: visited_def PAGE_SIZE_def)

lemma next_page:
  assumes "unat addr + PAGE_SIZE < 2 ^ 64"
  shows "unat (addr + of_nat PAGE_SIZE :: u64) = unat addr + PAGE_SIZE"
  using assms by (simp add: PAGE_SIZE_def unat_word_ariths)

lemma unat_page: "unat (addr div of_nat PAGE_SIZE :: u64) = unat addr div PAGE_SIZE"
  by (simp add: PAGE_SIZE_def unat_div)

lemma free_usable_result:
  assumes "unat usable_end + PAGE_SIZE \<le> 2 ^ 64" "unat total_frames \<le> 8 * length bm"
  shows "\<exists>bm'. free_usable addr usable_end total_frames bm = Some bm' \<and> length bm' = length bm \<and>
    (\<forall>f. pmm_is_frame_set bm' f \<longleftrightarrow> pmm_is_frame_set bm f \<and>
        \<not> (f < unat total_frames \<and> f \<in> visited (unat addr) (unat usable_end)))"
  using assms(2)
proof (induction "unat usable_end - unat addr" arbitrary: addr bm rule: less_induct)
  case less
  show ?case
  proof (cases "addr < usable_end")
    case False
    then show ?thesis
      by (subst free_usable.simps) (simp add: visited_done word_less_nat_alt)
  next
    case True
    let ?f = "unat addr div PAGE_SIZE" and ?n = "addr + of_nat PAGE_SIZE"
    have n: "unat ?n = unat addr + PAGE_SIZE"
      using True assms(1) by (intro next_page) (simp add: word_less_nat_alt)
    then have dec: "unat usable_end - unat ?n < unat usable_end - unat addr"
      using True by (simp add: word_less_nat_alt PAGE_SIZE_def)
    have v: "visited (unat addr) (unat usable_end) = insert ?f (visited (unat ?n) (unat usable_end))"
      unfolding n using True by (intro visited_step) (simp add: word_less_nat_alt)
    show ?thesis
    proof (cases "?f < unat total_frames")
      case lt: True
      then obtain bm1 where bm1: "pmm_unset_frame ?f bm = Some bm1"
        using less.prems unset_frame_defined[of ?f bm] by fastforce
      from less.hyps[OF dec, of bm1] less.prems unset_frame_Some[OF bm1] lt v True bm1 show ?thesis
        by (subst free_usable.simps) (auto simp: unat_page word_less_nat_alt)
    next
      case False
      with less.hyps[OF dec less.prems] v True show ?thesis
        by (subst free_usable.simps) (auto simp: unat_page word_less_nat_alt)
    qed
  qed
qed

lemma reserve_kernel_result:
  assumes "unat kernel_end + PAGE_SIZE \<le> 2 ^ 64" "unat kernel_end \<le> 8 * length bm * PAGE_SIZE"
  shows "\<exists>bm'. reserve_kernel addr kernel_end bm = Some bm' \<and> length bm' = length bm \<and>
    (\<forall>f. pmm_is_frame_set bm' f \<longleftrightarrow>
        pmm_is_frame_set bm f \<or> f \<in> visited (unat addr) (unat kernel_end))"
  using assms(2)
proof (induction "unat kernel_end - unat addr" arbitrary: addr bm rule: less_induct)
  case less
  show ?case
  proof (cases "addr < kernel_end")
    case False
    then show ?thesis
      by (subst reserve_kernel.simps) (simp add: visited_done word_less_nat_alt)
  next
    case True
    let ?f = "unat addr div PAGE_SIZE" and ?n = "addr + of_nat PAGE_SIZE"
    have n: "unat ?n = unat addr + PAGE_SIZE"
      using True assms(1) by (intro next_page) (simp add: word_less_nat_alt)
    then have dec: "unat kernel_end - unat ?n < unat kernel_end - unat addr"
      using True by (simp add: word_less_nat_alt PAGE_SIZE_def)
    have v: "visited (unat addr) (unat kernel_end) = insert ?f (visited (unat ?n) (unat kernel_end))"
      unfolding n using True by (intro visited_step) (simp add: word_less_nat_alt)
    have "unat addr < 8 * length bm * PAGE_SIZE"
      using True less.prems by (simp add: word_less_nat_alt)
    then have "?f div 8 < length bm" by (simp add: less_mult_imp_div_less mult.commute)
    then obtain bm1 where bm1: "pmm_set_frame ?f bm = Some bm1"
      using set_frame_defined by blast
    from less.hyps[OF dec, of bm1] less.prems set_frame_Some[OF bm1] v True bm1 show ?thesis
      by (subst reserve_kernel.simps) (auto simp: unat_page)
  qed
qed

lemma first_page_visited:
  assumes "f < n div PAGE_SIZE"
  shows "f \<in> visited 0x100000 n \<longleftrightarrow> 256 \<le> f"
proof -
  have "f * PAGE_SIZE < n" using assms by (simp add: PAGE_SIZE_def less_eq_div_iff_mult_less_eq
    div_less_iff_less_mult Suc_le_eq[symmetric])
  then show ?thesis by (simp add: visited_def PAGE_SIZE_def)
qed

lemma all_reserved:
  assumes "f < MAX_FRAMES"
  shows "pmm_is_frame_set (replicate BITMAP_SIZE 0xFF) f"
proof -
  have "f div 8 < BITMAP_SIZE"
    using assms by (simp add: pmm_consts less_mult_imp_div_less)
  moreover have "bit (- 1 :: u8) (f mod 8)" by simp
  moreover have "(- 1 :: u8) = 0xFF" by simp
  ultimately show ?thesis by (metis frame_set_bit nth_replicate)
qed

lemma aligned_not_visited:
  assumes "f \<notin> visited base (base + n)" "base mod PAGE_SIZE = 0"
  shows "f * PAGE_SIZE + PAGE_SIZE \<le> base \<or> base + n \<le> f * PAGE_SIZE"
proof (cases "f < base div PAGE_SIZE")
  case True
  then have "Suc f * PAGE_SIZE \<le> base"
    by (simp add: Suc_le_eq[symmetric] less_eq_div_iff_mult_less_eq PAGE_SIZE_def)
  then show ?thesis by simp
qed (use assms in \<open>auto simp: visited_def\<close>)

lemma managed_frames:
  "unat (if mem div of_nat PAGE_SIZE > (of_nat MAX_FRAMES :: u64) then of_nat MAX_FRAMES
    else mem div of_nat PAGE_SIZE) = min (unat mem div PAGE_SIZE) MAX_FRAMES"
proof -
  have "unat (of_nat MAX_FRAMES :: u64) = MAX_FRAMES" by (simp add: pmm_consts)
  then show ?thesis by (simp add: word_less_nat_alt unat_page min_def)
qed

lemma phys_init_result:
  assumes "unat (memory_total info) + PAGE_SIZE \<le> 2 ^ 64"
    "unat (kernel_base info) + unat (kernel_size info) \<le> MAX_RAM"
  shows "\<exists>s'. phys_init info s = Some s' \<and> pmm_wf s' \<and>
    unat (pmm_total_frames s') = min (unat (memory_total info) div PAGE_SIZE) MAX_FRAMES \<and>
    free_frames s' = {256..<unat (pmm_total_frames s')}
      - visited (unat (kernel_base info)) (unat (kernel_base info) + unat (kernel_size info))"
proof -
  define total_frames where "total_frames =
    (if memory_total info div of_nat PAGE_SIZE > (of_nat MAX_FRAMES :: u64) then of_nat MAX_FRAMES
     else memory_total info div of_nat PAGE_SIZE)"
  let ?n = "min (unat (memory_total info) div PAGE_SIZE) MAX_FRAMES"
  let ?k = "kernel_base info + kernel_size info"
  have total: "unat total_frames = ?n" unfolding total_frames_def by (rule managed_frames)
  have k: "unat ?k = unat (kernel_base info) + unat (kernel_size info)"
    using assms(2) by (simp add: pmm_consts unat_word_ariths)
  obtain bm1 where bm1: "free_usable 0x100000 (memory_total info) total_frames
      (replicate BITMAP_SIZE 0xFF) = Some bm1" "length bm1 = BITMAP_SIZE"
    "\<And>f. pmm_is_frame_set bm1 f \<longleftrightarrow> pmm_is_frame_set (replicate BITMAP_SIZE 0xFF) f \<and>
      \<not> (f < ?n \<and> f \<in> visited 0x100000 (unat (memory_total info)))"
    using free_usable_result[OF assms(1), of total_frames "replicate BITMAP_SIZE 0xFF" "0x100000"]
    by (auto simp: total pmm_consts)
  obtain bm2 where bm2: "reserve_kernel (kernel_base info) ?k bm1 = Some bm2"
    "length bm2 = BITMAP_SIZE"
    "\<And>f. pmm_is_frame_set bm2 f \<longleftrightarrow> pmm_is_frame_set bm1 f \<or> f \<in> visited (unat (kernel_base info)) (unat ?k)"
    using reserve_kernel_result[of ?k bm1 "kernel_base info"] assms(2) bm1(2)
    by (auto simp: k pmm_consts)
  let ?s' = "s\<lparr>pmm_bitmap := bm2, pmm_total_frames := total_frames\<rparr>"
  have "phys_init info s = Some ?s'"
    using bm1(1) bm2(1) unfolding phys_init_def Let_def total_frames_def by simp
  moreover have "pmm_wf ?s'" using bm2(2) total by (simp add: pmm_wf_def)
  moreover have "free_frames ?s' = {256..<?n} - visited (unat (kernel_base info)) (unat ?k)"
    using all_reserved first_page_visited by (auto simp: free_frames_def total bm1(3) bm2(3))
  ultimately show ?thesis using total k by auto
qed

section \<open>Properties\<close>

text \<open>A bitmap with three frames, of which the given first byte says which are taken.\<close>
definition demo_pmm :: "u8 \<Rightarrow> pmm" where
  "demo_pmm b = \<lparr>pmm_bitmap = b # replicate 4095 255, pmm_total_frames = 3, pmm_used_frames = 0\<rparr>"

lemma demo_pmm_wf: "pmm_wf (demo_pmm b)"
  by (simp add: pmm_wf_def pmm_consts demo_pmm_def)

lemma demo_pmm_free: "free_frames (demo_pmm 249) = {1, 2}"
proof -
  have "f \<in> free_frames (demo_pmm 249) \<longleftrightarrow> f \<in> {1, 2}" for f
  proof (cases "f < 3")
    case True
    then have "f = 0 \<or> f = 1 \<or> f = 2" by auto
    then show ?thesis by (auto simp: free_frames_def demo_pmm_def frame_set_bit bit_simps)
  qed (auto simp: free_frames_def demo_pmm_def)
  then show ?thesis by blast
qed

lemma demo_frames: "[0..<3] = [0, 1, 2 :: nat]"
  by (simp add: upt_rec)

lemma demo_pmm_alloc: "phys_alloc (demo_pmm 249) = (4096, demo_pmm 251\<lparr>pmm_used_frames := 1\<rparr>)"
  by (simp add: phys_alloc_def demo_pmm_def pmm_is_frame_set_def pmm_set_frame_def PAGE_SIZE_def
      demo_frames)

text \<open>
  C24. \<^verbatim>\<open>phys_alloc\<close> refines the choice of the least free frame: with no free frame it returns
  \<^verbatim>\<open>NULL\<close> and changes nothing; otherwise it returns the address of the least free frame, takes exactly
  that frame out of the free set, and counts it as used.
\<close>
theorem phys_alloc_refines:
  assumes "pmm_wf s" "phys_alloc s = (r, s')"
  shows "pmm_wf s' \<and>
    (if free_frames s = {} then r = 0 \<and> s' = s
     else r = of_nat (Min (free_frames s)) * of_nat PAGE_SIZE \<and>
       free_frames s' = free_frames s - {Min (free_frames s)} \<and>
       pmm_used_frames s' = pmm_used_frames s + 1)"
  using phys_alloc_cases[OF assms] assms(1) by (metis empty_iff)

theorem phys_alloc_refines_witness:
  "pmm_wf (demo_pmm 249) \<and> phys_alloc (demo_pmm 249) = (4096, demo_pmm 251\<lparr>pmm_used_frames := 1\<rparr>) \<and>
    4096 = (of_nat (Min (free_frames (demo_pmm 249))) * of_nat PAGE_SIZE :: u64)"
  using phys_alloc_refines[OF demo_pmm_wf demo_pmm_alloc] demo_pmm_free demo_pmm_alloc demo_pmm_wf
  by auto

text \<open>
  C4. A client that frees only addresses it holds never gets an address twice: in every run of
  \<^verbatim>\<open>phys_alloc\<close> and \<^verbatim>\<open>phys_free\<close> from a state in which frame 0 is reserved, an allocation that
  succeeds returns an address not held, an allocation fails only when the client holds every frame
  that was free at the start, and the counter of used frames grows by the number of addresses held.
\<close>
theorem phys_run_no_double_allocation:
  assumes "pmm_wf s\<^sub>0" "0 \<notin> free_frames s\<^sub>0" "pmm_run s\<^sub>0 s L" "phys_alloc s = (a, s')"
  shows "(if a = 0 then frame_at ` L = free_frames s\<^sub>0
          else a \<notin> L \<and> frame_at a \<in> free_frames s\<^sub>0 - frame_at ` L) \<and>
    pmm_used_frames s = pmm_used_frames s\<^sub>0 + of_nat (card L)"
proof -
  have l: "ledger s\<^sub>0 s L" using assms pmm_run_ledger by blast
  show ?thesis
  proof (cases "a = 0")
    case True
    with ledger_exhausted[OF l] assms(4) l show ?thesis by (simp add: ledger_def)
  next
    case False
    note n = ledger_alloc[OF l assms(4) False]
    have "inj_on frame_at (insert a L)"
      using n(1) unfolding ledger_def inj_on_def by metis
    with n(2) have "frame_at a \<notin> frame_at ` L" by (auto simp: inj_on_def)
    moreover have "frame_at a \<in> free_frames s\<^sub>0" using n(1) by (auto simp: ledger_def)
    ultimately show ?thesis using False n(2) l by (simp add: ledger_def)
  qed
qed

theorem phys_run_no_double_allocation_witness:
  "(8192 :: u64) \<notin> {4096} \<and> frame_at 8192 \<in> free_frames (demo_pmm 249) - frame_at ` {4096} \<and>
    (1 :: u64) = pmm_used_frames (demo_pmm 249) + of_nat (card {4096 :: u64})"
proof -
  let ?s = "demo_pmm 251\<lparr>pmm_used_frames := 1\<rparr>"
  have run: "pmm_run (demo_pmm 249) ?s {4096}"
    using pmm_run.alloc[OF pmm_run.start demo_pmm_alloc] by simp
  have next_alloc: "fst (phys_alloc ?s) = 8192"
    by (simp add: phys_alloc_def demo_pmm_def pmm_is_frame_set_def PAGE_SIZE_def demo_frames)
  show ?thesis
    using phys_run_no_double_allocation[OF demo_pmm_wf _ run surjective_pairing] demo_pmm_free
      next_alloc by simp
qed

text \<open>
  C25. \<^verbatim>\<open>phys_init\<close> terminates without writing outside the bitmap when the kernel image lies in the
  managed 128 MiB and the memory size leaves room for one more page below \<open>2 ^ 64\<close>. It then manages
  the frames of memory up to that bound and has free exactly those above the first megabyte
  that the kernel loop did not visit; when the kernel base is page aligned, no free frame
  overlaps the kernel image.
\<close>
theorem phys_init_free_set:
  assumes "unat (memory_total info) + PAGE_SIZE \<le> 2 ^ 64"
    "unat (kernel_base info) + unat (kernel_size info) \<le> MAX_RAM"
  shows "\<exists>s'. phys_init info s = Some s' \<and> pmm_wf s' \<and>
    unat (pmm_total_frames s') = min (unat (memory_total info) div PAGE_SIZE) MAX_FRAMES \<and>
    free_frames s' = {256..<unat (pmm_total_frames s')}
      - visited (unat (kernel_base info)) (unat (kernel_base info) + unat (kernel_size info)) \<and>
    (unat (kernel_base info) mod PAGE_SIZE = 0 \<longrightarrow> (\<forall>f\<in>free_frames s'.
      f * PAGE_SIZE + PAGE_SIZE \<le> unat (kernel_base info) \<or>
      unat (kernel_base info) + unat (kernel_size info) \<le> f * PAGE_SIZE))"
proof -
  obtain s' where s': "phys_init info s = Some s'" "pmm_wf s'"
    "unat (pmm_total_frames s') = min (unat (memory_total info) div PAGE_SIZE) MAX_FRAMES"
    "free_frames s' = {256..<unat (pmm_total_frames s')}
      - visited (unat (kernel_base info)) (unat (kernel_base info) + unat (kernel_size info))"
    using phys_init_result[OF assms] by blast
  show ?thesis
    by (intro exI[of _ s'] conjI s' impI ballI aligned_not_visited) (simp_all add: s'(4))
qed

theorem phys_init_free_set_witness:
  "\<exists>s'. phys_init \<lparr>memory_total = 0x103000, kernel_base = 0x100000, kernel_size = 0x1000\<rparr> (demo_pmm 0)
      = Some s' \<and> free_frames s' = {257, 258}"
proof -
  let ?i = "\<lparr>memory_total = 0x103000, kernel_base = 0x100000, kernel_size = 0x1000\<rparr> :: boot_info"
  have "{256..<259} - visited 0x100000 0x101000 = {257, 258}"
    by (auto simp: visited_def PAGE_SIZE_def)
  with phys_init_free_set[of ?i "demo_pmm 0"] show ?thesis by (auto simp: pmm_consts)
qed

text \<open>
  The kernel loop of \<^verbatim>\<open>phys_init\<close> steps from the unrounded kernel base, so an image that does
  not start on a page boundary keeps its last page allocatable: with an unaligned base and a size
  of whole pages, the frame that holds the last bytes of the image is in the free set.
\<close>
theorem phys_init_unaligned_kernel_exposed:
  assumes "unat (memory_total info) + PAGE_SIZE \<le> 2 ^ 64"
    "unat (kernel_base info) + unat (kernel_size info) \<le> MAX_RAM"
    "unat (kernel_base info) mod PAGE_SIZE \<noteq> 0" "unat (kernel_size info) mod PAGE_SIZE = 0"
    "f = (unat (kernel_base info) + unat (kernel_size info)) div PAGE_SIZE"
    "256 \<le> f" "f < min (unat (memory_total info) div PAGE_SIZE) MAX_FRAMES"
  shows "\<exists>s'. phys_init info s = Some s' \<and> f \<in> free_frames s' \<and>
    f * PAGE_SIZE < unat (kernel_base info) + unat (kernel_size info)"
proof -
  obtain b r k where b: "unat (kernel_base info) = b * PAGE_SIZE + r" "r < PAGE_SIZE"
      "unat (kernel_size info) = k * PAGE_SIZE" "0 < r"
    using assms(3,4) by (metis PAGE_SIZE_def div_mult_mod_eq mod_less_divisor add.right_neutral
      bot_nat_0.not_eq_extremum zero_less_numeral)
  then have f: "f = b + k" using assms(5) by (simp add: PAGE_SIZE_def)
  have "f \<notin> visited (unat (kernel_base info)) (unat (kernel_base info) + unat (kernel_size info))"
    using b by (simp add: f visited_def algebra_simps)
  moreover have "f * PAGE_SIZE < unat (kernel_base info) + unat (kernel_size info)"
    using b by (simp add: f algebra_simps)
  ultimately show ?thesis
    using phys_init_result[OF assms(1,2), of s] assms(6,7) by auto
qed

theorem phys_init_unaligned_kernel_exposed_witness:
  "\<exists>s'. phys_init \<lparr>memory_total = 0x103000, kernel_base = 0x100800, kernel_size = 0x1000\<rparr>
      (demo_pmm 0) = Some s' \<and> 0x101 \<in> free_frames s' \<and> 0x101 * PAGE_SIZE < 0x100800 + 0x1000"
  using phys_init_unaligned_kernel_exposed[of
      "\<lparr>memory_total = 0x103000, kernel_base = 0x100800, kernel_size = 0x1000\<rparr>" "0x101" "demo_pmm 0"]
  by (simp add: pmm_consts)

text \<open>
  \<^verbatim>\<open>phys_free\<close> does not look at the bit it clears. An address outside the managed frames changes
  nothing; freeing a managed frame puts it in the free set and always decrements the counter, so
  freeing the same address twice leaves the set as one free does and the counter one too low.
\<close>
theorem phys_free_twice:
  assumes "pmm_wf s"
  shows "if addr div of_nat PAGE_SIZE < pmm_total_frames s
    then free_frames (phys_free addr s) = insert (frame_at addr) (free_frames s) \<and>
      free_frames (phys_free addr (phys_free addr s)) = free_frames (phys_free addr s) \<and>
      pmm_used_frames (phys_free addr (phys_free addr s)) = pmm_used_frames s - 2
    else phys_free addr s = s"
proof (cases "addr div of_nat PAGE_SIZE < pmm_total_frames s")
  case True
  note once = phys_free_abs[OF assms True]
  have "addr div of_nat PAGE_SIZE < pmm_total_frames (phys_free addr s)" using True once(4) by simp
  note twice = phys_free_abs[OF once(2) this]
  show ?thesis using True once twice by (simp add: frame_at_def)
qed (simp add: phys_free_def)

theorem phys_free_twice_witness:
  "pmm_used_frames (phys_free 4096 (phys_free 4096 (demo_pmm 249))) = - 2 \<and>
    free_frames (phys_free 4096 (demo_pmm 249)) = {1, 2}"
proof -
  have "(4096 :: u64) div of_nat PAGE_SIZE = 1" "frame_at 4096 = 1"
    by (simp_all add: PAGE_SIZE_def frame_at_def)
  moreover have "pmm_total_frames (demo_pmm 249) = 3" "pmm_used_frames (demo_pmm 249) = 0"
    by (simp_all add: demo_pmm_def)
  ultimately show ?thesis
    using phys_free_twice[OF demo_pmm_wf, of 4096 249] demo_pmm_free by simp
qed

end
