(* ===== verification/Sage_Libc.thy ===== *)
theory Sage_Libc
  imports Sage_Prelude
begin

text \<open>
  The freestanding C library of \<^verbatim>\<open>kernel/core/sagelang/sage_libc_shim.c\<close>: comparison, search and copy of
  strings and memory, \<^verbatim>\<open>sage_vsnprintf\<close> and the conversions from text to numbers. A C string is the
  list of its characters before the terminating NUL; a pointer into a string is the suffix it points
  to. Memory is a function from addresses to bytes. Reading a variable argument at another type
  than the one passed and signed overflow are undefined behaviour and \<open>None\<close>.

  Shown: \<^verbatim>\<open>sage_memmove\<close> copies overlapping blocks as if through a third buffer; \<^verbatim>\<open>sage_strstr\<close> finds the
  first occurrence; \<^verbatim>\<open>sage_vsnprintf\<close> writes the first \<^verbatim>\<open>n - 1\<close> characters of the formatted text and
  returns its full length; numbers printed with \<^verbatim>\<open>%d\<close> and \<^verbatim>\<open>%x\<close> are read back by \<^verbatim>\<open>sage_atoi\<close> and
  \<^verbatim>\<open>sage_strtol\<close>.
\<close>

section \<open>Strings\<close>

text \<open>The byte a string pointer points to.\<close>
fun c_byte :: "string \<Rightarrow> int" where
  "c_byte [] = 0"
| "c_byte (c # _) = of_char c"

fun sage_strcmp :: "string \<Rightarrow> string \<Rightarrow> int" where
  "sage_strcmp (x # a) (y # b) = (if x = y then sage_strcmp a b else of_char x - of_char y)"
| "sage_strcmp a b = c_byte a - c_byte b"

fun sage_strncmp :: "string \<Rightarrow> string \<Rightarrow> nat \<Rightarrow> int" where
  "sage_strncmp a b 0 = 0"
| "sage_strncmp (x # a) (y # b) (Suc n) = (if x \<noteq> y then of_char x - of_char y else sage_strncmp a b n)"
| "sage_strncmp a b (Suc n) = c_byte a - c_byte b"

text \<open>The \<open>n\<close> bytes written: the string, cut off or padded with NULs.\<close>
fun sage_strncpy :: "string \<Rightarrow> nat \<Rightarrow> string" where
  "sage_strncpy src 0 = []"
| "sage_strncpy [] (Suc n) = CHR 0x00 # sage_strncpy [] n"
| "sage_strncpy (c # src) (Suc n) = c # sage_strncpy src n"

fun sage_strchr :: "string \<Rightarrow> char \<Rightarrow> string option" where
  "sage_strchr [] c = (if c = CHR 0x00 then Some [] else None)"
| "sage_strchr (x # s) c = (if x = c then Some (x # s) else sage_strchr s c)"

text \<open>The inner loop of \<^verbatim>\<open>sage_strstr\<close>: whether it reaches the end of the needle.\<close>
fun match_here :: "string \<Rightarrow> string \<Rightarrow> bool" where
  "match_here a [] \<longleftrightarrow> True"
| "match_here [] (y # b) \<longleftrightarrow> False"
| "match_here (x # a) (y # b) \<longleftrightarrow> x = y \<and> match_here a b"

fun strstr_loop :: "string \<Rightarrow> string \<Rightarrow> string option" where
  "strstr_loop [] n = None"
| "strstr_loop (x # h) n = (if match_here (x # h) n then Some (x # h) else strstr_loop h n)"

definition sage_strstr :: "string \<Rightarrow> string \<Rightarrow> string option" where
  "sage_strstr h n = (if n = [] then Some h else strstr_loop h n)"

section \<open>Memory\<close>

type_synonym mem = "nat \<Rightarrow> u8"

definition sage_memset :: "nat \<Rightarrow> u8 \<Rightarrow> nat \<Rightarrow> mem \<Rightarrow> mem" where
  "sage_memset s c n m = fold (\<lambda>i m. m(s + i := c)) [0..<n] m"

definition sage_memcpy :: "nat \<Rightarrow> nat \<Rightarrow> nat \<Rightarrow> mem \<Rightarrow> mem" where
  "sage_memcpy d s n m = fold (\<lambda>i m. m(d + i := m (s + i))) [0..<n] m"

definition sage_memmove :: "nat \<Rightarrow> nat \<Rightarrow> nat \<Rightarrow> mem \<Rightarrow> mem" where
  "sage_memmove d s n m =
    (if d < s then fold (\<lambda>i m. m(d + i := m (s + i))) [0..<n] m
     else if d > s then fold (\<lambda>i m. m(d + i := m (s + i))) (rev [0..<n]) m
     else m)"

fun sage_memcmp :: "u8 list \<Rightarrow> u8 list \<Rightarrow> nat \<Rightarrow> int" where
  "sage_memcmp (x # a) (y # b) (Suc n) = (if x \<noteq> y then uint x - uint y else sage_memcmp a b n)"
| "sage_memcmp a b n = 0"

section \<open>Formatted output\<close>

text \<open>An argument of type \<^verbatim>\<open>int\<close> or \<^verbatim>\<open>unsigned\<close>, a string pointer (\<open>None\<close> for \<^verbatim>\<open>NULL\<close>) or another pointer.\<close>
datatype va_arg = VA_int u32 | VA_str "string option" | VA_ptr u64

definition sage_isdigit :: "char \<Rightarrow> bool" where
  "sage_isdigit c \<longleftrightarrow> 48 \<le> (of_char c :: nat) \<and> (of_char c :: nat) \<le> 57"

definition digits_value :: "string \<Rightarrow> nat" where
  "digits_value cs = foldl (\<lambda>v c. v * 10 + (of_char c - 48)) 0 cs"

text \<open>
  One character of output: \<^verbatim>\<open>if (buf && pos + 1 < n) buf[pos] = c; pos++\<close>. The bound is \<open>None\<close> when
  \<^verbatim>\<open>buf\<close> is \<^verbatim>\<open>NULL\<close>; the state is what the buffer holds and \<^verbatim>\<open>pos\<close>.
\<close>
definition emit :: "nat option \<Rightarrow> char \<Rightarrow> string \<times> nat \<Rightarrow> string \<times> nat" where
  "emit lim c st =
    (case st of (buf, pos) \<Rightarrow>
      ((case lim of None \<Rightarrow> buf | Some n \<Rightarrow> if pos + 1 < n then buf @ [c] else buf), pos + 1))"

text \<open>A number given in the format or by \<^verbatim>\<open>*\<close>: its value, the format and the arguments after it.\<close>
definition read_count :: "string \<Rightarrow> va_arg list \<Rightarrow> (int \<times> string \<times> va_arg list) option" where
  "read_count fmt args =
    (if fmt \<noteq> [] \<and> hd fmt = CHR ''*'' then
       (case args of VA_int w # args' \<Rightarrow> Some (sint w, tl fmt, args') | _ \<Rightarrow> None)
     else
       let v = digits_value (takeWhile sage_isdigit fmt) in
       if v < 2 ^ 31 then Some (int v, dropWhile sage_isdigit fmt, args) else None)"

text \<open>The optional precision, -1 when there is none.\<close>
definition read_precision :: "string \<Rightarrow> va_arg list \<Rightarrow> (int \<times> string \<times> va_arg list) option" where
  "read_precision fmt args =
    (if fmt \<noteq> [] \<and> hd fmt = CHR ''.'' then read_count (tl fmt) args else Some (-1, fmt, args))"

definition is_modifier :: "char \<Rightarrow> bool" where
  "is_modifier c \<longleftrightarrow> c \<in> set ''hlLzjt''"

text \<open>The loop that fills \<^verbatim>\<open>tmp\<close>: the digits of a number, least significant first.\<close>
fun tmp_digits :: "string \<Rightarrow> nat \<Rightarrow> string" where
  "tmp_digits ds v =
    (if v = 0 \<or> length ds < 2 then [] else (ds ! (v mod length ds)) # tmp_digits ds (v div length ds))"

definition number_digits :: "string \<Rightarrow> nat \<Rightarrow> string" where
  "number_digits ds v = (if v = 0 then ''0'' else rev (tmp_digits ds v))"

text \<open>The characters that the branch for numbers emits.\<close>
definition number_text :: "bool \<Rightarrow> bool \<Rightarrow> int \<Rightarrow> string \<Rightarrow> string" where
  "number_text zero_pad neg width ds =
    (let total = int (length ds) + (if neg then 1 else 0);
         pad = (if width > total then nat (width - total) else 0);
         sign = (if neg then ''-'' else [])
     in if width > total \<and> neg \<and> zero_pad then sign @ replicate pad (CHR ''0'') @ ds
        else replicate pad (if zero_pad then CHR ''0'' else CHR '' '') @ sign @ ds)"

text \<open>The characters that the branch for strings emits.\<close>
definition string_text :: "int \<Rightarrow> int \<Rightarrow> string \<Rightarrow> string" where
  "string_text width precision s =
    (let t = (if precision < 0 then s else take (nat precision) s);
         pad = (if width > int (length t) then nat (width - int (length t)) else 0)
     in replicate pad (CHR '' '') @ t)"

definition hex_lower :: string where "hex_lower = ''0123456789abcdef''"
definition hex_upper :: string where "hex_upper = ''0123456789ABCDEF''"
definition decimal :: string where "decimal = ''0123456789''"

text \<open>The conversion at \<^verbatim>\<open>*fmt\<close>: what it emits and the arguments left.\<close>
definition convert :: "char \<Rightarrow> bool \<Rightarrow> int \<Rightarrow> int \<Rightarrow> va_arg list \<Rightarrow> (string \<times> va_arg list) option" where
  "convert c zero_pad width precision args =
    (if c = CHR ''s'' then
       (case args of
          VA_str s # args' \<Rightarrow> Some (string_text width precision (case s of None \<Rightarrow> ''(null)'' | Some t \<Rightarrow> t), args')
        | _ \<Rightarrow> None)
     else if c = CHR ''d'' then
       (case args of
          VA_int w # args' \<Rightarrow>
            Some (number_text zero_pad (sint w < 0) width (number_digits decimal (nat \<bar>sint w\<bar>)), args')
        | _ \<Rightarrow> None)
     else if c = CHR ''p'' then
       (case args of
          VA_ptr p # args' \<Rightarrow> Some (number_text True False 16 (number_digits hex_lower (unat p)), args')
        | _ \<Rightarrow> None)
     else if c = CHR ''u'' \<or> c = CHR ''x'' \<or> c = CHR ''X'' then
       (case args of
          VA_int w # args' \<Rightarrow>
            Some (number_text zero_pad False width
              (number_digits (if c = CHR ''u'' then decimal else if c = CHR ''x'' then hex_lower else hex_upper) (unat w)), args')
        | _ \<Rightarrow> None)
     else if c = CHR ''c'' then
       (case args of VA_int w # args' \<Rightarrow> Some ([char_of (unat w)], args') | _ \<Rightarrow> None)
     else if c = CHR ''%'' then Some (''%'', args)
     else Some ([], args))"

text \<open>
  A directive, from the character after \<^verbatim>\<open>%\<close>: what it emits, the format after it and the arguments left.
\<close>
definition directive :: "string \<Rightarrow> va_arg list \<Rightarrow> (string \<times> string \<times> va_arg list) option" where
  "directive fmt args = do {
     let zero_pad = (fmt \<noteq> [] \<and> hd fmt = CHR ''0'');
     let fmt1 = dropWhile (\<lambda>c. c = CHR ''0'') fmt;
     (w, fmt2, args2) \<leftarrow> read_count fmt1 args;
     width \<leftarrow> (if w = - (2 ^ 31) then None else Some \<bar>w\<bar>);
     (precision, fmt3, args3) \<leftarrow> read_precision fmt2 args2;
     let fmt4 = dropWhile is_modifier fmt3;
     if fmt4 = [] then Some ([], [], args3)
     else do {
       (text, args4) \<leftarrow> convert (hd fmt4) zero_pad width precision args3;
       Some (text, tl fmt4, args4)
     }
   }"

lemma read_count_length:
  "read_count fmt args = Some (v, fmt', args') \<Longrightarrow> length fmt' \<le> length fmt"
  by (auto simp: read_count_def Let_def length_dropWhile_le split: if_splits list.splits va_arg.splits)

lemma read_precision_length:
  "read_precision fmt args = Some (v, fmt', args') \<Longrightarrow> length fmt' \<le> length fmt"
  using read_count_length[of "tl fmt" args v fmt' args'] by (auto simp: read_precision_def split: if_splits)

lemma directive_length:
  assumes "directive fmt args = Some (text, fmt', args')"
  shows "length fmt' \<le> length fmt"
proof -
  obtain w f2 a2 p f3 a3 where r: "read_count (dropWhile (\<lambda>c. c = CHR ''0'') fmt) args = Some (w, f2, a2)"
    and q: "read_precision f2 a2 = Some (p, f3, a3)" and d: "fmt' = [] \<or> fmt' = tl (dropWhile is_modifier f3)"
    using assms by (auto simp: directive_def Let_def split: bind_splits if_splits)
  have "length fmt' \<le> length f3" using d length_dropWhile_le[of is_modifier f3] by auto
  with read_precision_length[OF q] read_count_length[OF r] length_dropWhile_le[of "\<lambda>c. c = CHR ''0''" fmt]
  show ?thesis by linarith
qed

function format_loop :: "nat option \<Rightarrow> string \<Rightarrow> va_arg list \<Rightarrow> string \<times> nat \<Rightarrow> (string \<times> nat) option" where
  "format_loop lim [] args st = Some st"
| "format_loop lim (c # fmt) args st =
    (if c \<noteq> CHR ''%'' then format_loop lim fmt args (emit lim c st)
     else case directive fmt args of
         None \<Rightarrow> None
       | Some (text, fmt', args') \<Rightarrow> format_loop lim fmt' args' (fold (emit lim) text st))"
  by pat_completeness auto
termination
  by (relation "measure (\<lambda>(lim, fmt, args, st). length fmt)") (auto dest: directive_length)

text \<open>
  \<^verbatim>\<open>sage_vsnprintf\<close> into a buffer of \<open>n\<close> bytes (\<open>None\<close> for a null buffer): the string the buffer holds, if it is
  terminated at all, and the value returned.
\<close>
definition sage_vsnprintf :: "nat option \<Rightarrow> string \<Rightarrow> va_arg list \<Rightarrow> (string option \<times> int) option" where
  "sage_vsnprintf lim fmt args = do {
     (buf, pos) \<leftarrow> format_loop lim fmt args ([], 0);
     Some (case lim of
             None \<Rightarrow> None
           | Some n \<Rightarrow> if n > 0 then Some buf else None,
           signed_take_bit 31 (int pos))
   }"

section \<open>Numbers\<close>

fun atoi_loop :: "string \<Rightarrow> int \<Rightarrow> int option" where
  "atoi_loop [] r = Some r"
| "atoi_loop (c # s) r =
    (if sage_isdigit c then
       let r' = r * 10 + (of_char c - 48) in if r' < 2 ^ 31 then atoi_loop s r' else None
     else Some r)"

definition sage_atoi :: "string \<Rightarrow> int option" where
  "sage_atoi s =
    (let s1 = dropWhile (\<lambda>c. c = CHR '' '') s in
     if s1 \<noteq> [] \<and> hd s1 = CHR ''-'' then map_option uminus (atoi_loop (tl s1) 0)
     else atoi_loop s1 0)"

definition hex_digit :: "char \<Rightarrow> nat option" where
  "hex_digit c =
    (let n = of_char c :: nat in
     if 48 \<le> n \<and> n \<le> 57 then Some (n - 48)
     else if 97 \<le> n \<and> n \<le> 102 then Some (10 + (n - 97))
     else if 65 \<le> n \<and> n \<le> 70 then Some (10 + (n - 65))
     else None)"

fun strtol_loop :: "nat \<Rightarrow> string \<Rightarrow> int \<Rightarrow> (int \<times> string) option" where
  "strtol_loop base [] res = Some (res, [])"
| "strtol_loop base (c # s) res =
    (case hex_digit c of
       None \<Rightarrow> Some (res, c # s)
     | Some d \<Rightarrow>
         if d \<ge> base then Some (res, c # s)
         else let r = res * int base + int d in if r < 2 ^ 63 then strtol_loop base s r else None)"

text \<open>The base that a prefix selects, and the string after the prefix.\<close>
definition strtol_base :: "nat \<Rightarrow> string \<Rightarrow> nat \<times> string" where
  "strtol_base base s =
    (let x = (length s \<ge> 2 \<and> s ! 0 = CHR ''0'' \<and> (s ! 1 = CHR ''x'' \<or> s ! 1 = CHR ''X''));
         b = (length s \<ge> 2 \<and> s ! 0 = CHR ''0'' \<and> (s ! 1 = CHR ''b'' \<or> s ! 1 = CHR ''B''))
     in if base = 0 then
          (if s \<noteq> [] \<and> hd s = CHR ''0'' then
             (if x then (16, drop 2 s) else if b then (2, drop 2 s) else (8, s))
           else (10, s))
        else if base = 16 \<and> x then (16, drop 2 s)
        else (base, s))"

text \<open>The value and the pointer stored in \<^verbatim>\<open>*end\<close>.\<close>
definition sage_strtol :: "string \<Rightarrow> nat \<Rightarrow> (int \<times> string) option" where
  "sage_strtol s base =
    (let s1 = dropWhile (\<lambda>c. c = CHR '' '') s;
         neg = (s1 \<noteq> [] \<and> hd s1 = CHR ''-'');
         s2 = (if neg then tl s1 else s1);
         (b, s3) = strtol_base base s2
     in map_option (\<lambda>(r, rest). (if neg then - r else r, rest)) (strtol_loop b s3 0))"

section \<open>Comparison and search\<close>

lemma of_char_eq_0 [simp]: "(of_char c :: int) = 0 \<longleftrightarrow> c = CHR 0x00"
proof -
  have "of_char c = (of_char (CHR 0x00) :: int) \<longleftrightarrow> c = CHR 0x00" by (rule of_char_eq_iff)
  then show ?thesis by simp
qed

lemma c_byte_eq_0: "CHR 0x00 \<notin> set a \<Longrightarrow> c_byte a = 0 \<longleftrightarrow> a = []"
  by (cases a) auto

lemma sage_strcmp_eq_0:
  "CHR 0x00 \<notin> set a \<Longrightarrow> CHR 0x00 \<notin> set b \<Longrightarrow> sage_strcmp a b = 0 \<longleftrightarrow> a = b"
proof (induction a b rule: sage_strcmp.induct)
  case (1 x a y b)
  have "(of_char x :: int) - of_char y = 0 \<longleftrightarrow> x = y" by simp
  with 1 show ?case by auto
qed (auto simp: c_byte_eq_0)

lemma sage_strncmp_eq_0:
  "CHR 0x00 \<notin> set a \<Longrightarrow> CHR 0x00 \<notin> set b \<Longrightarrow> sage_strncmp a b n = 0 \<longleftrightarrow> take n a = take n b"
proof (induction a b n rule: sage_strncmp.induct)
  case (2 x a y b n)
  have "(of_char x :: int) - of_char y = 0 \<longleftrightarrow> x = y" by simp
  with 2 show ?case by auto
qed (auto simp: c_byte_eq_0)

lemma match_here_iff: "match_here a b \<longleftrightarrow> (\<exists>r. a = b @ r)"
  by (induction a b rule: match_here.induct) auto

text \<open>The result of \<^verbatim>\<open>sage_strstr\<close> is the first place where the needle occurs.\<close>
lemma sage_strstr_first:
  assumes "sage_strstr h n = Some r"
  shows "\<exists>pre rest. h = pre @ r \<and> r = n @ rest \<and> (\<forall>pre' rest'. h = pre' @ n @ rest' \<longrightarrow> length pre \<le> length pre')"
proof (cases "n = []")
  case False
  then have "strstr_loop h n = Some r" using assms by (simp add: sage_strstr_def)
  then show ?thesis
  proof (induction h)
    case (Cons x h)
    show ?case
    proof (cases "match_here (x # h) n")
      case True
      have r: "r = x # h" using True Cons.prems by simp
      obtain rest where "x # h = n @ rest" using True by (auto simp: match_here_iff)
      then show ?thesis unfolding r by (intro exI[of _ "[]"] exI[of _ rest]) simp
    next
      case no: False
      with Cons obtain pre rest where h: "h = pre @ r" "r = n @ rest"
        and least: "\<And>pre' rest'. h = pre' @ n @ rest' \<Longrightarrow> length pre \<le> length pre'" by auto
      have "length (x # pre) \<le> length pre'" if "x # h = pre' @ n @ rest'" for pre' rest'
        using that no least by (cases pre') (auto simp: match_here_iff)
      with h show ?thesis by (intro exI[of _ "x # pre"] exI[of _ rest]) auto
    qed
  qed simp
qed (use assms in \<open>auto simp: sage_strstr_def\<close>)

lemma sage_strstr_None:
  assumes "sage_strstr h n = None"
  shows "h \<noteq> pre @ n @ rest"
proof -
  have n: "n \<noteq> []" "strstr_loop h n = None" using assms by (auto simp: sage_strstr_def split: if_splits)
  then show ?thesis
  proof (induction h arbitrary: pre)
    case (Cons x h)
    then show ?case by (cases pre) (auto simp: match_here_iff split: if_splits)
  qed simp
qed

section \<open>Copying\<close>

lemma forward_copy:
  assumes "d < s"
  shows "fold (\<lambda>i m. m(d + i := m (s + i))) [0..<n] m = (\<lambda>a. if d \<le> a \<and> a < d + n then m (s + (a - d)) else m a)"
proof (induction n)
  case (Suc n)
  with assms show ?case by (auto simp: fun_eq_iff)
qed (auto simp: fun_eq_iff)

lemma backward_copy:
  fixes m :: mem
  assumes "s < d"
  shows "fold (\<lambda>i m. m(d + i := m (s + i))) (rev [0..<n]) m = (\<lambda>a. if d \<le> a \<and> a < d + n then m (s + (a - d)) else m a)"
proof (induction n arbitrary: m)
  case (Suc n)
  with assms show ?case by (auto simp: fun_eq_iff)
qed (auto simp: fun_eq_iff)

text \<open>
  \<^verbatim>\<open>sage_memmove\<close> moves the bytes of the source as they were before the call, also when the two blocks
  overlap, and touches nothing else.
\<close>
theorem sage_memmove_moves:
  "sage_memmove d s n m = (\<lambda>a. if d \<le> a \<and> a < d + n then m (s + (a - d)) else m a)"
proof -
  consider "d < s" | "s < d" | "d = s" by linarith
  then show ?thesis
    by cases (auto simp: sage_memmove_def forward_copy backward_copy fun_eq_iff)
qed

section \<open>Formatting\<close>

text \<open>The text a format denotes, without a buffer.\<close>
function formatted :: "string \<Rightarrow> va_arg list \<Rightarrow> string option" where
  "formatted [] args = Some []"
| "formatted (c # fmt) args =
    (if c \<noteq> CHR ''%'' then map_option ((#) c) (formatted fmt args)
     else case directive fmt args of
         None \<Rightarrow> None
       | Some (text, fmt', args') \<Rightarrow> map_option ((@) text) (formatted fmt' args'))"
  by pat_completeness auto
termination
  by (relation "measure (\<lambda>(fmt, args). length fmt)") (auto dest: directive_length)

lemma emit_all:
  "fold (emit (Some n)) cs (take (n - 1) t, length t) = (take (n - 1) (t @ cs), length (t @ cs))"
proof (induction cs arbitrary: t)
  case (Cons c cs)
  have "emit (Some n) c (take (n - 1) t, length t) = (take (n - 1) (t @ [c]), length (t @ [c]))"
    by (auto simp: emit_def)
  with Cons[of "t @ [c]"] show ?case by simp
qed simp

lemma format_loop_formatted:
  "format_loop (Some n) fmt args (take (n - 1) t, length t) =
    map_option (\<lambda>u. (take (n - 1) (t @ u), length (t @ u))) (formatted fmt args)"
proof (induction fmt args arbitrary: t rule: formatted.induct)
  case (2 c fmt args)
  show ?case
  proof (cases "c = CHR ''%''")
    case False
    with 2(1)[of "t @ [c]"] emit_all[of n "[c]" t] show ?thesis
      by (cases "formatted fmt args") auto
  next
    case True
    show ?thesis
    proof (cases "directive fmt args")
      case (Some x)
      obtain tx f' a' where x: "x = (tx, f', a')" by (cases x)
      have "format_loop (Some n) f' a' (take (n - 1) (t @ tx), length (t @ tx)) =
          map_option (\<lambda>u. (take (n - 1) ((t @ tx) @ u), length ((t @ tx) @ u))) (formatted f' a')"
        by (rule 2(2)[OF _ Some x[symmetric] refl]) (simp add: True)
      moreover have "format_loop (Some n) (c # fmt) args (take (n - 1) t, length t) =
          format_loop (Some n) f' a' (take (n - 1) (t @ tx), length (t @ tx))"
        by (simp only: format_loop.simps True Some x emit_all option.case prod.case simp_thms if_False not_True_eq_False)
      ultimately show ?thesis by (simp add: True Some x option.map_comp o_def)
    qed (simp add: True)
  qed
qed simp

text \<open>
  C34. \<^verbatim>\<open>sage_vsnprintf\<close> stays within its buffer: into \<open>n > 0\<close> bytes it writes the first \<open>n - 1\<close> characters of
  the formatted text and a NUL, and it returns the length of the whole text, whatever \<open>n\<close> is.
\<close>
theorem sage_vsnprintf_truncates:
  "sage_vsnprintf (Some n) fmt args =
    map_option (\<lambda>t. (if n > 0 then Some (take (n - 1) t) else None, signed_take_bit 31 (int (length t))))
      (formatted fmt args)"
  using format_loop_formatted[of n fmt args "[]"]
  by (cases "formatted fmt args") (auto simp: sage_vsnprintf_def)

section \<open>Printing and reading numbers\<close>

declare tmp_digits.simps [simp del]

text \<open>The last digit of a number in the base given by the digit characters.\<close>
lemma number_digits_rec:
  assumes "length ds > 1" "ds ! 0 = CHR ''0''"
  shows "number_digits ds v =
    (if v < length ds then [ds ! v] else number_digits ds (v div length ds) @ [ds ! (v mod length ds)])"
proof (cases "v < length ds")
  case True
  with assms show ?thesis
    by (cases "v = 0") (simp_all add: number_digits_def tmp_digits.simps)
next
  case False
  then have "v div length ds > 0" using assms(1) by (subst div_greater_zero_iff) linarith
  with False assms show ?thesis by (simp add: number_digits_def tmp_digits.simps[of ds v])
qed

lemma hex_digit_lower: "d < 16 \<Longrightarrow> hex_digit (hex_lower ! d) = Some d"
proof -
  have "\<forall>d\<in>set [0..<16]. hex_digit (hex_lower ! d) = Some d" by code_simp
  then show "d < 16 \<Longrightarrow> hex_digit (hex_lower ! d) = Some d" by simp
qed

lemma decimal_value: "d < 10 \<Longrightarrow> sage_isdigit (decimal ! d) \<and> (of_char (decimal ! d) :: int) = 48 + int d"
proof -
  have "\<forall>d\<in>set [0..<10]. sage_isdigit (decimal ! d) \<and> (of_char (decimal ! d) :: int) = 48 + int d" by code_simp
  then show "d < 10 \<Longrightarrow> sage_isdigit (decimal ! d) \<and> (of_char (decimal ! d) :: int) = 48 + int d" by simp
qed

lemma atoi_loop_append:
  "list_all sage_isdigit a \<Longrightarrow> atoi_loop (a @ b) r = atoi_loop a r \<bind> atoi_loop b"
  by (induction a arbitrary: r) (auto simp: Let_def)

lemma decimal_len: "length decimal = 10" "decimal ! 0 = CHR ''0''"
  by (simp_all add: decimal_def)

lemma hex_len: "length hex_lower = 16" "hex_lower ! 0 = CHR ''0''"
  by (simp_all add: hex_lower_def)

lemma number_digits_isdigit: "list_all sage_isdigit (number_digits decimal v)"
proof (induction v rule: less_induct)
  case (less v)
  then show ?case
    using decimal_value[of v] decimal_value[of "v mod 10"] number_digits_rec[of decimal v]
    by (cases "v < 10") (auto simp: decimal_len)
qed

lemma atoi_digits: "v < 2 ^ 31 \<Longrightarrow> atoi_loop (number_digits decimal v) 0 = Some (int v)"
proof (induction v rule: less_induct)
  case (less v)
  show ?case
  proof (cases "v < 10")
    case True
    with less.prems decimal_value[of v] number_digits_rec[of decimal v] show ?thesis
      by (simp add: decimal_len Let_def)
  next
    case False
    have ih: "atoi_loop (number_digits decimal (v div 10)) 0 = Some (int (v div 10))"
      using False less.prems by (intro less.IH) auto
    have v: "int (v div 10) * 10 + int (v mod 10) = int v" by (simp add: zdiv_int zmod_int)
    have "number_digits decimal v = number_digits decimal (v div 10) @ [decimal ! (v mod 10)]"
      using False number_digits_rec[of decimal v] by (simp add: decimal_len)
    then have "atoi_loop (number_digits decimal v) 0 = atoi_loop [decimal ! (v mod 10)] (int (v div 10))"
      by (simp only: atoi_loop_append[OF number_digits_isdigit] ih bind.bind_lunit)
    then show ?thesis using less.prems decimal_value[of "v mod 10"] v by (simp add: Let_def)
  qed
qed

lemma strtol_loop_append:
  "list_all (\<lambda>c. \<exists>d<base. hex_digit c = Some d) a \<Longrightarrow>
    strtol_loop base (a @ b) r = strtol_loop base a r \<bind> (\<lambda>(r', _). strtol_loop base b r')"
  by (induction a arbitrary: r) (auto simp: Let_def)

lemma number_digits_hex: "list_all (\<lambda>c. \<exists>d<16. hex_digit c = Some d) (number_digits hex_lower v)"
proof (induction v rule: less_induct)
  case (less v)
  then show ?case
    using hex_digit_lower[of v] hex_digit_lower[of "v mod 16"] number_digits_rec[of hex_lower v]
    by (cases "v < 16") (auto simp: hex_len)
qed

lemma strtol_digits: "v < 2 ^ 63 \<Longrightarrow> strtol_loop 16 (number_digits hex_lower v) 0 = Some (int v, [])"
proof (induction v rule: less_induct)
  case (less v)
  show ?case
  proof (cases "v < 16")
    case True
    with less.prems hex_digit_lower[of v] number_digits_rec[of hex_lower v] show ?thesis
      by (simp add: hex_len Let_def)
  next
    case False
    have ih: "strtol_loop 16 (number_digits hex_lower (v div 16)) 0 = Some (int (v div 16), [])"
      using False less.prems by (intro less.IH) auto
    have v: "int (v div 16) * 16 + int (v mod 16) = int v" by (simp add: zdiv_int zmod_int)
    have "number_digits hex_lower v = number_digits hex_lower (v div 16) @ [hex_lower ! (v mod 16)]"
      using False number_digits_rec[of hex_lower v] by (simp add: hex_len)
    then have "strtol_loop 16 (number_digits hex_lower v) 0 = strtol_loop 16 [hex_lower ! (v mod 16)] (int (v div 16))"
      by (simp only: strtol_loop_append[OF number_digits_hex] ih bind.bind_lunit prod.case)
    then show ?thesis using less.prems hex_digit_lower[of "v mod 16"] v by (simp add: Let_def)
  qed
qed

lemma number_first_char:
  "hd (number_digits decimal v) \<noteq> CHR '' ''" "hd (number_digits decimal v) \<noteq> CHR ''-''" "number_digits decimal v \<noteq> []"
  "hd (number_digits hex_lower v) \<noteq> CHR '' ''" "hd (number_digits hex_lower v) \<noteq> CHR ''-''" "number_digits hex_lower v \<noteq> []"
proof -
  have d: "number_digits decimal v \<noteq> []" "number_digits hex_lower v \<noteq> []"
    using number_digits_rec[of decimal v] number_digits_rec[of hex_lower v] by (auto simp: decimal_len hex_len split: if_splits)
  then show "number_digits decimal v \<noteq> []" "number_digits hex_lower v \<noteq> []" by blast+
  have "sage_isdigit (hd (number_digits decimal v))" "hex_digit (hd (number_digits hex_lower v)) \<noteq> None"
    using number_digits_isdigit[of v] number_digits_hex[of v] d by (auto simp: list_all_iff dest!: hd_in_set)
  moreover have "\<not> sage_isdigit CHR '' ''" "\<not> sage_isdigit CHR ''-''" "hex_digit CHR '' '' = None" "hex_digit CHR ''-'' = None"
    by code_simp+
  ultimately show "hd (number_digits decimal v) \<noteq> CHR '' ''" "hd (number_digits decimal v) \<noteq> CHR ''-''"
    "hd (number_digits hex_lower v) \<noteq> CHR '' ''" "hd (number_digits hex_lower v) \<noteq> CHR ''-''" by metis+
qed

lemma dropWhile_hd: "xs \<noteq> [] \<Longrightarrow> hd xs \<noteq> c \<Longrightarrow> dropWhile (\<lambda>x. x = c) xs = xs"
  by (cases xs) auto

lemma sage_atoi_number:
  "v < 2 ^ 31 \<Longrightarrow> sage_atoi ((if neg then ''-'' else []) @ number_digits decimal v) = Some (if neg then - int v else int v)"
  using number_first_char(1-3)[of v] by (simp add: sage_atoi_def dropWhile_hd atoi_digits Let_def)

lemma sage_strtol_number:
  assumes "v < 2 ^ 63"
  shows "sage_strtol (number_digits hex_lower v) 16 = Some (int v, [])"
proof -
  let ?s = "number_digits hex_lower v"
  have "\<not> (length ?s \<ge> 2 \<and> ?s ! 0 = CHR ''0'' \<and> (?s ! 1 = CHR ''x'' \<or> ?s ! 1 = CHR ''X''))"
  proof
    assume x: "length ?s \<ge> 2 \<and> ?s ! 0 = CHR ''0'' \<and> (?s ! 1 = CHR ''x'' \<or> ?s ! 1 = CHR ''X'')"
    then have "1 < length ?s" by simp
    then have "hex_digit (?s ! 1) \<noteq> None" using number_digits_hex[of v] unfolding list_all_length by blast
    moreover have "hex_digit CHR ''x'' = None" "hex_digit CHR ''X'' = None" by code_simp+
    ultimately show False using x by auto
  qed
  then show ?thesis
    using number_first_char(4-6)[of v] assms
    by (auto simp: sage_strtol_def strtol_base_def dropWhile_hd strtol_digits Let_def)
qed

lemma directive_simple:
  assumes "c \<in> {CHR ''d'', CHR ''x''}"
  shows "directive [c] args = map_option (\<lambda>(t, a). (t, [], a)) (convert c False 0 (-1) args)"
proof -
  have c: "c \<noteq> CHR ''0''" "c \<noteq> CHR ''*''" "c \<noteq> CHR ''.''" "\<not> sage_isdigit c" "\<not> is_modifier c"
    using assms by (auto simp: sage_isdigit_def is_modifier_def)
  then show ?thesis
    by (cases "convert c False 0 (-1) args")
      (auto simp: directive_def read_count_def read_precision_def digits_value_def Let_def)
qed

lemma formatted_simple:
  "c \<in> {CHR ''d'', CHR ''x''} \<Longrightarrow> formatted [CHR ''%'', c] args = map_option fst (convert c False 0 (-1) args)"
  by (cases "convert c False 0 (-1) args") (auto simp: directive_simple)

lemma number_digits_length:
  assumes "length ds > 1" "ds ! 0 = CHR ''0''"
  shows "v < length ds ^ Suc k \<Longrightarrow> length (number_digits ds v) \<le> Suc k"
proof (induction k arbitrary: v)
  case (Suc k)
  have "v div length ds < length ds ^ Suc k"
    using Suc.prems by (simp add: less_mult_imp_div_less mult.commute)
  from Suc.IH[OF this] show ?case using number_digits_rec[OF assms, of v] by (simp split: if_splits)
qed (use number_digits_rec[OF assms] in simp)

lemma sage_vsnprintf_fits:
  assumes "formatted fmt args = Some t" "length t < n" "n < 2 ^ 31"
  shows "sage_vsnprintf (Some n) fmt args = Some (Some t, int (length t))"
  using format_loop_formatted[of n fmt args "[]"] assms
  by (simp add: sage_vsnprintf_def signed_take_bit_int_eq_self)

text \<open>
  C35. Numbers survive printing and reading. The text that \<^verbatim>\<open>%d\<close> prints of an \<^verbatim>\<open>int\<close> other than the least is read
  back by \<^verbatim>\<open>sage_atoi\<close>, and what \<^verbatim>\<open>%x\<close> prints of an \<^verbatim>\<open>unsigned\<close> is read back, to its end, by \<^verbatim>\<open>sage_strtol\<close>
  in base 16.
\<close>
theorem printed_numbers_read_back:
  assumes "sint w \<noteq> - (2 ^ 31)"
  shows "(\<exists>t. sage_vsnprintf (Some 16) ''%d'' [VA_int w] = Some (Some t, int (length t)) \<and> sage_atoi t = Some (sint w)) \<and>
    (\<exists>t. sage_vsnprintf (Some 16) ''%x'' [VA_int w] = Some (Some t, int (length t)) \<and> sage_strtol t 16 = Some (uint w, []))"
proof -
  define v where "v = nat \<bar>sint w\<bar>"
  have w: "- (2 ^ 31) \<le> sint w" "sint w < 2 ^ 31" using sint_greater_eq[of w] sint_less[of w] by simp_all
  then have v: "v < 2 ^ 31" using assms by (simp add: v_def)
  let ?t = "(if sint w < 0 then ''-'' else []) @ number_digits decimal v"
  have "length ?t \<le> 11"
    using number_digits_length[of decimal v 9] v by (simp add: decimal_len)
  moreover have "formatted ''%d'' [VA_int w] = Some ?t"
    using formatted_simple[of "CHR ''d''"] by (simp add: convert_def number_text_def Let_def v_def)
  ultimately have d: "sage_vsnprintf (Some 16) ''%d'' [VA_int w] = Some (Some ?t, int (length ?t))"
    by (intro sage_vsnprintf_fits) (assumption | linarith | simp)+
  have "sage_atoi ?t = Some (sint w)" using sage_atoi_number[OF v, of "sint w < 0"] by (simp add: v_def)
  with d have d': "\<exists>t. sage_vsnprintf (Some 16) ''%d'' [VA_int w] = Some (Some t, int (length t)) \<and> sage_atoi t = Some (sint w)"
    by blast
  let ?u = "number_digits hex_lower (unat w)"
  have u: "unat w < 2 ^ 32" by (rule u32_bound)
  then have "length ?u \<le> 8" using number_digits_length[of hex_lower "unat w" 7] by (simp add: hex_len)
  moreover have "formatted ''%x'' [VA_int w] = Some ?u"
    using formatted_simple[of "CHR ''x''"] by (simp add: convert_def number_text_def Let_def)
  ultimately have "sage_vsnprintf (Some 16) ''%x'' [VA_int w] = Some (Some ?u, int (length ?u))"
    by (intro sage_vsnprintf_fits) (assumption | linarith | simp)+
  moreover have "sage_strtol ?u 16 = Some (uint w, [])" using sage_strtol_number[of "unat w"] u by simp
  ultimately show ?thesis using d' by blast
qed

theorem printed_numbers_read_back_witness:
  "\<exists>t. sage_vsnprintf (Some 16) ''%d'' [VA_int (- 305)] = Some (Some t, int (length t)) \<and> sage_atoi t = Some (- 305)"
  using printed_numbers_read_back[of "- 305"] by simp

end
