(* ===== verification/Sage_VFS.thy ===== *)
theory Sage_VFS
  imports Sage_Libc
begin

text \<open>
  The virtual file system of \<^verbatim>\<open>kernel/fs/vfs.c\<close> and \<^verbatim>\<open>kernel/include/vfs.h\<close>: path normalisation, the mount
  table, resolution of a path to a mount, and the operations that forward to a backend.

  A backend is a record of optional operations on a state of type \<open>'w\<close> that holds the devices (and the
  interpreter described next); an operation is \<open>None\<close> where it would not return. When the backend
  fails, an operation asks a program that runs in the Metal VM (\<^verbatim>\<open>vfs_bridge_bytecode.h\<close>, generated
  by the build); this program is a parameter, the record \<open>vfs_bridge\<close>, and \<open>mval\<close> is what it returns.
  A number of the VM stands for the integer its double truncates to.

  Shown: normalisation computes the canonical path (\<open>normalize_canonical\<close>) and is idempotent on paths that
  fit; resolution finds the longest mount point that is a prefix of the path in whole components
  and splits the path there; an operation that its backend answers returns just that
  answer; the recursive removal terminates.
\<close>

section \<open>Declarations\<close>

type_synonym VfsNodeType = int

definition VFS_FILE :: VfsNodeType where "VFS_FILE = 0"
definition VFS_DIRECTORY :: VfsNodeType where "VFS_DIRECTORY = 1"
definition VFS_OK :: int where "VFS_OK = 0"
definition VFS_ENOENT :: int where "VFS_ENOENT = -2"
definition VFS_EIO :: int where "VFS_EIO = -5"
definition VFS_EACCES :: int where "VFS_EACCES = -13"
definition VFS_EEXIST :: int where "VFS_EEXIST = -17"
definition VFS_ENOTDIR :: int where "VFS_ENOTDIR = -20"
definition VFS_EISDIR :: int where "VFS_EISDIR = -21"
definition VFS_EINVAL :: int where "VFS_EINVAL = -22"
definition VFS_ENOSPC :: int where "VFS_ENOSPC = -28"
definition VFS_EROFS :: int where "VFS_EROFS = -30"
definition VFS_MAX_MOUNTS :: nat where "VFS_MAX_MOUNTS = 8"
definition VFS_MAX_PATH :: nat where "VFS_MAX_PATH = 256"
definition VFS_NAME_MAX :: nat where "VFS_NAME_MAX = 64"
definition VFS_DIRENT_MAX :: nat where "VFS_DIRENT_MAX = 64"

record VfsStat =
  st_name :: string
  st_type :: VfsNodeType
  st_size :: u64
  st_mode :: u32

record VfsDirEntry =
  de_name :: string
  de_type :: VfsNodeType
  de_size :: u64

text \<open>An operation of a backend on the state of the devices.\<close>
type_synonym ('w, 'a) vfs_op = "'w \<Rightarrow> ('a \<times> 'w) option"

text \<open>
  The callbacks. \<^verbatim>\<open>stat\<close> and \<^verbatim>\<open>readdir\<close> take the caller's buffer and return it as they leave it; \<^verbatim>\<open>read\<close> returns
  an error or the bytes it put in the buffer.
\<close>
record 'w VfsBackend =
  be_name :: string
  be_stat :: "(string \<Rightarrow> VfsStat \<Rightarrow> ('w, int \<times> VfsStat) vfs_op) option"
  be_readdir :: "(string \<Rightarrow> VfsDirEntry list \<Rightarrow> nat \<Rightarrow> ('w, int \<times> VfsDirEntry list) vfs_op) option"
  be_read :: "(string \<Rightarrow> u64 \<Rightarrow> u64 \<Rightarrow> ('w, int + u8 list) vfs_op) option"
  be_write :: "(string \<Rightarrow> u64 \<Rightarrow> u8 list \<Rightarrow> ('w, int) vfs_op) option"
  be_mkdir :: "(string \<Rightarrow> ('w, int) vfs_op) option"
  be_create :: "(string \<Rightarrow> ('w, int) vfs_op) option"
  be_unlink :: "(string \<Rightarrow> ('w, int) vfs_op) option"

record 'w VfsMount =
  m_path :: string
  m_path_len :: nat
  m_backend :: "'w VfsBackend option"
  m_active :: bool

text \<open>Values of the VM. \<open>MV_PTR i\<close> points to the backend of mount \<open>i\<close>.\<close>
datatype mval = MV_NIL | MV_NUM int | MV_STR string | MV_DICT "(string \<times> mval) list" | MV_ARR "mval list" | MV_PTR nat

text \<open>
  The bridge program: loading and starting it, calling one of its functions, the VM's number for an
  integer, and resetting the pools of a state to what they were in an earlier one.
\<close>
record 'w vfs_bridge =
  br_load :: "('w, bool) vfs_op"
  br_call :: "string \<Rightarrow> mval list \<Rightarrow> ('w, mval) vfs_op"
  br_num :: "u64 \<Rightarrow> mval"
  br_restore :: "'w \<Rightarrow> 'w \<Rightarrow> 'w"

datatype vfs_event = TRACE_VFS_MOUNT string | TRACE_VFS_READ u64 u64 | TRACE_VFS_WRITE u64 u64

record 'w vfs =
  g_mounts :: "'w VfsMount list"
  g_mount_count :: nat
  g_vfs_vm_inited :: bool
  g_in_vfs_vm :: bool
  world :: 'w
  vfs_emitted :: "vfs_event list"

section \<open>Strings and paths\<close>

definition vfs_strncmp :: "string \<Rightarrow> string \<Rightarrow> nat \<Rightarrow> int" where
  "vfs_strncmp a b n = sage_strncmp a b n"

definition vfs_strcmp :: "string \<Rightarrow> string \<Rightarrow> int" where
  "vfs_strcmp a b = sage_strcmp a b"

text \<open>What the loop of \<^verbatim>\<open>vfs_normalize_path\<close> does with one component.\<close>
definition push_part :: "string \<Rightarrow> string list \<Rightarrow> string list" where
  "push_part part parts =
    (if part = ''.'' then parts
     else if part = ''..'' then butlast parts
     else if length parts < 32 then parts @ [part]
     else parts)"

function split_parts :: "string \<Rightarrow> string list \<Rightarrow> string list" where
  "split_parts p parts =
    (let p1 = dropWhile (\<lambda>c. c = CHR ''/'') p in
     if p1 = [] then parts
     else split_parts (dropWhile (\<lambda>c. c \<noteq> CHR ''/'') p1) (push_part (takeWhile (\<lambda>c. c \<noteq> CHR ''/'') p1) parts))"
  by pat_completeness auto
termination
proof (relation "measure (\<lambda>(p, parts). length p)")
  fix p :: string and parts :: "string list" and p1
  assume p1: "p1 = dropWhile (\<lambda>c. c = CHR ''/'') p" "p1 \<noteq> []"
  obtain c rest where c: "p1 = c # rest" using p1(2) by (cases p1) auto
  have "c \<noteq> CHR ''/''" using c p1(1) by (simp add: dropWhile_eq_Cons_conv)
  then have "length (dropWhile (\<lambda>c. c \<noteq> CHR ''/'') p1) < length p1"
    using length_dropWhile_le[of "\<lambda>c. c \<noteq> CHR ''/''" rest] c by simp
  also have "length p1 \<le> length p" unfolding p1(1) by (rule length_dropWhile_le)
  finally show "((dropWhile (\<lambda>c. c \<noteq> CHR ''/'') p1, push_part (takeWhile (\<lambda>c. c \<noteq> CHR ''/'') p1) parts), p, parts)
      \<in> measure (\<lambda>(p, parts). length p)" by simp
qed simp

declare split_parts.simps [simp del]

text \<open>\<^verbatim>\<open>if (pos < output_size - 1) output[pos++] = c\<close>.\<close>
definition put_bounded :: "nat \<Rightarrow> char \<Rightarrow> string \<Rightarrow> string" where
  "put_bounded n c out = (if length out < n - 1 then out @ [c] else out)"

definition rebuild :: "nat \<Rightarrow> string list \<Rightarrow> string" where
  "rebuild n parts = fold (\<lambda>part out. fold (put_bounded n) part (put_bounded n (CHR ''/'') out)) parts []"

text \<open>
  The length returned and the path written; \<open>None\<close> for a buffer too small to hold a path.
\<close>
definition vfs_normalize_path :: "string \<Rightarrow> nat \<Rightarrow> (nat \<times> string) option" where
  "vfs_normalize_path input n =
    (let parts = split_parts input [] in
     if parts = [] then (if n \<ge> 2 then Some (1, ''/'') else None)
     else if n = 0 then None
     else let out = rebuild n parts in Some (length out, out))"

definition norm_path :: "string \<Rightarrow> string option" where
  "norm_path path = map_option snd (vfs_normalize_path path VFS_MAX_PATH)"

section \<open>Mounts\<close>

text \<open>Mounting a path and a backend; \<open>None\<close> is a null pointer.\<close>
definition vfs_mount :: "'w vfs_bridge \<Rightarrow> string option \<Rightarrow> 'w VfsBackend option \<Rightarrow> 'w vfs \<Rightarrow> (int \<times> 'w vfs) option" where
  "vfs_mount br mount_path backend s =
    (if g_mount_count s \<ge> VFS_MAX_MOUNTS then Some (VFS_ENOSPC, s)
     else case (mount_path, backend) of
         (Some p, Some b) \<Rightarrow>
           (let i = g_mount_count s;
                s1 = s\<lparr>g_mounts := (g_mounts s)[i := \<lparr>m_path = p, m_path_len = length p, m_backend = Some b, m_active = True\<rparr>],
                       g_mount_count := i + 1, vfs_emitted := vfs_emitted s @ [TRACE_VFS_MOUNT p]\<rparr>
            in if g_vfs_vm_inited s1
               then map_option (\<lambda>(_, w). (VFS_OK, s1\<lparr>world := w\<rparr>)) (br_call br ''vfs_mount'' [MV_STR p, MV_PTR i] (world s1))
               else Some (VFS_OK, s1))
       | _ \<Rightarrow> Some (VFS_EINVAL, s))"

definition vfs_get_mount_info :: "int \<Rightarrow> 'w vfs \<Rightarrow> int + string \<times> string" where
  "vfs_get_mount_info index s =
    (if index < 0 \<or> index \<ge> int (g_mount_count s) \<or> \<not> m_active (g_mounts s ! nat index) then Inl VFS_ENOENT
     else let m = g_mounts s ! nat index in
       Inr (take (VFS_MAX_PATH - 1) (m_path m), take 31 (case m_backend m of None \<Rightarrow> [] | Some b \<Rightarrow> be_name b)))"

definition vfs_umount :: "string \<Rightarrow> 'w vfs \<Rightarrow> int \<times> 'w vfs" where
  "vfs_umount mount_path s =
    (case first_index (\<lambda>m. m_active m \<and> length mount_path = m_path_len m \<and>
            vfs_strncmp mount_path (m_path m) (m_path_len m) = 0) (take (g_mount_count s) (g_mounts s)) of
       None \<Rightarrow> (VFS_ENOENT, s)
     | Some i \<Rightarrow> (VFS_OK, s\<lparr>g_mounts := (g_mounts s)[i := (g_mounts s ! i)\<lparr>m_active := False\<rparr>]\<rparr>))"

definition is_root_mount :: "'w VfsMount \<Rightarrow> bool" where
  "is_root_mount m \<longleftrightarrow> m_path_len m = 1 \<and> hd (m_path m) = CHR ''/''"

text \<open>Whether mount \<open>m\<close> covers a path, and the loop that keeps the longest mount that does.\<close>
definition mount_matches :: "string \<Rightarrow> 'w VfsMount \<Rightarrow> bool" where
  "mount_matches norm m \<longleftrightarrow>
    is_root_mount m \<or>
    length norm \<ge> m_path_len m \<and> vfs_strncmp norm (m_path m) (m_path_len m) = 0 \<and>
      (length norm = m_path_len m \<or> norm ! m_path_len m = CHR ''/'')"

fun best_mount :: "string \<Rightarrow> 'w VfsMount list \<Rightarrow> nat list \<Rightarrow> nat option \<times> int \<Rightarrow> nat option \<times> int" where
  "best_mount norm ms [] best = best"
| "best_mount norm ms (i # is) (best, best_len) =
    (let m = ms ! i in
     if m_active m \<and> mount_matches norm m \<and> int (m_path_len m) > best_len
     then best_mount norm ms is (Some i, int (m_path_len m))
     else best_mount norm ms is (best, best_len))"

definition rel_path :: "string \<Rightarrow> 'w VfsMount \<Rightarrow> string" where
  "rel_path norm m =
    (if is_root_mount m then norm
     else if length norm = m_path_len m then ''/''
     else drop (m_path_len m) norm)"

definition resolve_mount :: "string \<Rightarrow> 'w vfs \<Rightarrow> ('w VfsMount \<times> string) option" where
  "resolve_mount norm s =
    (case fst (best_mount norm (g_mounts s) [0..<g_mount_count s] (None, -1)) of
       None \<Rightarrow> None
     | Some i \<Rightarrow> Some (g_mounts s ! i, rel_path norm (g_mounts s ! i)))"

section \<open>Operations\<close>

text \<open>The backend operation at the mount that a path resolves to, with the path relative to it.\<close>
definition lookup_op :: "('w VfsBackend \<Rightarrow> 'f option) \<Rightarrow> string \<Rightarrow> 'w vfs \<Rightarrow> ('f \<times> string) option" where
  "lookup_op op norm s = do {
     (m, rel) \<leftarrow> resolve_mount norm s;
     b \<leftarrow> m_backend m;
     f \<leftarrow> op b;
     Some (f, rel)
   }"

definition use_bridge :: "'w vfs \<Rightarrow> bool" where
  "use_bridge s \<longleftrightarrow> g_vfs_vm_inited s \<and> \<not> g_in_vfs_vm s"

definition dict_get :: "mval \<Rightarrow> string \<Rightarrow> mval" where
  "dict_get d k = (case d of MV_DICT kvs \<Rightarrow> (case map_of kvs k of None \<Rightarrow> MV_NIL | Some v \<Rightarrow> v) | _ \<Rightarrow> MV_NIL)"

definition array_get :: "mval \<Rightarrow> nat \<Rightarrow> mval" where
  "array_get a i = (case a of MV_ARR vs \<Rightarrow> if i < length vs then vs ! i else MV_NIL | _ \<Rightarrow> MV_NIL)"

text \<open>A call of the bridge, after which the pools of the VM are as they were before.\<close>
definition bridge_call :: "'w vfs_bridge \<Rightarrow> string \<Rightarrow> mval list \<Rightarrow> 'w vfs \<Rightarrow> (mval \<times> 'w vfs) option" where
  "bridge_call br f args s =
    map_option (\<lambda>(v, w). (v, s\<lparr>world := br_restore br (world s) w\<rparr>)) (br_call br f args (world s))"

text \<open>A call of the bridge that leaves the pools as the call left them.\<close>
definition bridge_call_keep :: "'w vfs_bridge \<Rightarrow> string \<Rightarrow> mval list \<Rightarrow> 'w vfs \<Rightarrow> (mval \<times> 'w vfs) option" where
  "bridge_call_keep br f args s = map_option (\<lambda>(v, w). (v, s\<lparr>world := w\<rparr>)) (br_call br f args (world s))"

definition copy_name :: "mval \<Rightarrow> string \<Rightarrow> string" where
  "copy_name v old = (case v of MV_STR t \<Rightarrow> take (VFS_NAME_MAX - 1) t | _ \<Rightarrow> old)"

definition copy_type :: "mval \<Rightarrow> VfsNodeType \<Rightarrow> VfsNodeType" where
  "copy_type v old = (case v of MV_NUM n \<Rightarrow> n | _ \<Rightarrow> old)"

definition copy_size :: "mval \<Rightarrow> u64 \<Rightarrow> u64" where
  "copy_size v old = (case v of MV_NUM n \<Rightarrow> of_int n | _ \<Rightarrow> old)"

definition is_num :: "mval \<Rightarrow> bool" where
  "is_num v \<longleftrightarrow> (case v of MV_NUM _ \<Rightarrow> True | _ \<Rightarrow> False)"

text \<open>The bridge's answer to \<^verbatim>\<open>vfs_stat\<close>: whether it is one, and the buffer.\<close>
definition bridge_stat :: "mval \<Rightarrow> VfsStat \<Rightarrow> bool \<times> VfsStat" where
  "bridge_stat v out =
    (case v of
       MV_DICT _ \<Rightarrow>
         (let out1 = out\<lparr>st_name := copy_name (dict_get v ''name'') (st_name out)\<rparr> in
          if is_num (dict_get v ''type'')
          then (True, out1\<lparr>st_type := copy_type (dict_get v ''type'') (st_type out),
                  st_size := copy_size (dict_get v ''size'') (st_size out)\<rparr>)
          else (False, out1))
     | _ \<Rightarrow> (False, out))"

definition vfs_stat :: "'w vfs_bridge \<Rightarrow> string \<Rightarrow> VfsStat \<Rightarrow> 'w vfs \<Rightarrow> ((int \<times> VfsStat) \<times> 'w vfs) option" where
  "vfs_stat br path out s = do {
     norm \<leftarrow> norm_path path;
     let f = lookup_op be_stat norm s;
     ((res, out1), s1) \<leftarrow> (case f of
         None \<Rightarrow> Some ((VFS_ENOENT, out), s)
       | Some (st, rel) \<Rightarrow> map_option (\<lambda>(r, w). (r, s\<lparr>world := w\<rparr>)) (st rel out (world s)));
     if res = VFS_OK then Some ((VFS_OK, out1), s1)
     else do {
       ((ok, out2), s2) \<leftarrow>
         (if use_bridge s1 then map_option (\<lambda>(v, s'). (bridge_stat v out1, s')) (bridge_call br ''vfs_stat'' [MV_STR path] s1)
          else Some ((False, out1), s1));
       if ok then Some ((VFS_OK, out2), s2)
       else case f of
           None \<Rightarrow> Some ((VFS_ENOENT, out2), s2)
         | Some (st, rel) \<Rightarrow> map_option (\<lambda>(r, w). (r, s2\<lparr>world := w\<rparr>)) (st rel out2 (world s2))
     }
   }"

text \<open>The entries that the bridge's array fills in.\<close>
definition bridge_entry :: "mval \<Rightarrow> VfsDirEntry \<Rightarrow> VfsDirEntry" where
  "bridge_entry v e =
    (case v of
       MV_DICT _ \<Rightarrow> \<lparr>de_name = copy_name (dict_get v ''name'') (de_name e), de_type = copy_type (dict_get v ''type'') (de_type e),
                     de_size = copy_size (dict_get v ''size'') (de_size e)\<rparr>
     | _ \<Rightarrow> e)"

definition bridge_readdir :: "mval \<Rightarrow> VfsDirEntry list \<Rightarrow> nat \<Rightarrow> (int \<times> VfsDirEntry list) option" where
  "bridge_readdir v entries max_entries =
    (case v of
       MV_ARR vs \<Rightarrow>
         (let count = min (length vs) max_entries in
          Some (int count, map2 bridge_entry (take count vs) (take count entries) @ drop count entries))
     | _ \<Rightarrow> None)"

definition dir_entry :: "string \<Rightarrow> VfsDirEntry" where
  "dir_entry nm = \<lparr>de_name = nm, de_type = VFS_DIRECTORY, de_size = 0\<rparr>"

text \<open>One round of the loop over the mounts in the listing of the root directory.\<close>
definition list_mount :: "nat \<Rightarrow> 'w VfsMount \<Rightarrow> VfsDirEntry list \<Rightarrow> VfsDirEntry list option" where
  "list_mount max_entries m listed =
    (if length listed \<ge> max_entries \<or> \<not> m_active m then Some listed
     else
       let p = (if m_path m \<noteq> [] \<and> hd (m_path m) = CHR ''/'' then tl (m_path m) else m_path m);
           len = length (takeWhile (\<lambda>c. c \<noteq> CHR ''/'') p)
       in if len = 0 then Some listed
          else if list_ex (\<lambda>e. vfs_strncmp (de_name e) p len = 0 \<and> length (de_name e) = len) listed then Some listed
          else if len \<ge> VFS_NAME_MAX then None
          else Some (listed @ [dir_entry (take len p)]))"

fun list_mounts :: "nat \<Rightarrow> 'w VfsMount list \<Rightarrow> VfsDirEntry list \<Rightarrow> VfsDirEntry list option" where
  "list_mounts max_entries [] listed = Some listed"
| "list_mounts max_entries (m # ms) listed = do { l \<leftarrow> list_mount max_entries m listed; list_mounts max_entries ms l }"

definition root_listing :: "nat \<Rightarrow> 'w vfs \<Rightarrow> VfsDirEntry list option" where
  "root_listing max_entries s =
    list_mounts max_entries (take (g_mount_count s) (g_mounts s))
      (take max_entries (map dir_entry [''dev'', ''tmp'', ''etc'', ''bin'']))"

definition vfs_readdir :: "'w vfs_bridge \<Rightarrow> string \<Rightarrow> VfsDirEntry list \<Rightarrow> nat \<Rightarrow> 'w vfs \<Rightarrow>
    ((int \<times> VfsDirEntry list) \<times> 'w vfs) option" where
  "vfs_readdir br path entries max_entries s = do {
     norm \<leftarrow> norm_path path;
     let f = lookup_op be_readdir norm s;
     ((res, es1), s1) \<leftarrow> (case f of
         None \<Rightarrow> Some ((VFS_ENOENT, entries), s)
       | Some (rd, rel) \<Rightarrow> map_option (\<lambda>(r, w). (r, s\<lparr>world := w\<rparr>)) (rd rel entries max_entries (world s)));
     if res \<ge> 0 then Some ((res, es1), s1)
     else do {
       (answer, s2) \<leftarrow>
         (if use_bridge s1
          then map_option (\<lambda>(v, s'). (bridge_readdir v es1 max_entries, s')) (bridge_call br ''vfs_readdir'' [MV_STR path] s1)
          else Some (None, s1));
       case answer of
         Some r \<Rightarrow> Some (r, s2)
       | None \<Rightarrow>
           if norm = ''/'' then map_option (\<lambda>l. ((int (length l), l @ drop (length l) es1), s2)) (root_listing max_entries s2)
           else case lookup_op be_readdir norm s2 of
               None \<Rightarrow> Some ((VFS_ENOENT, es1), s2)
             | Some (rd, rel) \<Rightarrow> map_option (\<lambda>(r, w). (r, s2\<lparr>world := w\<rparr>)) (rd rel es1 max_entries (world s2))
     }
   }"

text \<open>
  The bytes that the bridge's answer to \<^verbatim>\<open>vfs_read\<close> puts in a buffer of \<open>n\<close> bytes; copying more than the
  string holds is a fault.
\<close>
definition bridge_read :: "mval \<Rightarrow> u64 \<Rightarrow> (u8 list option) option" where
  "bridge_read v n =
    (case (v, array_get v 0, array_get v 1) of
       (MV_ARR _, MV_STR data, MV_NUM k) \<Rightarrow>
         (let size = sint (ucast n :: u32); len = (if k > size then size else k) in
          if 0 \<le> len \<and> nat len \<le> length data then Some (Some (map of_char (take (nat len) data))) else None)
     | _ \<Rightarrow> Some None)"

definition vfs_read :: "'w vfs_bridge \<Rightarrow> string \<Rightarrow> u64 \<Rightarrow> u64 \<Rightarrow> 'w vfs \<Rightarrow> ((int + u8 list) \<times> 'w vfs) option" where
  "vfs_read br path offset n s0 = do {
     let s = s0\<lparr>vfs_emitted := vfs_emitted s0 @ [TRACE_VFS_READ offset n]\<rparr>;
     norm \<leftarrow> norm_path path;
     let f = lookup_op be_read norm s;
     (res, s1) \<leftarrow> (case f of
         None \<Rightarrow> Some (Inl VFS_ENOENT, s)
       | Some (rd, rel) \<Rightarrow> map_option (\<lambda>(r, w). (r, s\<lparr>world := w\<rparr>)) (rd rel offset n (world s)));
     case res of
       Inr bs \<Rightarrow> Some (Inr bs, s1)
     | Inl _ \<Rightarrow> do {
         (answer, s2) \<leftarrow>
           (if use_bridge s1
            then do {
              (v, s') \<leftarrow> bridge_call br ''vfs_read'' [MV_STR path, br_num br offset, br_num br n] s1;
              a \<leftarrow> bridge_read v n;
              Some (a, s')
            }
            else Some (None, s1));
         case answer of
           Some bs \<Rightarrow> Some (Inr bs, s2)
         | None \<Rightarrow>
             case f of
               None \<Rightarrow> Some (Inl VFS_ENOENT, s2)
             | Some (rd, rel) \<Rightarrow> map_option (\<lambda>(r, w). (r, s2\<lparr>world := w\<rparr>)) (rd rel offset n (world s2))
       }
   }"

text \<open>The integer that the bridge returned, -1 when it returned something else.\<close>
definition bridge_code :: "mval \<Rightarrow> int" where
  "bridge_code v = (case v of MV_NUM n \<Rightarrow> n | _ \<Rightarrow> -1)"

definition vfs_write :: "'w vfs_bridge \<Rightarrow> string \<Rightarrow> u64 \<Rightarrow> u8 list \<Rightarrow> 'w vfs \<Rightarrow> (int \<times> 'w vfs) option" where
  "vfs_write br path offset data s0 = do {
     let n = (of_nat (length data) :: u64);
     let s = s0\<lparr>vfs_emitted := vfs_emitted s0 @ [TRACE_VFS_WRITE offset n]\<rparr>;
     norm \<leftarrow> norm_path path;
     let f = lookup_op be_write norm s;
     (res, s1) \<leftarrow> (case f of
         None \<Rightarrow> Some (-1, s)
       | Some (wr, rel) \<Rightarrow> map_option (\<lambda>(r, w). (r, s\<lparr>world := w\<rparr>)) (wr rel offset data (world s)));
     if res \<ge> 0 then Some (res, s1)
     else do {
       (r, s2) \<leftarrow>
         (if use_bridge s1
          then map_option (\<lambda>(v, s'). (bridge_code v, s')) (bridge_call_keep br ''vfs_write''
                 [MV_STR path, br_num br offset, MV_STR (map (\<lambda>b. char_of (unat b)) data), br_num br n] s1)
          else Some (-1, s1));
       if r \<ge> 0 then Some (r, s2)
       else case f of
           None \<Rightarrow> Some (VFS_ENOENT, s2)
         | Some (wr, rel) \<Rightarrow> map_option (\<lambda>(r, w). (r, s2\<lparr>world := w\<rparr>)) (wr rel offset data (world s2))
     }
   }"

text \<open>The common text of \<^verbatim>\<open>vfs_mkdir\<close>, \<^verbatim>\<open>vfs_create\<close> and \<^verbatim>\<open>vfs_unlink\<close>.\<close>
definition path_op :: "('w VfsBackend \<Rightarrow> (string \<Rightarrow> ('w, int) vfs_op) option) \<Rightarrow> string \<Rightarrow>
    'w vfs_bridge \<Rightarrow> string \<Rightarrow> 'w vfs \<Rightarrow> (int \<times> 'w vfs) option" where
  "path_op op bridge_name br path s = do {
     norm \<leftarrow> norm_path path;
     let f = lookup_op op norm s;
     (res, s1) \<leftarrow> (case f of
         None \<Rightarrow> Some (VFS_ENOENT, s)
       | Some (g, rel) \<Rightarrow> map_option (\<lambda>(r, w). (r, s\<lparr>world := w\<rparr>)) (g rel (world s)));
     if res = VFS_OK then Some (VFS_OK, s1)
     else do {
       (r, s2) \<leftarrow>
         (if use_bridge s1
          then map_option (\<lambda>(v, s'). (bridge_code v, s')) (bridge_call_keep br bridge_name [MV_STR path] s1)
          else Some (-1, s1));
       if r = VFS_OK then Some (VFS_OK, s2)
       else case f of
           None \<Rightarrow> Some (VFS_ENOENT, s2)
         | Some (g, rel) \<Rightarrow> map_option (\<lambda>(r, w). (r, s2\<lparr>world := w\<rparr>)) (g rel (world s2))
     }
   }"

definition vfs_mkdir :: "'w vfs_bridge \<Rightarrow> string \<Rightarrow> 'w vfs \<Rightarrow> (int \<times> 'w vfs) option" where
  "vfs_mkdir = path_op be_mkdir ''vfs_mkdir''"

definition vfs_create :: "'w vfs_bridge \<Rightarrow> string \<Rightarrow> 'w vfs \<Rightarrow> (int \<times> 'w vfs) option" where
  "vfs_create = path_op be_create ''vfs_create''"

definition vfs_unlink :: "'w vfs_bridge \<Rightarrow> string \<Rightarrow> 'w vfs \<Rightarrow> (int \<times> 'w vfs) option" where
  "vfs_unlink = path_op be_unlink ''vfs_unlink''"

text \<open>
  \<^verbatim>\<open>vfs_rm_rf\<close>. The two forms of work are a call of the function and the rest of its loop over the entries of a
  directory. The buffers are the uninitialised locals of the function, given as arguments.
\<close>
datatype rm_work = Rm string | Rm_entries string "VfsDirEntry list"

definition child_path :: "string \<Rightarrow> string \<Rightarrow> string" where
  "child_path path nm = (if path \<noteq> [] \<and> last path = CHR ''/'' then path @ nm else path @ ''/'' @ nm)"

partial_function (option) rm_rf_loop ::
  "'w vfs_bridge \<Rightarrow> VfsStat \<Rightarrow> VfsDirEntry list \<Rightarrow> rm_work \<Rightarrow> 'w vfs \<Rightarrow> (int \<times> 'w vfs) option" where
  "rm_rf_loop br st0 es0 work s =
    (case work of
       Rm path \<Rightarrow> do {
         ((res, st), s1) \<leftarrow> vfs_stat br path st0 s;
         if res \<noteq> VFS_OK then Some (res, s1)
         else if st_type st = VFS_DIRECTORY then do {
           ((count, es), s2) \<leftarrow> vfs_readdir br path es0 VFS_DIRENT_MAX s1;
           if count < 0 then Some (count, s2) else rm_rf_loop br st0 es0 (Rm_entries path (take (nat count) es)) s2
         }
         else vfs_unlink br path s1
       }
     | Rm_entries path [] \<Rightarrow> vfs_unlink br path s
     | Rm_entries path (e # es) \<Rightarrow>
         if vfs_strcmp (de_name e) ''.'' = 0 \<or> vfs_strcmp (de_name e) ''..'' = 0 \<or>
           length path + 1 + length (de_name e) \<ge> VFS_MAX_PATH
         then rm_rf_loop br st0 es0 (Rm_entries path es) s
         else do {
           (res, s1) \<leftarrow> rm_rf_loop br st0 es0 (Rm (child_path path (de_name e))) s;
           if res \<noteq> VFS_OK then Some (res, s1) else rm_rf_loop br st0 es0 (Rm_entries path es) s1
         })"

definition vfs_rm_rf :: "'w vfs_bridge \<Rightarrow> VfsStat \<Rightarrow> VfsDirEntry list \<Rightarrow> string \<Rightarrow> 'w vfs \<Rightarrow> (int \<times> 'w vfs) option" where
  "vfs_rm_rf br st0 es0 path s = rm_rf_loop br st0 es0 (Rm path) s"

definition vfs_strerror :: "int \<Rightarrow> string" where
  "vfs_strerror err =
    (if err = VFS_OK then ''OK'' else if err = VFS_ENOENT then ''No such file or directory''
     else if err = VFS_EIO then ''I/O error'' else if err = VFS_EACCES then ''Permission denied''
     else if err = VFS_EEXIST then ''File exists'' else if err = VFS_ENOTDIR then ''Not a directory''
     else if err = VFS_EISDIR then ''Is a directory'' else if err = VFS_ENOSPC then ''No space left on device''
     else if err = VFS_EROFS then ''Read-only file system'' else if err = VFS_EINVAL then ''Invalid argument''
     else ''Unknown error'')"

text \<open>A file of the table that the build embeds: its data.\<close>
definition vfs_get_embedded_data :: "(string \<times> u8 list) list \<Rightarrow> string \<Rightarrow> u8 list option" where
  "vfs_get_embedded_data files path = map_option snd (find (\<lambda>f. sage_strcmp (fst f) path = 0) files)"

definition vfs_bridge_init :: "'w vfs_bridge \<Rightarrow> 'w vfs \<Rightarrow> 'w vfs option" where
  "vfs_bridge_init br s =
    (if g_vfs_vm_inited s then Some s
     else map_option (\<lambda>(ok, w). s\<lparr>world := w, g_vfs_vm_inited := ok\<rparr>) (br_load br (world s)))"

definition vfs_init :: "'w vfs_bridge \<Rightarrow> 'w vfs \<Rightarrow> 'w vfs option" where
  "vfs_init br s = vfs_bridge_init br (s\<lparr>g_mount_count := 0, g_mounts := map (m_active_update (\<lambda>_. False)) (g_mounts s)\<rparr>)"

section \<open>Canonical paths\<close>

fun split_on :: "char \<Rightarrow> string \<Rightarrow> string list" where
  "split_on c [] = [[]]"
| "split_on c (x # xs) = (if x = c then [] # split_on c xs else (x # hd (split_on c xs)) # tl (split_on c xs))"

text \<open>The components of a path, and what they denote: \<^verbatim>\<open>.\<close> stays and \<^verbatim>\<open>..\<close> goes up.\<close>
definition components :: "string \<Rightarrow> string list" where
  "components p = filter (\<lambda>q. q \<noteq> []) (split_on (CHR ''/'') p)"

definition resolve_part :: "string list \<Rightarrow> string \<Rightarrow> string list" where
  "resolve_part st q = (if q = ''.'' then st else if q = ''..'' then butlast st else st @ [q])"

definition resolve_parts :: "string list \<Rightarrow> string list" where
  "resolve_parts qs = foldl resolve_part [] qs"

definition slashed :: "string list \<Rightarrow> string" where
  "slashed ps = concat (map ((#) (CHR ''/'')) ps)"

definition path_text :: "string list \<Rightarrow> string" where
  "path_text ps = (if ps = [] then ''/'' else slashed ps)"

definition proper :: "string \<Rightarrow> bool" where
  "proper q \<longleftrightarrow> q \<noteq> [] \<and> q \<noteq> ''.'' \<and> q \<noteq> ''..'' \<and> CHR ''/'' \<notin> set q"

lemma split_on_nonempty [simp]: "split_on c p \<noteq> []"
  by (cases p) auto

lemma components_slash [simp]: "components (CHR ''/'' # p) = components p"
  by (simp add: components_def)

lemma components_Nil [simp]: "components [] = []"
  by (simp add: components_def)

lemma split_on_append:
  "c \<notin> set q \<Longrightarrow> split_on c (q @ p) = (q @ hd (split_on c p)) # tl (split_on c p)"
  by (induction q) auto

lemma components_append:
  assumes "CHR ''/'' \<notin> set q" "q \<noteq> []" "p = [] \<or> hd p = CHR ''/''"
  shows "components (q @ p) = q # components p"
proof (cases p)
  case Nil
  have "split_on (CHR ''/'') (q @ []) = [q]" using split_on_append[OF assms(1), of "[]"] by simp
  with Nil assms(2) show ?thesis by (simp add: components_def)
next
  case (Cons c p')
  have "split_on (CHR ''/'') (q @ p) = q # split_on (CHR ''/'') p'"
    using split_on_append[OF assms(1), of p] assms(3) Cons by simp
  with Cons assms(2,3) show ?thesis by (simp add: components_def)
qed

lemma components_dropWhile: "components (dropWhile (\<lambda>c. c = CHR ''/'') p) = components p"
  by (induction p) auto

lemma components_takeWhile:
  assumes "p \<noteq> []" "hd p \<noteq> CHR ''/''"
  shows "components p = takeWhile (\<lambda>c. c \<noteq> CHR ''/'') p # components (dropWhile (\<lambda>c. c \<noteq> CHR ''/'') p)"
proof -
  let ?q = "takeWhile (\<lambda>c. c \<noteq> CHR ''/'') p" and ?r = "dropWhile (\<lambda>c. c \<noteq> CHR ''/'') p"
  have "?r = [] \<or> hd ?r = CHR ''/''" using hd_dropWhile[of "\<lambda>c. c \<noteq> CHR ''/''" p] by (cases "?r = []") simp_all
  moreover have "?q \<noteq> []" using assms by (cases p) simp_all
  moreover have "CHR ''/'' \<notin> set ?q" by (auto dest: set_takeWhileD)
  ultimately have "components (?q @ ?r) = ?q # components ?r" by (intro components_append)
  then show ?thesis by (simp only: takeWhile_dropWhile_id)
qed

lemma split_parts_components:
  "split_parts p parts = foldl (\<lambda>st q. push_part q st) parts (components p)"
proof (induction p parts rule: split_parts.induct)
  case (1 p parts)
  let ?p1 = "dropWhile (\<lambda>c. c = CHR ''/'') p"
  show ?case
  proof (cases "?p1 = []")
    case True
    have "components p = components ?p1" by (rule components_dropWhile[symmetric])
    also have "\<dots> = []" unfolding True by simp
    finally show ?thesis using True by (subst split_parts.simps) (simp only: Let_def simp_thms if_True foldl_Nil)
  next
    case False
    have "hd ?p1 \<noteq> CHR ''/''" using hd_dropWhile[OF False] by simp
    then have "components p = takeWhile (\<lambda>c. c \<noteq> CHR ''/'') ?p1 # components (dropWhile (\<lambda>c. c \<noteq> CHR ''/'') ?p1)"
      using components_takeWhile[OF False] components_dropWhile[of p] by simp
    with 1[OF refl False] False show ?thesis
      by (subst split_parts.simps) (simp only: Let_def simp_thms if_False foldl_Cons)
  qed
qed

lemma push_part_resolve:
  "length st + length (filter (\<lambda>q. q \<noteq> ''.'' \<and> q \<noteq> ''..'') qs) \<le> 32 \<Longrightarrow>
    foldl (\<lambda>st q. push_part q st) st qs = foldl resolve_part st qs"
proof (induction qs arbitrary: st)
  case (Cons q qs)
  show ?case
  proof (cases "q = ''.'' \<or> q = ''..''")
    case True
    with Cons show ?thesis by (auto simp: push_part_def resolve_part_def)
  next
    case False
    with Cons show ?thesis by (simp add: push_part_def resolve_part_def)
  qed
qed simp

lemma put_bounded_all: "fold (put_bounded n) cs (take (n - 1) t) = take (n - 1) (t @ cs)"
proof (induction cs arbitrary: t)
  case (Cons c cs)
  have "put_bounded n c (take (n - 1) t) = take (n - 1) (t @ [c])" by (simp add: put_bounded_def)
  with Cons[of "t @ [c]"] show ?case by simp
qed simp

lemma rebuild_take: "rebuild n parts = take (n - 1) (slashed parts)"
proof -
  have "fold (\<lambda>part out. fold (put_bounded n) part (put_bounded n (CHR ''/'') out)) parts (take (n - 1) t) =
      take (n - 1) (t @ slashed parts)" for t
  proof (induction parts arbitrary: t)
    case (Cons q parts)
    have "put_bounded n (CHR ''/'') (take (n - 1) t) = take (n - 1) (t @ ''/'')"
      using put_bounded_all[of n "''/''" t] by simp
    then show ?case using Cons[of "t @ ''/'' @ q"] put_bounded_all[of n q "t @ ''/''"] by (simp add: slashed_def)
  qed (simp add: slashed_def)
  from this[of "[]"] show ?thesis by (simp add: rebuild_def)
qed

lemma components_parts: "q \<in> set (components p) \<Longrightarrow> q \<noteq> [] \<and> CHR ''/'' \<notin> set q"
proof -
  have "CHR ''/'' \<notin> set q" if "q \<in> set (split_on (CHR ''/'') p)" for q
    using that
  proof (induction p arbitrary: q)
    case (Cons x p)
    have "hd (split_on (CHR ''/'') p) \<in> set (split_on (CHR ''/'') p)" by simp
    with Cons show ?case by (auto split: if_splits dest: list.set_sel(2)[OF split_on_nonempty])
  qed simp
  then show "q \<in> set (components p) \<Longrightarrow> q \<noteq> [] \<and> CHR ''/'' \<notin> set q" by (auto simp: components_def)
qed

lemma resolve_proper:
  "list_all proper st \<Longrightarrow> (\<And>q. q \<in> set qs \<Longrightarrow> q \<noteq> [] \<and> CHR ''/'' \<notin> set q) \<Longrightarrow> list_all proper (foldl resolve_part st qs)"
proof (induction qs arbitrary: st)
  case (Cons q qs)
  have "list_all proper (resolve_part st q)"
    using Cons.prems by (auto simp: resolve_part_def proper_def list_all_iff dest: in_set_butlastD)
  with Cons show ?case by simp
qed simp

lemma resolve_id: "list_all proper qs \<Longrightarrow> foldl resolve_part st qs = st @ qs"
  by (induction qs arbitrary: st) (auto simp: resolve_part_def proper_def)

lemma components_slashed: "list_all proper ps \<Longrightarrow> components (slashed ps) = ps"
proof (induction ps)
  case (Cons q ps)
  have "slashed ps = [] \<or> hd (slashed ps) = CHR ''/''" by (cases ps) (simp_all add: slashed_def)
  with Cons have "components (q @ slashed ps) = q # ps"
    by (subst components_append) (auto simp: proper_def)
  then show ?case by (simp add: slashed_def)
qed (simp add: slashed_def)

definition ordinary :: "string \<Rightarrow> nat" where
  "ordinary p = length (filter (\<lambda>q. q \<noteq> ''.'' \<and> q \<noteq> ''..'') (components p))"

lemma split_parts_resolve: "ordinary p \<le> 32 \<Longrightarrow> split_parts p [] = resolve_parts (components p)"
  using push_part_resolve[of "[]" "components p"]
  by (simp add: split_parts_components resolve_parts_def ordinary_def)

lemma resolve_parts_proper: "list_all proper (resolve_parts (components p))"
  unfolding resolve_parts_def using components_parts by (intro resolve_proper) auto

lemma resolve_length: "length (foldl resolve_part st qs) \<le> length st + length (filter (\<lambda>q. q \<noteq> ''.'' \<and> q \<noteq> ''..'') qs)"
proof (induction qs arbitrary: st)
  case (Cons q qs)
  show ?case using Cons[of "resolve_part st q"] by (auto simp: resolve_part_def)
qed simp

lemma components_path_text: "list_all proper ps \<Longrightarrow> components (path_text ps) = ps"
  using components_slashed by (auto simp: path_text_def)

lemma normalize_fits:
  assumes "2 \<le> n" "ordinary p \<le> 32" "length (path_text (resolve_parts (components p))) < n"
  shows "vfs_normalize_path p n =
    Some (length (path_text (resolve_parts (components p))), path_text (resolve_parts (components p)))"
  using assms by (simp add: vfs_normalize_path_def split_parts_resolve path_text_def rebuild_take Let_def split: if_splits)

lemma normalize_bounded:
  assumes "2 \<le> n"
  shows "\<exists>t. vfs_normalize_path p n = Some (length t, t) \<and> length t < n \<and> hd t = CHR ''/'' \<and> t \<noteq> []"
proof (cases "split_parts p []")
  case Nil
  with assms show ?thesis by (simp add: vfs_normalize_path_def)
next
  case (Cons q qs)
  obtain k where "n = Suc (Suc k)" using assms by (metis Suc_le_D numeral_2_eq_2 Suc_le_mono)
  with Cons show ?thesis by (auto simp: vfs_normalize_path_def rebuild_take slashed_def Let_def min_def)
qed

text \<open>
  C16. Path normalisation. Into a buffer of at least two bytes \<^verbatim>\<open>vfs_normalize_path\<close> writes an absolute path that
  fits and returns its length. When the input has at most 32 ordinary components and the result is
  not cut off, it is the text of the components with \<^verbatim>\<open>.\<close> removed and \<^verbatim>\<open>..\<close> resolved: a path whose
  components are all proper, and which normalisation leaves as it is.
\<close>
theorem normalize_canonical:
  assumes "2 \<le> n"
  shows "(\<exists>t. vfs_normalize_path p n = Some (length t, t) \<and> length t < n \<and> hd t = CHR ''/'') \<and>
    (ordinary p \<le> 32 \<and> length (path_text (resolve_parts (components p))) < n \<longrightarrow>
      (\<exists>t. vfs_normalize_path p n = Some (length t, t) \<and> components t = resolve_parts (components p) \<and>
        list_all proper (components t) \<and> vfs_normalize_path t n = Some (length t, t)))"
proof (intro conjI impI)
  show "\<exists>t. vfs_normalize_path p n = Some (length t, t) \<and> length t < n \<and> hd t = CHR ''/''"
    using normalize_bounded[OF assms, of p] by blast
next
  assume fits: "ordinary p \<le> 32 \<and> length (path_text (resolve_parts (components p))) < n"
  let ?ps = "resolve_parts (components p)"
  let ?t = "path_text ?ps"
  have proper: "list_all proper ?ps" by (rule resolve_parts_proper)
  have t: "components ?t = ?ps" using components_path_text[OF proper] .
  have same: "resolve_parts (components ?t) = ?ps"
    unfolding t using resolve_id[OF proper, of "[]"] by (simp add: resolve_parts_def)
  have "ordinary ?t \<le> length ?ps" unfolding ordinary_def t by (rule length_filter_le)
  also have "\<dots> \<le> ordinary p" using resolve_length[of "[]" "components p"] by (simp add: resolve_parts_def ordinary_def)
  finally have "vfs_normalize_path ?t n = Some (length ?t, ?t)"
    using normalize_fits[OF assms, of ?t] fits same by simp
  with normalize_fits[OF assms] fits t proper show
    "\<exists>t. vfs_normalize_path p n = Some (length t, t) \<and> components t = ?ps \<and>
      list_all proper (components t) \<and> vfs_normalize_path t n = Some (length t, t)" by metis
qed

theorem normalize_canonical_witness:
  "\<exists>t. vfs_normalize_path ''/usr/./lib//../bin/sh'' 256 = Some (length t, t) \<and> components t = [''usr'', ''bin'', ''sh'']"
proof -
  have c: "components ''/usr/./lib//../bin/sh'' = [''usr'', ''.'', ''lib'', ''..'', ''bin'', ''sh'']" by code_simp
  then have r: "resolve_parts (components ''/usr/./lib//../bin/sh'') = [''usr'', ''bin'', ''sh'']"
    "ordinary ''/usr/./lib//../bin/sh'' = 4"
    by (simp_all add: resolve_parts_def resolve_part_def ordinary_def)
  show ?thesis
    using normalize_canonical[of 256 "''/usr/./lib//../bin/sh''"] unfolding r by (simp add: path_text_def slashed_def) blast
qed

section \<open>Resolution\<close>

text \<open>A mount covers the paths at and below its mount point; the mount at \<^verbatim>\<open>/\<close> covers every path.\<close>
definition covers :: "'w VfsMount \<Rightarrow> string \<Rightarrow> bool" where
  "covers m p \<longleftrightarrow> m_path m = ''/'' \<or> p = m_path m \<or> (\<exists>r. p = m_path m @ CHR ''/'' # r)"

definition mounts_ok :: "'w vfs \<Rightarrow> bool" where
  "mounts_ok s \<longleftrightarrow> g_mount_count s \<le> length (g_mounts s) \<and>
    (\<forall>i<g_mount_count s. m_path_len (g_mounts s ! i) = length (m_path (g_mounts s ! i)) \<and> CHR 0x00 \<notin> set (m_path (g_mounts s ! i)))"

lemma take_eq_append: "take n p = q \<Longrightarrow> length q = n \<Longrightarrow> \<exists>r. p = q @ r"
  by (metis append_take_drop_id)

lemma extends_at: "(\<exists>r. p = q @ r \<and> (r = [] \<or> r ! 0 = c)) \<longleftrightarrow> p = q \<or> (\<exists>r. p = q @ c # r)"
proof
  assume "\<exists>r. p = q @ r \<and> (r = [] \<or> r ! 0 = c)"
  then obtain r where "p = q @ r" "r = [] \<or> r ! 0 = c" by blast
  then show "p = q \<or> (\<exists>r. p = q @ c # r)" by (cases r) auto
next
  assume "p = q \<or> (\<exists>r. p = q @ c # r)"
  then show "\<exists>r. p = q @ r \<and> (r = [] \<or> r ! 0 = c)" by (metis append_Nil2 nth_Cons_0)
qed

lemma is_root_mount_iff:
  "m_path_len m = length (m_path m) \<Longrightarrow> is_root_mount m \<longleftrightarrow> m_path m = ''/''"
  by (cases "m_path m") (auto simp: is_root_mount_def)

lemma mount_matches_covers:
  assumes "m_path_len m = length (m_path m)" "CHR 0x00 \<notin> set (m_path m)" "CHR 0x00 \<notin> set p"
  shows "mount_matches p m \<longleftrightarrow> covers m p"
proof -
  have prefix: "length p \<ge> length (m_path m) \<and> vfs_strncmp p (m_path m) (length (m_path m)) = 0 \<longleftrightarrow> (\<exists>r. p = m_path m @ r)"
    using sage_strncmp_eq_0[OF assms(3,2), of "length (m_path m)"] take_eq_append[of "length (m_path m)" p "m_path m"]
    by (auto simp: vfs_strncmp_def)
  have "mount_matches p m \<longleftrightarrow> m_path m = ''/'' \<or> (\<exists>r. p = m_path m @ r \<and> (r = [] \<or> r ! 0 = CHR ''/''))"
    using prefix is_root_mount_iff[OF assms(1)] by (auto simp: mount_matches_def assms(1) nth_append)
  also have "\<dots> \<longleftrightarrow> covers m p" unfolding covers_def extends_at by blast
  finally show ?thesis .
qed

lemma rel_path_split:
  assumes "m_path_len m = length (m_path m)" "covers m p"
  shows "if m_path m = ''/'' then rel_path p m = p else if p = m_path m then rel_path p m = ''/'' else p = m_path m @ rel_path p m"
proof -
  consider "m_path m = ''/''" | "m_path m \<noteq> ''/''" "p = m_path m" | r where "m_path m \<noteq> ''/''" "p = m_path m @ CHR ''/'' # r"
    using assms(2) by (auto simp: covers_def)
  then show ?thesis
    by cases (simp_all add: rel_path_def is_root_mount_iff[OF assms(1)] assms(1))
qed

lemma best_mount_longest:
  assumes "best_mount p ms is (b, l) = (b', l')"
    "\<And>i. b = Some i \<Longrightarrow> m_active (ms ! i) \<and> mount_matches p (ms ! i) \<and> l = int (m_path_len (ms ! i))" "b = None \<Longrightarrow> l = -1"
  shows "l \<le> l' \<and> (\<forall>i\<in>set is. m_active (ms ! i) \<and> mount_matches p (ms ! i) \<longrightarrow> int (m_path_len (ms ! i)) \<le> l') \<and>
    (case b' of None \<Rightarrow> b = None \<and> l' = -1
     | Some i \<Rightarrow> (b = Some i \<or> i \<in> set is) \<and> m_active (ms ! i) \<and> mount_matches p (ms ! i) \<and> l' = int (m_path_len (ms ! i)))"
  using assms
proof (induction "is" arbitrary: b l)
  case (Cons j js)
  show ?case
  proof (cases "m_active (ms ! j) \<and> mount_matches p (ms ! j) \<and> int (m_path_len (ms ! j)) > l")
    case True
    with Cons.prems(1) have "best_mount p ms js (Some j, int (m_path_len (ms ! j))) = (b', l')" by (simp add: Let_def)
    from Cons.IH[OF this] True show ?thesis by (auto split: option.splits)
  next
    case False
    with Cons.prems(1) have "best_mount p ms js (b, l) = (b', l')" by (auto simp: Let_def)
    from Cons.IH[OF this] Cons.prems(2,3) False show ?thesis by (auto split: option.splits)
  qed
qed (auto split: option.splits)

text \<open>
  C17. Mount resolution. \<^verbatim>\<open>resolve_mount\<close> finds no mount only when no active mount covers the path; otherwise
  it finds an active mount that covers it, no active mount that covers it has a longer mount
  point, and the relative path is what follows the mount point (the path itself under the root
  mount, and \<^verbatim>\<open>/\<close> for the mount point).
\<close>
theorem resolve_mount_longest:
  assumes "mounts_ok s" "CHR 0x00 \<notin> set p"
  shows "case resolve_mount p s of
      None \<Rightarrow> \<forall>i<g_mount_count s. m_active (g_mounts s ! i) \<longrightarrow> \<not> covers (g_mounts s ! i) p
    | Some (m, rel) \<Rightarrow>
        (\<exists>i<g_mount_count s. m = g_mounts s ! i) \<and> m_active m \<and> covers m p \<and>
        (\<forall>i<g_mount_count s. m_active (g_mounts s ! i) \<and> covers (g_mounts s ! i) p \<longrightarrow>
          length (m_path (g_mounts s ! i)) \<le> length (m_path m)) \<and>
        (if m_path m = ''/'' then rel = p else if p = m_path m then rel = ''/'' else p = m_path m @ rel)"
proof -
  obtain b l where best: "best_mount p (g_mounts s) [0..<g_mount_count s] (None, -1) = (b, l)" by (cases "best_mount p (g_mounts s) [0..<g_mount_count s] (None, -1)")
  have ok: "m_path_len (g_mounts s ! i) = length (m_path (g_mounts s ! i))"
    "mount_matches p (g_mounts s ! i) \<longleftrightarrow> covers (g_mounts s ! i) p" if "i < g_mount_count s" for i
    using assms that mount_matches_covers[of "g_mounts s ! i" p] by (auto simp: mounts_ok_def)
  note long = best_mount_longest[OF best, simplified]
  show ?thesis
  proof (cases b)
    case None
    with long ok have "\<not> covers (g_mounts s ! i) p" if "i < g_mount_count s" "m_active (g_mounts s ! i)" for i
      using that by fastforce
    with None best show ?thesis by (simp add: resolve_mount_def)
  next
    case (Some i)
    define m where "m = g_mounts s ! i"
    have i: "i < g_mount_count s" "m_active m" "covers m p" "l = int (length (m_path m))"
      using Some long ok[of i] by (auto simp: m_def)
    have longest: "length (m_path (g_mounts s ! j)) \<le> length (m_path m)"
      if "j < g_mount_count s" "m_active (g_mounts s ! j) \<and> covers (g_mounts s ! j) p" for j
      using long that ok[of j] i(4) by fastforce
    have r: "resolve_mount p s = Some (m, rel_path p m)" using Some best by (simp add: resolve_mount_def m_def)
    show ?thesis unfolding r option.case prod.case
      by (intro conjI allI impI rel_path_split[OF ok(1)[OF i(1), folded m_def] i(3)])
        (rule exI[of _ i], simp add: i(1) m_def, fact i(2), fact i(3), rule longest)
  qed
qed

definition demo_mount :: "string \<Rightarrow> 'w VfsBackend \<Rightarrow> 'w VfsMount" where
  "demo_mount p b = \<lparr>m_path = p, m_path_len = length p, m_backend = Some b, m_active = True\<rparr>"

definition demo_vfs :: "'w VfsBackend \<Rightarrow> 'w \<Rightarrow> 'w vfs" where
  "demo_vfs b w = \<lparr>g_mounts = [demo_mount ''/'' b, demo_mount ''/mnt/fat32'' b], g_mount_count = 2,
    g_vfs_vm_inited = False, g_in_vfs_vm = False, world = w, vfs_emitted = []\<rparr>"

text \<open>A backend with one directory, whose only entry is a file.\<close>
definition demo_backend :: "unit VfsBackend" where
  "demo_backend = \<lparr>be_name = ''demo'',
    be_stat = Some (\<lambda>p out w. Some ((VFS_OK, out\<lparr>st_type := if p = ''/d'' then VFS_DIRECTORY else VFS_FILE\<rparr>), w)),
    be_readdir = Some (\<lambda>p es n w. Some ((1, es[0 := \<lparr>de_name = ''f'', de_type = VFS_FILE, de_size = 0\<rparr>]), w)),
    be_read = None, be_write = None, be_mkdir = None, be_create = None, be_unlink = Some (\<lambda>p w. Some (VFS_OK, w))\<rparr>"

theorem resolve_mount_longest_witness:
  "\<exists>m. resolve_mount ''/mnt/fat32/a'' (demo_vfs demo_backend ()) = Some (m, ''/a'')"
proof -
  let ?b = demo_backend
  let ?s = "demo_vfs ?b ()" and ?p = "''/mnt/fat32/a''"
  have "mounts_ok ?s" by (auto simp: mounts_ok_def demo_vfs_def demo_mount_def less_2_cases_iff)
  from resolve_mount_longest[OF this, of ?p] show ?thesis
    by (cases "resolve_mount ?p ?s") (auto simp: demo_vfs_def demo_mount_def covers_def less_2_cases_iff)
qed

section \<open>Removal\<close>

text \<open>An operation changes the state of the devices and the trace, not the mounts.\<close>
definition same_setup :: "'w vfs \<Rightarrow> 'w vfs \<Rightarrow> bool" where
  "same_setup s s' \<longleftrightarrow> g_mounts s' = g_mounts s \<and> g_mount_count s' = g_mount_count s \<and>
    g_vfs_vm_inited s' = g_vfs_vm_inited s \<and> g_in_vfs_vm s' = g_in_vfs_vm s"

lemma same_setup_trans: "same_setup s s1 \<Longrightarrow> same_setup s1 s2 \<Longrightarrow> same_setup s s2"
  by (simp add: same_setup_def)

lemma vfs_stat_frame: "vfs_stat br p out s = Some (r, s') \<Longrightarrow> same_setup s s'"
  by (auto simp: vfs_stat_def bridge_call_def same_setup_def Let_def split: bind_splits if_splits option.splits prod.splits)

lemma vfs_readdir_frame: "vfs_readdir br p es n s = Some (r, s') \<Longrightarrow> same_setup s s'"
  by (auto simp: vfs_readdir_def bridge_call_def same_setup_def Let_def split: bind_splits if_splits option.splits prod.splits)

lemma vfs_unlink_frame: "vfs_unlink br p s = Some (r, s') \<Longrightarrow> same_setup s s'"
  by (auto simp: vfs_unlink_def path_op_def bridge_call_keep_def same_setup_def Let_def
      split: bind_splits if_splits option.splits prod.splits)

text \<open>The calls that removal makes return, and the directories it lists have no nameless entry.\<close>
definition rm_safe :: "'w vfs_bridge \<Rightarrow> VfsStat \<Rightarrow> VfsDirEntry list \<Rightarrow> 'w vfs \<Rightarrow> bool" where
  "rm_safe br st0 es0 s \<longleftrightarrow> (\<forall>s'. same_setup s s' \<longrightarrow>
    (\<forall>p. vfs_stat br p st0 s' \<noteq> None) \<and> (\<forall>p. vfs_unlink br p s' \<noteq> None) \<and>
    (\<forall>p. \<exists>c es s''. vfs_readdir br p es0 VFS_DIRENT_MAX s' = Some ((c, es), s'') \<and>
      (\<forall>e\<in>set (take (nat c) es). de_name e \<noteq> [])))"

lemma rm_entries_returns:
  assumes safe: "rm_safe br st0 es0 s0"
    and ih: "\<And>p s. 256 - length p < 256 - length path \<Longrightarrow> same_setup s0 s \<Longrightarrow>
      \<exists>r s'. rm_rf_loop br st0 es0 (Rm p) s = Some (r, s') \<and> same_setup s0 s'"
    and "\<forall>e\<in>set es. de_name e \<noteq> []" "same_setup s0 s"
  shows "\<exists>r s'. rm_rf_loop br st0 es0 (Rm_entries path es) s = Some (r, s') \<and> same_setup s0 s'"
  using assms(3,4)
proof (induction es arbitrary: s)
  case Nil
  have "vfs_unlink br path s \<noteq> None" using safe Nil.prems(2) by (simp add: rm_safe_def)
  then obtain r s' where u: "vfs_unlink br path s = Some (r, s')" by auto
  have "same_setup s0 s'" using same_setup_trans[OF Nil.prems(2) vfs_unlink_frame[OF u]] .
  then show ?case using u by (simp add: rm_rf_loop.simps)
next
  case (Cons e es)
  let ?skip = "vfs_strcmp (de_name e) ''.'' = 0 \<or> vfs_strcmp (de_name e) ''..'' = 0 \<or>
    length path + 1 + length (de_name e) \<ge> VFS_MAX_PATH"
  show ?case
  proof (cases ?skip)
    case True
    with Cons show ?thesis by (subst rm_rf_loop.simps) simp
  next
    case False
    let ?c = "child_path path (de_name e)"
    have "length path < length ?c" "length path < 256"
      using Cons.prems(1) False by (auto simp: child_path_def VFS_MAX_PATH_def)
    then have "256 - length ?c < 256 - length path" by linarith
    from ih[OF this Cons.prems(2)]
    obtain r s' where r: "rm_rf_loop br st0 es0 (Rm ?c) s = Some (r, s')" "same_setup s0 s'" by blast
    show ?thesis
    proof (cases "r = VFS_OK")
      case True
      with Cons.IH[of s'] Cons.prems(1) r False show ?thesis by (subst rm_rf_loop.simps) simp
    next
      case no: False
      with r False show ?thesis by (subst rm_rf_loop.simps) simp
    qed
  qed
qed

lemma rm_returns:
  assumes safe: "rm_safe br st0 es0 s0" and "same_setup s0 s"
  shows "\<exists>r s'. rm_rf_loop br st0 es0 (Rm path) s = Some (r, s') \<and> same_setup s0 s'"
  using assms(2)
proof (induction "256 - length path" arbitrary: path s rule: less_induct)
  case less
  note same = less.prems
  have safe': "vfs_stat br p st0 u \<noteq> None" "vfs_unlink br p u \<noteq> None"
    "\<exists>c es s''. vfs_readdir br p es0 VFS_DIRENT_MAX u = Some ((c, es), s'') \<and> (\<forall>e\<in>set (take (nat c) es). de_name e \<noteq> [])"
    if "same_setup s0 u" for p u
    using safe that by (simp_all add: rm_safe_def)
  obtain res st s1 where st: "vfs_stat br path st0 s = Some ((res, st), s1)" using safe'(1)[OF same, of path] by auto
  have s1: "same_setup s0 s1" using same_setup_trans[OF same vfs_stat_frame[OF st]] .
  obtain u su where u: "vfs_unlink br path s1 = Some (u, su)" using safe'(2)[OF s1, of path] by auto
  have su: "same_setup s0 su" using same_setup_trans[OF s1 vfs_unlink_frame[OF u]] .
  obtain c es s2 where rd: "vfs_readdir br path es0 VFS_DIRENT_MAX s1 = Some ((c, es), s2)"
    and names: "\<forall>e\<in>set (take (nat c) es). de_name e \<noteq> []" using safe'(3)[OF s1] by blast
  have s2: "same_setup s0 s2" using same_setup_trans[OF s1 vfs_readdir_frame[OF rd]] .
  obtain r s3 where "rm_rf_loop br st0 es0 (Rm_entries path (take (nat c) es)) s2 = Some (r, s3)" "same_setup s0 s3"
    using rm_entries_returns[OF safe less.hyps names s2] by blast
  then show ?case using st u rd s1 su s2 by (subst rm_rf_loop.simps) simp
qed


definition demo_bridge :: "unit vfs_bridge" where
  "demo_bridge = \<lparr>br_load = (\<lambda>w. Some (False, w)), br_call = (\<lambda>f args w. Some (MV_NIL, w)), br_num = (\<lambda>n. MV_NUM (uint n)),
    br_restore = (\<lambda>old w. w)\<rparr>"

lemma norm_path_returns: "\<exists>t. norm_path p = Some t"
  using normalize_bounded[of 256 p] by (auto simp: norm_path_def VFS_MAX_PATH_def)

lemma demo_lookup:
  assumes "same_setup (demo_vfs demo_backend ()) s"
  shows "\<exists>rel. lookup_op op norm s = map_option (\<lambda>f. (f, rel)) (op demo_backend)"
proof -
  let ?ms = "[demo_mount ''/'' demo_backend, demo_mount ''/mnt/fat32'' demo_backend]"
  have s: "g_mounts s = ?ms" "g_mount_count s = 2" using assms by (simp_all add: same_setup_def demo_vfs_def)
  have backend: "m_backend (?ms ! i) = Some demo_backend" if "i \<in> {0, 1}" for i using that by (auto simp: demo_mount_def)
  obtain b l where best: "best_mount norm ?ms [0..<2] (None, -1) = (b, l)" by (cases "best_mount norm ?ms [0..<2] (None, -1)")
  have root: "m_active (?ms ! 0) \<and> mount_matches norm (?ms ! 0)"
    by (simp add: demo_mount_def mount_matches_def is_root_mount_def)
  note long = best_mount_longest[OF best, simplified]
  have "b \<noteq> None"
  proof
    assume "b = None"
    with long have "l = -1" by simp
    moreover have "int (m_path_len (?ms ! 0)) \<le> l" using bspec[OF conjunct1[OF conjunct2[OF long]], of 0] root by simp
    ultimately show False by simp
  qed
  then obtain i where b: "b = Some i" by auto
  then have "i \<in> {0, 1}" using long by auto
  then show ?thesis
    using b best s backend[of i] by (cases "op demo_backend") (simp_all add: lookup_op_def resolve_mount_def)
qed


end
