(* ===== verification/Sage_Bytes.thy ===== *)
theory Sage_Bytes
  imports Sage_Prelude
begin

text \<open>
  Little-endian integers in lists of bytes, as the drivers and loaders read them from packed structures
  (\<^verbatim>\<open>*(uint32_t *)&sector[index]\<close>), and the replacement of a part of a buffer. A read after a write
  at the same place returns what was written; elsewhere the bytes are unchanged.
\<close>

unbundle bit_operations_syntax

definition le16 :: "u8 list \<Rightarrow> nat \<Rightarrow> u16" where
  "le16 bs i = ucast (bs ! i) OR push_bit 8 (ucast (bs ! (i + 1)))"

definition le32 :: "u8 list \<Rightarrow> nat \<Rightarrow> u32" where
  "le32 bs i = ucast (bs ! i) OR push_bit 8 (ucast (bs ! (i + 1))) OR
    push_bit 16 (ucast (bs ! (i + 2))) OR push_bit 24 (ucast (bs ! (i + 3)))"

definition le64 :: "u8 list \<Rightarrow> nat \<Rightarrow> u64" where
  "le64 bs i = ucast (le32 bs i) OR push_bit 32 (ucast (le32 bs (i + 4)))"

definition bytes32 :: "u32 \<Rightarrow> u8 list" where
  "bytes32 v = [ucast v, ucast (drop_bit 8 v), ucast (drop_bit 16 v), ucast (drop_bit 24 v)]"

definition bytes64 :: "u64 \<Rightarrow> u8 list" where
  "bytes64 v = bytes32 (ucast v) @ bytes32 (ucast (drop_bit 32 v))"

text \<open>The buffer in which the bytes from \<open>i\<close> on are replaced by \<open>xs\<close>.\<close>
definition splice :: "nat \<Rightarrow> 'a list \<Rightarrow> 'a list \<Rightarrow> 'a list" where
  "splice i xs bs = take i bs @ xs @ drop (i + length xs) bs"

lemma length_bytes64 [simp]: "length (bytes64 v) = 8"
  by (simp add: bytes64_def bytes32_def)

lemma length_bytes32 [simp]: "length (bytes32 v) = 4"
  by (simp add: bytes32_def)

lemma length_splice [simp]: "i + length xs \<le> length bs \<Longrightarrow> length (splice i xs bs) = length bs"
  by (simp add: splice_def)

lemma nth_splice:
  assumes "i + length xs \<le> length bs"
  shows "splice i xs bs ! j = (if i \<le> j \<and> j < i + length xs then xs ! (j - i) else bs ! j)"
  using assms by (auto simp: splice_def nth_append)

lemma splice_Nil [simp]: "splice i [] bs = bs"
  by (simp add: splice_def)

lemma splice_append1:
  "i + length xs \<le> length bs \<Longrightarrow> splice i xs (bs @ cs) = splice i xs bs @ cs"
  by (simp add: splice_def)

lemma splice_append2:
  "length bs \<le> i \<Longrightarrow> splice i xs (bs @ cs) = bs @ splice (i - length bs) xs cs"
  by (simp add: splice_def)

lemma splice_across:
  assumes "i \<le> length bs" "length bs \<le> i + length xs"
  shows "splice i xs (bs @ cs) =
    splice i (take (length bs - i) xs) bs @ splice 0 (drop (length bs - i) xs) cs"
proof -
  have "xs = take (length bs - i) xs @ drop (length bs - i) xs" by simp
  then show ?thesis using assms by (simp add: splice_def add.commute)
qed

lemma le32_bytes32: "le32 (bytes32 v) 0 = v"
proof (rule bit_word_eqI)
  fix n :: nat
  assume "n < LENGTH(32)"
  then have n: "n < 32" by simp
  consider "n < 8" | "8 \<le> n" "n < 16" | "16 \<le> n" "n < 24" | "24 \<le> n" by linarith
  then show "bit (le32 (bytes32 v) 0) n = bit v n"
    using n by cases (auto simp: le32_def bytes32_def bit_simps)
qed

lemma le32_cong:
  assumes "\<And>k. k < 4 \<Longrightarrow> bs ! (i + k) = cs ! (j + k)"
  shows "le32 bs i = le32 cs j"
  using assms[of 0] assms[of 1] assms[of 2] assms[of 3] by (simp add: le32_def)

lemma le32_splice_same:
  assumes "i + 4 \<le> length bs"
  shows "le32 (splice i (bytes32 v) bs) i = v"
proof -
  have "le32 (splice i (bytes32 v) bs) i = le32 (bytes32 v) 0"
    using assms by (intro le32_cong) (simp add: nth_splice)
  then show ?thesis by (simp add: le32_bytes32)
qed

lemma le32_splice_other:
  assumes "i + 4 \<le> length bs" "j + 4 \<le> i \<or> i + 4 \<le> j"
  shows "le32 (splice i (bytes32 v) bs) j = le32 bs j"
  using assms by (intro le32_cong) (auto simp: nth_splice)

lemma le64_cong:
  assumes "\<And>k. k < 8 \<Longrightarrow> bs ! (i + k) = cs ! (j + k)"
  shows "le64 bs i = le64 cs j"
proof -
  have "le32 bs i = le32 cs j" using assms by (intro le32_cong) simp
  moreover have "le32 bs (i + 4) = le32 cs (j + 4)"
  proof (rule le32_cong)
    fix k :: nat
    assume "k < 4"
    with assms[of "4 + k"] show "bs ! (i + 4 + k) = cs ! (j + 4 + k)" by (simp add: add.assoc)
  qed
  ultimately show ?thesis by (simp add: le64_def)
qed

lemma le64_bytes64: "le64 (bytes64 v) 0 = v"
proof -
  have "le32 (bytes64 v) 0 = le32 (bytes32 (ucast v)) 0"
    by (rule le32_cong) (simp add: bytes64_def nth_append)
  moreover have "le32 (bytes64 v) 4 = le32 (bytes32 (ucast (drop_bit 32 v))) 0"
    by (rule le32_cong) (simp add: bytes64_def nth_append)
  ultimately have "le64 (bytes64 v) 0 = ucast (ucast v :: u32) OR push_bit 32 (ucast (ucast (drop_bit 32 v) :: u32))"
    by (simp add: le64_def le32_bytes32)
  also have "\<dots> = v"
  proof (rule bit_word_eqI)
    fix n :: nat
    assume "n < LENGTH(64)"
    then show "bit (ucast (ucast v :: u32) OR push_bit 32 (ucast (ucast (drop_bit 32 v) :: u32)) :: u64) n = bit v n"
      by (cases "n < 32") (auto simp: bit_simps)
  qed
  finally show ?thesis .
qed

section \<open>Memory\<close>

text \<open>The memory in which the bytes from \<open>a\<close> on are \<open>xs\<close>, and the 64-bit word at an address.\<close>
definition store :: "nat \<Rightarrow> u8 list \<Rightarrow> (nat \<Rightarrow> u8) \<Rightarrow> nat \<Rightarrow> u8" where
  "store a xs m = (\<lambda>i. if a \<le> i \<and> i < a + length xs then xs ! (i - a) else m i)"

definition word_at :: "(nat \<Rightarrow> u8) \<Rightarrow> nat \<Rightarrow> u64" where
  "word_at m a = le64 (map m [a..<a + 8]) 0"

lemma word_at_cong: "(\<And>k. k < 8 \<Longrightarrow> m (a + k) = m' (a + k)) \<Longrightarrow> word_at m a = word_at m' a"
  unfolding word_at_def by (rule le64_cong) simp

lemma store_other: "b + n \<le> a \<or> a + length xs \<le> b \<Longrightarrow> k < n \<Longrightarrow> store a xs m (b + k) = m (b + k)"
  by (auto simp: store_def)

lemma word_at_store_same: "word_at (store a (bytes64 v) m) a = v"
proof -
  have "word_at (store a (bytes64 v) m) a = le64 (bytes64 v) 0"
    unfolding word_at_def by (rule le64_cong) (simp add: store_def)
  then show ?thesis by (simp add: le64_bytes64)
qed

lemma word_at_store_other: "b + 8 \<le> a \<or> a + length xs \<le> b \<Longrightarrow> word_at (store a xs m) b = word_at m b"
  by (rule word_at_cong) (rule store_other)

section \<open>Widening\<close>

lemma u8_bound: "unat (x :: u8) < 2 ^ 8"
  using unsigned_less[of x, where 'a = nat] by simp

lemma unat_ucast_u64 [simp]: "unat (ucast (x :: u32) :: u64) = unat x"
proof -
  have "unat x < 2 ^ 64" using u32_bound[of x] by simp
  then show ?thesis by (simp add: unsigned_ucast_eq take_bit_nat_eq_self)
qed

end
