(* ===== verification/Sage_FAT32.thy ===== *)
theory Sage_FAT32
  imports Sage_VFS Sage_Bytes
begin

text \<open>
  The FAT32 driver of \<^verbatim>\<open>kernel/fs/fat32.c\<close> over the disk of \<^verbatim>\<open>kernel/core/ata_pio.c\<close>, and its VFS backend.

  The disk is a function from sector numbers to 512 bytes; \<open>dev_ok\<close> says for which sectors the device
  answers a command before the driver's timeout. The driver sends 28 bits of a sector number. A
  local sector buffer is \<open>None\<close> until a read has filled it, a read that fails leaves it as it was,
  and using it while it is \<open>None\<close> makes the operation \<open>None\<close>; so does writing outside the buffer for
  long names. Cluster chains come from the disk, so the loops along them are \<open>partial_function (option)\<close>.
  The branches taken while the UEFI boot services are active call the firmware and are left out. What
  \<^verbatim>\<open>fat32_ls\<close> and \<^verbatim>\<open>fat32_cat\<close> print is a result; tracing messages are left out.

  Shown (in \<open>Sage_FAT32_Props\<close>): the allocation table is a table of independent 28-bit entries; reading a
  file returns the slice of the concatenated clusters of its chain; writing within the chain
  replaces that slice and nothing else on the disk.
\<close>

section \<open>The disk\<close>

record fat =
  ata_present :: bool
  dev_ok :: "u32 \<Rightarrow> bool"
  sectors :: "u32 \<Rightarrow> u8 list"
  fat32_partition_lba :: u32
  fat32_available :: bool
  fat32_root_cluster :: u32
  fat32_sectors_per_cluster :: u16
  fat32_reserved_sectors :: u16
  fat32_fat_count :: u8
  fat32_fat_size :: u32
  fat32_total_sectors :: u32
  fat32_fsinfo_sector :: u16
  fat32_bytes_per_sector :: u16

definition lba28 :: "u32 \<Rightarrow> u32" where
  "lba28 lba = lba AND 0x0FFFFFFF"

definition ata_read_sector :: "u32 \<Rightarrow> fat \<Rightarrow> u8 list option" where
  "ata_read_sector lba s = (if ata_present s \<and> dev_ok s (lba28 lba) then Some (sectors s (lba28 lba)) else None)"

definition ata_write_sector :: "u32 \<Rightarrow> u8 list \<Rightarrow> fat \<Rightarrow> bool \<times> fat" where
  "ata_write_sector lba buf s =
    (if ata_present s \<and> dev_ok s (lba28 lba) then (True, s\<lparr>sectors := (sectors s)(lba28 lba := buf)\<rparr>) else (False, s))"

text \<open>A read whose result the caller ignores: the buffer afterwards.\<close>
definition read_into :: "u32 \<Rightarrow> u8 list option \<Rightarrow> fat \<Rightarrow> u8 list option" where
  "read_into lba buf s = (case ata_read_sector lba s of None \<Rightarrow> buf | Some b \<Rightarrow> Some b)"

section \<open>The allocation table\<close>

definition fat32_is_end_of_chain :: "u32 \<Rightarrow> bool" where
  "fat32_is_end_of_chain entry \<longleftrightarrow> entry \<ge> 0x0FFFFFF8"

definition fat32_cluster_to_lba :: "u32 \<Rightarrow> fat \<Rightarrow> u32" where
  "fat32_cluster_to_lba cluster s =
    fat32_partition_lba s + ucast (fat32_reserved_sectors s) + ucast (fat32_fat_count s) * fat32_fat_size s +
    (cluster - 2) * ucast (fat32_sectors_per_cluster s)"

text \<open>The sector of the table that holds the entry of a cluster, and the entry's place in it.\<close>
definition fat_lba :: "u32 \<Rightarrow> fat \<Rightarrow> u32" where
  "fat_lba cluster s = fat32_partition_lba s + ucast (fat32_reserved_sectors s) + cluster * 4 div 512"

definition fat_index :: "u32 \<Rightarrow> nat" where
  "fat_index cluster = unat (cluster * 4 mod 512)"

definition fat32_read_fat_entry :: "u32 \<Rightarrow> fat \<Rightarrow> u32 option" where
  "fat32_read_fat_entry cluster s = do {
     sector \<leftarrow> ata_read_sector (fat_lba cluster s) s;
     Some (le32 sector (fat_index cluster) AND 0x0FFFFFFF)
   }"

definition fat32_write_fat_entry :: "u32 \<Rightarrow> u32 \<Rightarrow> fat \<Rightarrow> bool \<times> fat" where
  "fat32_write_fat_entry cluster v s =
    (case ata_read_sector (fat_lba cluster s) s of
       None \<Rightarrow> (False, s)
     | Some sector \<Rightarrow>
         let entry = (le32 sector (fat_index cluster) AND 0xF0000000) OR (v AND 0x0FFFFFFF) in
         ata_write_sector (fat_lba cluster s) (splice (fat_index cluster) (bytes32 entry) sector) s)"

text \<open>The scan for a free cluster, 0 when there is none.\<close>
fun scan_free :: "nat list \<Rightarrow> fat \<Rightarrow> u32 option" where
  "scan_free [] s = Some 0"
| "scan_free (c # cs) s = do {
     entry \<leftarrow> fat32_read_fat_entry (of_nat c) s;
     if entry = 0 then Some (of_nat c) else scan_free cs s
   }"

definition fat32_find_free_cluster :: "fat \<Rightarrow> u32 option" where
  "fat32_find_free_cluster s = scan_free [2..<unat (fat32_fat_size s * 512 div 4)] s"

section \<open>Directory entries\<close>

text \<open>An entry is its 32 bytes.\<close>
definition de_attr :: "u8 list \<Rightarrow> u8" where "de_attr e = e ! 11"
definition de_first_cluster :: "u8 list \<Rightarrow> u32" where
  "de_first_cluster e = push_bit 16 (ucast (le16 e 20)) OR ucast (le16 e 26)"
definition de_file_size :: "u8 list \<Rightarrow> u32" where "de_file_size e = le32 e 28"
definition FAT32_ATTR_LONG_NAME :: u8 where "FAT32_ATTR_LONG_NAME = 0x0F"
definition FAT32_ATTR_DIRECTORY :: u8 where "FAT32_ATTR_DIRECTORY = 0x10"

definition is_directory :: "u8 list \<Rightarrow> bool" where
  "is_directory e \<longleftrightarrow> de_attr e AND FAT32_ATTR_DIRECTORY \<noteq> 0"

definition sector_entries :: "u8 list \<Rightarrow> u8 list list" where
  "sector_entries sector = map (\<lambda>i. take 32 (drop (i * 32) sector)) [0..<16]"

text \<open>The bytes of the 8.3 name with its dot.\<close>
definition short_name :: "u8 list \<Rightarrow> u8 list" where
  "short_name e =
    takeWhile (\<lambda>b. b \<noteq> 0x20) (take 8 e) @
    (if e ! 8 \<noteq> 0x20 then 0x2E # takeWhile (\<lambda>b. b \<noteq> 0x20) (take 3 (drop 8 e)) else [])"

definition c_string :: "u8 list \<Rightarrow> string" where
  "c_string bs = map (\<lambda>b. char_of (unat b)) (takeWhile (\<lambda>b. b \<noteq> 0) bs)"

definition lower :: "u8 \<Rightarrow> u8" where
  "lower b = (if 0x41 \<le> b \<and> b \<le> 0x5A then b + 32 else b)"

definition fat32_entry_to_name :: "u8 list \<Rightarrow> nat \<Rightarrow> string" where
  "fat32_entry_to_name e out_size = c_string (take (out_size - 1) (map lower (short_name e)))"

definition upper :: "char \<Rightarrow> char" where
  "upper c = (let n = of_char c :: nat in if 97 \<le> n \<and> n \<le> 122 then char_of (n - 32) else c)"

fun streq :: "string \<Rightarrow> string \<Rightarrow> bool" where
  "streq (x # a) (y # b) \<longleftrightarrow> upper x = upper y \<and> streq a b"
| "streq a b \<longleftrightarrow> a = [] \<and> b = []"

section \<open>Long names\<close>

text \<open>The buffer for a long name, whose bytes are \<open>None\<close> until written, and the flag \<^verbatim>\<open>lfn_active\<close>.\<close>
type_synonym lfn = "u8 option list \<times> bool"

definition lfn_start :: lfn where "lfn_start = (replicate 256 None, False)"

definition lfn_chars :: "u8 list \<Rightarrow> u8 list" where
  "lfn_chars e = map ((!) e) [1, 3, 5, 7, 9, 14, 16, 18, 20, 22, 24, 28, 30]"

definition fat32_lfn_to_name :: "u8 list \<Rightarrow> u8 option list \<Rightarrow> nat \<Rightarrow> u8 option list option" where
  "fat32_lfn_to_name e buf off =
    (if off + 13 \<le> length buf then Some (splice off (map Some (lfn_chars e)) buf) else None)"

definition lfn_entry :: "u8 list \<Rightarrow> lfn \<Rightarrow> lfn option" where
  "lfn_entry e l =
    (let order = unat (e ! 0 AND 0x1F) in
     if 0 < order \<and> order \<le> 20 then do {
       buf \<leftarrow> fat32_lfn_to_name e (fst l) ((order - 1) * 13);
       let buf1 = (if e ! 0 AND 0x40 \<noteq> 0 then buf[order * 13 := Some 0] else buf);
       Some (buf1, True)
     }
     else Some l)"

text \<open>The loop that measures the name in the buffer.\<close>
fun lfn_text :: "nat \<Rightarrow> u8 option list \<Rightarrow> u8 list option" where
  "lfn_text (Suc k) (Some b # buf) = (if b = 0 \<or> b = 0xFF then Some [] else map_option ((#) b) (lfn_text k buf))"
| "lfn_text (Suc k) _ = None"
| "lfn_text 0 _ = Some []"

text \<open>
  What a directory scan makes of one entry: the end of the directory, an entry to pass over, or an entry
  with its long name, if it has one.
\<close>
datatype dir_item = Dir_end | Dir_skip | Dir_entry "string option"

definition scan_entry :: "u8 list \<Rightarrow> lfn \<Rightarrow> (dir_item \<times> lfn) option" where
  "scan_entry e l =
    (if e ! 0 = 0 then Some (Dir_end, l)
     else if e ! 0 = 0xE5 then Some (Dir_skip, (fst l, False))
     else if de_attr e = FAT32_ATTR_LONG_NAME then map_option (\<lambda>l'. (Dir_skip, l')) (lfn_entry e l)
     else if snd l then do {
       bs \<leftarrow> lfn_text 255 (fst l);
       Some (Dir_entry (Some (c_string bs)), ((fst l)[length bs := Some 0], False))
     }
     else Some (Dir_entry None, l))"

section \<open>Lookup\<close>

datatype 'a search = Found 'a | Absent | More lfn

fun find_in_entries :: "string \<Rightarrow> u8 list list \<Rightarrow> lfn \<Rightarrow> u8 list search option" where
  "find_in_entries nm [] l = Some (More l)"
| "find_in_entries nm (e # es) l = do {
     (item, l') \<leftarrow> scan_entry e l;
     case item of
       Dir_end \<Rightarrow> Some Absent
     | Dir_skip \<Rightarrow> find_in_entries nm es l'
     | Dir_entry long \<Rightarrow>
         if streq (case long of Some n \<Rightarrow> n | None \<Rightarrow> c_string (short_name e)) nm then Some (Found e)
         else find_in_entries nm es l'
   }"

fun find_in_sectors :: "string \<Rightarrow> u32 \<Rightarrow> nat list \<Rightarrow> fat \<Rightarrow> lfn \<Rightarrow> u8 list search option" where
  "find_in_sectors nm cluster [] s l = Some (More l)"
| "find_in_sectors nm cluster (i # is) s l =
    (case ata_read_sector (fat32_cluster_to_lba cluster s + of_nat i) s of
       None \<Rightarrow> Some Absent
     | Some sector \<Rightarrow> do {
         r \<leftarrow> find_in_entries nm (sector_entries sector) l;
         case r of More l' \<Rightarrow> find_in_sectors nm cluster is s l' | _ \<Rightarrow> Some r
       })"

partial_function (option) find_in_chain :: "string \<Rightarrow> u32 \<Rightarrow> fat \<Rightarrow> lfn \<Rightarrow> u8 list option option" where
  "find_in_chain nm cluster s l =
    (if fat32_is_end_of_chain cluster then Some None
     else do {
       r \<leftarrow> find_in_sectors nm cluster [0..<unat (fat32_sectors_per_cluster s)] s l;
       case r of
         Found e \<Rightarrow> Some (Some e)
       | Absent \<Rightarrow> Some None
       | More l' \<Rightarrow> do { next \<leftarrow> fat32_read_fat_entry cluster s; find_in_chain nm next s l' }
     })"

definition fat32_find_entry_in_cluster :: "u32 \<Rightarrow> string \<Rightarrow> fat \<Rightarrow> u8 list option option" where
  "fat32_find_entry_in_cluster cluster nm s = find_in_chain nm cluster s lfn_start"

text \<open>The loop over the segments of a path that does not begin with a slash.\<close>
function find_segments :: "u32 \<Rightarrow> string \<Rightarrow> fat \<Rightarrow> u8 list \<Rightarrow> u8 list option option" where
  "find_segments cluster path s out =
    (if path = [] then Some (Some out)
     else
       let seg = takeWhile (\<lambda>c. c \<noteq> CHR ''/'') path; rest = dropWhile (\<lambda>c. c \<noteq> CHR ''/'') path in
       if seg = [] then find_segments cluster (dropWhile (\<lambda>c. c = CHR ''/'') rest) s out
       else
         case fat32_find_entry_in_cluster cluster (take 255 seg) s of
           None \<Rightarrow> None
         | Some None \<Rightarrow> Some None
         | Some (Some e) \<Rightarrow>
             if rest = [] then Some (Some e)
             else if \<not> is_directory e then Some None
             else if de_first_cluster e < 2 then Some None
             else find_segments (de_first_cluster e) (dropWhile (\<lambda>c. c = CHR ''/'') rest) s e)"
  by pat_completeness auto
termination
proof (relation "measure (\<lambda>(cluster, path, s, out). length path)", goal_cases)
  case (2 cluster path s out seg rest)
  then obtain p where p: "path = CHR ''/'' # p" by (cases path) (auto split: if_splits)
  then have "dropWhile (\<lambda>c. c = CHR ''/'') rest = dropWhile (\<lambda>c. c = CHR ''/'') p" using 2 by simp
  also have "length \<dots> \<le> length p" by (rule length_dropWhile_le)
  finally show ?case using p by simp
next
  case (3 cluster path s out seg rest)
  then have "seg @ rest = path" "seg \<noteq> []" by simp_all
  then have "length rest < length path" by (metis length_append length_greater_0_conv less_add_same_cancel2)
  moreover have "length (dropWhile (\<lambda>c. c = CHR ''/'') rest) \<le> length rest" by (rule length_dropWhile_le)
  ultimately show ?case by simp
qed simp

declare find_segments.simps [simp del]

definition fat32_find_root_entry :: "string \<Rightarrow> fat \<Rightarrow> u8 list option option" where
  "fat32_find_root_entry path s =
    (let p = dropWhile (\<lambda>c. c = CHR ''/'') path in
     if p = [] then Some None else find_segments (fat32_root_cluster s) p s [])"

section \<open>Initialisation\<close>

definition fat32_find_partition :: "fat \<Rightarrow> u32" where
  "fat32_find_partition s =
    (case ata_read_sector 0 s of
       None \<Rightarrow> 2048
     | Some mbr \<Rightarrow>
         if mbr ! 510 \<noteq> 0x55 \<or> mbr ! 511 \<noteq> 0xAA then 2048
         else case find (\<lambda>i. mbr ! (446 + 16 * i + 4) \<in> {0x0B, 0x0C, 0xEF}) [0..<4] of
             None \<Rightarrow> 2048
           | Some i \<Rightarrow> le32 mbr (446 + 16 * i + 8))"

definition fat32_init :: "fat \<Rightarrow> bool \<times> fat" where
  "fat32_init s =
    (if \<not> ata_present s then (False, s\<lparr>fat32_available := False\<rparr>)
     else
       let s1 = s\<lparr>fat32_partition_lba := fat32_find_partition s\<rparr> in
       case ata_read_sector (fat32_partition_lba s1) s1 of
         None \<Rightarrow> (False, s1\<lparr>fat32_available := False\<rparr>)
       | Some b \<Rightarrow>
           if le16 b 510 \<noteq> 0xAA55 then (False, s1\<lparr>fat32_available := False\<rparr>)
           else if le16 b 11 \<noteq> 512 \<or> b ! 16 = 0 \<or> le32 b 36 = 0 then (False, s1\<lparr>fat32_available := False\<rparr>)
           else (True, s1\<lparr>fat32_available := True, fat32_sectors_per_cluster := ucast (b ! 13),
             fat32_reserved_sectors := le16 b 14, fat32_fat_count := b ! 16, fat32_fat_size := le32 b 36,
             fat32_root_cluster := le32 b 44, fat32_total_sectors := le32 b 32, fat32_fsinfo_sector := le16 b 48,
             fat32_bytes_per_sector := le16 b 11\<rparr>))"

text \<open>Whether the free space is known, the total and the free space in KiB.\<close>
definition fat32_storage_info :: "fat \<Rightarrow> bool \<times> u32 \<times> u32" where
  "fat32_storage_info s =
    (if \<not> fat32_available s then (False, 0, 0)
     else
       let total_kb = ucast ((ucast (fat32_total_sectors s) * ucast (fat32_bytes_per_sector s) :: u64) div 1024) in
       if fat32_fsinfo_sector s = 0 then (False, total_kb, 0)
       else case ata_read_sector (fat32_partition_lba s + ucast (fat32_fsinfo_sector s)) s of
           None \<Rightarrow> (False, total_kb, 0)
         | Some b \<Rightarrow>
             if le32 b 0 \<noteq> 0x41615252 \<or> le32 b 484 \<noteq> 0x61417272 \<or> le32 b 488 = 0xFFFFFFFF then (False, total_kb, 0)
             else (True, total_kb, ucast ((ucast (le32 b 488) * ucast (fat32_sectors_per_cluster s) *
                     ucast (fat32_bytes_per_sector s) :: u64) div 1024)))"

section \<open>Console output\<close>

definition byte_char :: "u8 \<Rightarrow> char" where "byte_char b = char_of (unat b)"

definition fat32_print_name :: "u8 list \<Rightarrow> string" where
  "fat32_print_name e = c_string (short_name e)"

text \<open>The listing of the root: whether the end mark was met, and the text.\<close>
fun ls_entries :: "u8 list list \<Rightarrow> string \<Rightarrow> bool \<times> string" where
  "ls_entries [] out = (False, out)"
| "ls_entries (e # es) out =
    (if e ! 0 = 0 then (True, out)
     else if e ! 0 = 0xE5 \<or> de_attr e = FAT32_ATTR_LONG_NAME then ls_entries es out
     else ls_entries es (out @ [CHR 0x0A] @ fat32_print_name e @ (if is_directory e then ''/'' else [])))"

fun ls_sectors :: "u32 \<Rightarrow> nat list \<Rightarrow> fat \<Rightarrow> u8 list option \<Rightarrow> string \<Rightarrow> (bool \<times> u8 list option \<times> string) option" where
  "ls_sectors cluster [] s buf out = Some (False, buf, out)"
| "ls_sectors cluster (i # is) s buf out = do {
     sector \<leftarrow> read_into (fat32_cluster_to_lba cluster s + of_nat i) buf s;
     case ls_entries (sector_entries sector) out of
       (True, out') \<Rightarrow> Some (True, Some sector, out')
     | (False, out') \<Rightarrow> ls_sectors cluster is s (Some sector) out'
   }"

partial_function (option) ls_chain :: "u32 \<Rightarrow> fat \<Rightarrow> u8 list option \<Rightarrow> string \<Rightarrow> string option" where
  "ls_chain cluster s buf out =
    (if fat32_is_end_of_chain cluster then Some out
     else do {
       (ended, buf', out') \<leftarrow> ls_sectors cluster [0..<unat (fat32_sectors_per_cluster s)] s buf out;
       if ended then Some out'
       else do { next \<leftarrow> fat32_read_fat_entry cluster s; ls_chain next s buf' out' }
     })"

definition fat32_ls :: "fat \<Rightarrow> string option" where
  "fat32_ls s =
    (if \<not> fat32_available s then Some (CHR 0x0A # ''FAT32 filesystem unavailable'')
     else ls_chain (fat32_root_cluster s) s None (CHR 0x0A # ''/FAT32:''))"

text \<open>The text of a file: the bytes that remain, the text so far, the sector buffer.\<close>
fun cat_sectors :: "u32 \<Rightarrow> nat list \<Rightarrow> fat \<Rightarrow> nat \<times> string \<times> u8 list option \<Rightarrow> (nat \<times> string \<times> u8 list option) option" where
  "cat_sectors cluster [] s st = Some st"
| "cat_sectors cluster (i # is) s (remaining, out, buf) =
    (if remaining = 0 then Some (remaining, out, buf)
     else do {
       sector \<leftarrow> read_into (fat32_cluster_to_lba cluster s + of_nat i) buf s;
       let to_print = (if remaining < 512 then remaining else 512);
       cat_sectors cluster is s (remaining - to_print, out @ map byte_char (take to_print sector), Some sector)
     })"

partial_function (option) cat_chain :: "u32 \<Rightarrow> fat \<Rightarrow> nat \<times> string \<times> u8 list option \<Rightarrow> string option" where
  "cat_chain cluster s st =
    (if fst st = 0 \<or> fat32_is_end_of_chain cluster then Some (fst (snd st))
     else do {
       st' \<leftarrow> cat_sectors cluster [0..<unat (fat32_sectors_per_cluster s)] s st;
       next \<leftarrow> fat32_read_fat_entry cluster s;
       cat_chain next s st'
     })"

definition fat32_cat :: "string \<Rightarrow> fat \<Rightarrow> (bool \<times> string) option" where
  "fat32_cat path s =
    (if \<not> fat32_available s then Some (False, [])
     else do {
       r \<leftarrow> fat32_find_root_entry path s;
       case r of
         None \<Rightarrow> Some (False, [])
       | Some e \<Rightarrow>
           if is_directory e then Some (True, CHR 0x0A # ''cat: cannot print directory: '' @ path)
           else map_option (Pair True)
             (cat_chain (de_first_cluster e) s (unat (de_file_size e), [CHR 0x0A], None))
     })"

section \<open>Status and directories\<close>

definition entry_type :: "u8 list \<Rightarrow> VfsNodeType" where
  "entry_type e = (if is_directory e then VFS_DIRECTORY else VFS_FILE)"

definition fat32_stat :: "string \<Rightarrow> VfsStat \<Rightarrow> fat \<Rightarrow> (int \<times> VfsStat) option" where
  "fat32_stat path out s =
    (if \<not> fat32_available s then Some (VFS_EIO, out)
     else if path = ''/'' then Some (VFS_OK, \<lparr>st_name = ''/'', st_type = VFS_DIRECTORY, st_size = 0, st_mode = 0x1ED\<rparr>)
     else do {
       r \<leftarrow> fat32_find_root_entry path s;
       case r of
         None \<Rightarrow> Some (VFS_ENOENT, out)
       | Some e \<Rightarrow> Some (VFS_OK, \<lparr>st_name = fat32_entry_to_name e VFS_NAME_MAX, st_type = entry_type e,
           st_size = ucast (de_file_size e), st_mode = (if is_directory e then 0x1ED else 0x1A4)\<rparr>)
     })"

text \<open>The state of a listing: the entries listed and the long name.\<close>
fun list_entries :: "nat \<Rightarrow> u8 list list \<Rightarrow> VfsDirEntry list \<Rightarrow> lfn \<Rightarrow> (bool \<times> VfsDirEntry list \<times> lfn) option" where
  "list_entries max_entries [] listed l = Some (False, listed, l)"
| "list_entries max_entries (e # es) listed l =
    (if length listed \<ge> max_entries then Some (False, listed, l)
     else do {
       (item, l') \<leftarrow> scan_entry e l;
       case item of
         Dir_end \<Rightarrow> Some (True, listed, l')
       | Dir_skip \<Rightarrow> list_entries max_entries es listed l'
       | Dir_entry long \<Rightarrow>
           list_entries max_entries es
             (listed @ [\<lparr>de_name = (case long of Some n \<Rightarrow> take (VFS_NAME_MAX - 1) n | None \<Rightarrow> fat32_entry_to_name e VFS_NAME_MAX),
                        de_type = entry_type e, de_size = ucast (de_file_size e)\<rparr>]) l'
     })"

fun list_sectors :: "nat \<Rightarrow> u32 \<Rightarrow> nat list \<Rightarrow> fat \<Rightarrow> u8 list option \<Rightarrow> VfsDirEntry list \<Rightarrow> lfn \<Rightarrow>
    (bool \<times> u8 list option \<times> VfsDirEntry list \<times> lfn) option" where
  "list_sectors max_entries cluster [] s buf listed l = Some (False, buf, listed, l)"
| "list_sectors max_entries cluster (i # is) s buf listed l = do {
     sector \<leftarrow> read_into (fat32_cluster_to_lba cluster s + of_nat i) buf s;
     (done, listed', l') \<leftarrow> list_entries max_entries (sector_entries sector) listed l;
     if done then Some (True, Some sector, listed', l')
     else list_sectors max_entries cluster is s (Some sector) listed' l'
   }"

partial_function (option) list_chain :: "nat \<Rightarrow> u32 \<Rightarrow> fat \<Rightarrow> u8 list option \<Rightarrow> VfsDirEntry list \<Rightarrow> lfn \<Rightarrow> VfsDirEntry list option" where
  "list_chain max_entries cluster s buf listed l =
    (if fat32_is_end_of_chain cluster \<or> length listed \<ge> max_entries then Some listed
     else do {
       (done, buf', listed', l') \<leftarrow> list_sectors max_entries cluster [0..<unat (fat32_sectors_per_cluster s)] s buf listed l;
       if done then Some listed'
       else do { next \<leftarrow> fat32_read_fat_entry cluster s; list_chain max_entries next s buf' listed' l' }
     })"

definition fat32_readdir :: "string \<Rightarrow> VfsDirEntry list \<Rightarrow> nat \<Rightarrow> fat \<Rightarrow> (int \<times> VfsDirEntry list) option" where
  "fat32_readdir path entries max_entries s =
    (if \<not> fat32_available s then Some (VFS_EIO, entries)
     else do {
       r \<leftarrow> (if path = ''/'' then Some (Inr (fat32_root_cluster s))
             else do {
               found \<leftarrow> fat32_find_root_entry path s;
               Some (case found of
                   None \<Rightarrow> Inl VFS_ENOENT
                 | Some e \<Rightarrow> if \<not> is_directory e then Inl VFS_ENOTDIR else Inr (de_first_cluster e))
             });
       case r of
         Inl err \<Rightarrow> Some (err, entries)
       | Inr cluster \<Rightarrow> do {
           listed \<leftarrow> list_chain max_entries cluster s None [] lfn_start;
           Some (int (length listed), listed @ drop (length listed) entries)
         }
     })"

section \<open>Reading\<close>

text \<open>The clusters before the offset.\<close>
partial_function (option) skip_clusters :: "nat \<Rightarrow> u32 \<Rightarrow> nat \<Rightarrow> fat \<Rightarrow> (u32 \<times> nat) option" where
  "skip_clusters cluster_bytes cluster skip s =
    (if skip \<ge> cluster_bytes \<and> \<not> fat32_is_end_of_chain cluster
     then do { next \<leftarrow> fat32_read_fat_entry cluster s; skip_clusters cluster_bytes next (skip - cluster_bytes) s }
     else Some (cluster, skip))"

text \<open>The sectors of one cluster, for a read of \<open>n\<close> bytes: the bytes to skip, the bytes read, the sector buffer.\<close>
fun read_sectors :: "nat \<Rightarrow> u32 \<Rightarrow> nat list \<Rightarrow> fat \<Rightarrow> nat \<times> u8 list \<times> u8 list option \<Rightarrow> (nat \<times> u8 list \<times> u8 list option) option" where
  "read_sectors n cluster [] s st = Some st"
| "read_sectors n cluster (i # is) s (skip, out, buf) =
    (if length out \<ge> n then Some (skip, out, buf)
     else if skip \<ge> 512 then read_sectors n cluster is s (skip - 512, out, buf)
     else do {
       sector \<leftarrow> read_into (fat32_cluster_to_lba cluster s + of_nat i) buf s;
       let to_copy = min (512 - skip) (n - length out);
       read_sectors n cluster is s (0, out @ take to_copy (drop skip sector), Some sector)
     })"

partial_function (option) read_chain :: "nat \<Rightarrow> u32 \<Rightarrow> fat \<Rightarrow> nat \<times> u8 list \<times> u8 list option \<Rightarrow> u8 list option" where
  "read_chain n cluster s st =
    (if length (fst (snd st)) \<ge> n \<or> fat32_is_end_of_chain cluster then Some (fst (snd st))
     else do {
       st' \<leftarrow> read_sectors n cluster [0..<unat (fat32_sectors_per_cluster s)] s st;
       next \<leftarrow> fat32_read_fat_entry cluster s;
       read_chain n next s st'
     })"

definition cluster_bytes :: "fat \<Rightarrow> nat" where
  "cluster_bytes s = unat (fat32_sectors_per_cluster s) * 512"

text \<open>The byte count is returned as an \<^verbatim>\<open>int\<close>; a negative one is an error to the caller.\<close>
definition count_result :: "u8 list \<Rightarrow> int + u8 list" where
  "count_result out = (let r = signed_take_bit 31 (int (length out)) in if r \<ge> 0 then Inr out else Inl r)"

definition fat32_read :: "string \<Rightarrow> u64 \<Rightarrow> u64 \<Rightarrow> fat \<Rightarrow> (int + u8 list) option" where
  "fat32_read path offset n s =
    (if \<not> fat32_available s then Some (Inl VFS_EIO)
     else do {
       r \<leftarrow> fat32_find_root_entry path s;
       case r of
         None \<Rightarrow> Some (Inl VFS_ENOENT)
       | Some e \<Rightarrow>
           if is_directory e then Some (Inl VFS_EISDIR)
           else if offset \<ge> ucast (de_file_size e) then Some (Inr [])
           else do {
             let avail = unat (de_file_size e) - unat offset;
             let m = (if unat n > avail then avail else unat n);
             (cluster, skip) \<leftarrow> skip_clusters (cluster_bytes s) (de_first_cluster e) (unat offset) s;
             out \<leftarrow> read_chain m cluster s (skip, [], None);
             Some (count_result out)
           }
     })"

section \<open>Writing\<close>

text \<open>The replacement of the first entry of a directory whose 8.3 name is the given one.\<close>
definition entry_named :: "string \<Rightarrow> u8 list \<Rightarrow> bool" where
  "entry_named nm e \<longleftrightarrow> short_name e \<noteq> [] \<and> streq (c_string (short_name e)) nm"

fun update_sectors :: "string \<Rightarrow> u8 list \<Rightarrow> u32 \<Rightarrow> nat list \<Rightarrow> u8 list option \<Rightarrow> fat \<Rightarrow> (bool \<times> fat + u8 list option) option" where
  "update_sectors nm new cluster [] buf s = Some (Inr buf)"
| "update_sectors nm new cluster (i # is) buf s = do {
     let lba = fat32_cluster_to_lba cluster s + of_nat i;
     sector \<leftarrow> read_into lba buf s;
     case first_index (entry_named nm) (sector_entries sector) of
       Some k \<Rightarrow> Some (Inl (ata_write_sector lba (splice (k * 32) new sector) s))
     | None \<Rightarrow> update_sectors nm new cluster is (Some sector) s
   }"

partial_function (option) update_chain :: "string \<Rightarrow> u8 list \<Rightarrow> u32 \<Rightarrow> u8 list option \<Rightarrow> fat \<Rightarrow> (bool \<times> fat) option" where
  "update_chain nm new cluster buf s =
    (if fat32_is_end_of_chain cluster then Some (False, s)
     else do {
       r \<leftarrow> update_sectors nm new cluster [0..<unat (fat32_sectors_per_cluster s)] buf s;
       case r of
         Inl result \<Rightarrow> Some result
       | Inr buf' \<Rightarrow> do { next \<leftarrow> fat32_read_fat_entry cluster s; update_chain nm new next buf' s }
     })"

definition fat32_update_directory_entry :: "u32 \<Rightarrow> string \<Rightarrow> u8 list \<Rightarrow> fat \<Rightarrow> (bool \<times> fat) option" where
  "fat32_update_directory_entry cluster nm new s = update_chain nm new cluster None s"

text \<open>The loop that extends the chain to hold \<open>write_end\<close> bytes; False when the disk is full.\<close>
partial_function (option) expand_chain :: "u64 \<Rightarrow> u32 \<Rightarrow> u64 \<Rightarrow> fat \<Rightarrow> (bool \<times> fat) option" where
  "expand_chain cb current write_end s =
    (if write_end > cb then do {
       next \<leftarrow> fat32_read_fat_entry current s;
       if fat32_is_end_of_chain next then do {
         new_cluster \<leftarrow> fat32_find_free_cluster s;
         if new_cluster = 0 then Some (False, s)
         else
           let s1 = snd (fat32_write_fat_entry current new_cluster s);
               s2 = snd (fat32_write_fat_entry new_cluster 0x0FFFFFFF s1)
           in expand_chain cb new_cluster (write_end - cb) s2
       }
       else expand_chain cb next (write_end - cb) s
     }
     else Some (True, s))"

text \<open>The sectors of one cluster: the bytes to skip, the data still to write, the sector buffer.\<close>
fun write_sectors :: "u32 \<Rightarrow> nat list \<Rightarrow> nat \<times> u8 list \<times> u8 list option \<Rightarrow> fat \<Rightarrow> ((nat \<times> u8 list \<times> u8 list option) \<times> fat) option" where
  "write_sectors cluster [] st s = Some (st, s)"
| "write_sectors cluster (i # is) (skip, data, buf) s =
    (if data = [] then Some ((skip, data, buf), s)
     else if skip \<ge> 512 then write_sectors cluster is (skip - 512, data, buf) s
     else do {
       let lba = fat32_cluster_to_lba cluster s + of_nat i;
       let buf1 = (if skip \<noteq> 0 \<or> length data < 512 then read_into lba buf s else buf);
       let to_copy = min (512 - skip) (length data);
       sector \<leftarrow> (if to_copy = 512 then Some (take 512 data) else map_option (splice skip (take to_copy data)) buf1);
       write_sectors cluster is (0, drop to_copy data, Some sector) (snd (ata_write_sector lba sector s))
     })"

partial_function (option) write_chain :: "u32 \<Rightarrow> nat \<times> u8 list \<times> u8 list option \<Rightarrow> fat \<Rightarrow> (u8 list \<times> fat) option" where
  "write_chain cluster st s =
    (if fst (snd st) = [] \<or> fat32_is_end_of_chain cluster then Some (fst (snd st), s)
     else do {
       (st', s') \<leftarrow> write_sectors cluster [0..<unat (fat32_sectors_per_cluster s)] st s;
       next \<leftarrow> fat32_read_fat_entry cluster s';
       write_chain next st' s'
     })"

definition fat32_write :: "string \<Rightarrow> u64 \<Rightarrow> u8 list \<Rightarrow> fat \<Rightarrow> (int \<times> fat) option" where
  "fat32_write path offset data s =
    (if \<not> fat32_available s then Some (VFS_EIO, s)
     else do {
       r \<leftarrow> fat32_find_root_entry path s;
       case r of
         None \<Rightarrow> Some (VFS_ENOENT, s)
       | Some e \<Rightarrow>
           if is_directory e then Some (VFS_EISDIR, s)
           else do {
             let n = (of_nat (length data) :: u64);
             (room, s1) \<leftarrow> expand_chain (of_nat (cluster_bytes s)) (de_first_cluster e) (offset + n) s;
             if \<not> room then Some (VFS_ENOSPC, s1)
             else do {
               (left, s2) \<leftarrow> write_chain (de_first_cluster e) (unat offset, data, None) s1;
               s3 \<leftarrow> (if offset + n > ucast (de_file_size e)
                 then map_option snd (fat32_update_directory_entry (fat32_root_cluster s2) path
                   (splice 28 (bytes32 (ucast (offset + n))) e) s2)
                 else Some s2);
               Some (signed_take_bit 31 (int (length data - length left)), s3)
             }
           }
     })"

declare find_in_chain.simps [code] list_chain.simps [code] skip_clusters.simps [code] read_chain.simps [code]
  update_chain.simps [code] expand_chain.simps [code] write_chain.simps [code]
  ls_chain.simps [code] cat_chain.simps [code]

section \<open>The backend\<close>

definition fat32_backend :: "fat VfsBackend" where
  "fat32_backend = \<lparr>be_name = ''fat32'',
    be_stat = Some (\<lambda>p out s. map_option (\<lambda>r. (r, s)) (fat32_stat p out s)),
    be_readdir = Some (\<lambda>p es n s. map_option (\<lambda>r. (r, s)) (fat32_readdir p es n s)),
    be_read = Some (\<lambda>p off n s. map_option (\<lambda>r. (r, s)) (fat32_read p off n s)),
    be_write = Some (\<lambda>p off data s. fat32_write p off data s),
    be_mkdir = None, be_create = None, be_unlink = None\<rparr>"

end
