(* ===== verification/Sage_FAT32_Props.thy ===== *)
theory Sage_FAT32_Props
  imports Sage_FAT32
begin

text \<open>
  What the FAT32 driver guarantees: the allocation table behaves as a table of independent 28-bit entries,
  reading returns a slice of the data of a cluster chain, and writing replaces such a slice, which gives the
  law of a storing backend (\<open>healthy_write_then_read\<close>). A chain is described by the list of its clusters
  (\<open>cluster_chain\<close>), and its data is the concatenation of their sectors (\<open>file_data\<close>).
\<close>

section \<open>The allocation table\<close>

definition readable :: "fat \<Rightarrow> u32 \<Rightarrow> bool" where
  "readable s lba \<longleftrightarrow> ata_present s \<and> dev_ok s (lba28 lba) \<and> length (sectors s (lba28 lba)) = 512"

lemma readable_read: "readable s lba \<Longrightarrow> ata_read_sector lba s = Some (sectors s (lba28 lba))"
  by (simp add: readable_def ata_read_sector_def)

lemma readable_write:
  "readable s lba \<Longrightarrow> ata_write_sector lba buf s = (True, s\<lparr>sectors := (sectors s)(lba28 lba := buf)\<rparr>)"
  by (simp add: readable_def ata_write_sector_def)

lemma lba28_small: "lba < 0x10000000 \<Longrightarrow> lba28 lba = lba"
proof -
  assume "lba < 0x10000000"
  then have "unat (take_bit 28 lba) = unat lba"
    by (simp add: take_bit_eq_mod unat_mod word_less_nat_alt)
  then have "take_bit 28 lba = lba" by (simp add: word_unat_eq_iff)
  moreover have "lba AND mask 28 = take_bit 28 lba" by (simp add: take_bit_eq_mask)
  moreover have "(mask 28 :: u32) = 0x0FFFFFFF" by (simp add: mask_eq_exp_minus_1)
  ultimately show ?thesis by (simp add: lba28_def)
qed

lemma fat_place:
  assumes "c < 0x40000000"
  shows "unat (c * 4 div 512) = unat c div 128" "fat_index c = 4 * (unat c mod 128)"
proof -
  have "unat c < 2 ^ 30" using assms by (simp add: word_less_nat_alt)
  then have c4: "unat (c * 4) = unat c * 4" by (simp add: unat_word_ariths)
  then show "unat (c * 4 div 512) = unat c div 128" by (simp add: unat_div)
  have "unat c * 4 mod 512 = 4 * (unat c mod 128)" using mult_mod_right[of 4 "unat c" 128] by (simp add: mult.commute)
  then show "fat_index c = 4 * (unat c mod 128)" using c4 by (simp add: fat_index_def unat_mod)
qed

lemma fat_index_bound: "c < 0x40000000 \<Longrightarrow> fat_index c + 4 \<le> 512"
  using fat_place(2)[of c] by simp

lemma fat_lba_eq_iff:
  assumes "c < 0x40000000" "d < 0x40000000"
  shows "fat_lba c s = fat_lba d s \<longleftrightarrow> unat c div 128 = unat d div 128"
proof -
  have "fat_lba c s = fat_lba d s \<longleftrightarrow> c * 4 div 512 = d * 4 div 512" by (simp add: fat_lba_def)
  also have "\<dots> \<longleftrightarrow> unat (c * 4 div 512) = unat (d * 4 div 512)" by (rule word_unat_eq_iff)
  finally show ?thesis by (simp add: fat_place(1) assms)
qed

lemma fat_index_disjoint:
  assumes "c < 0x40000000" "d < 0x40000000" "c \<noteq> d" "fat_lba c s = fat_lba d s"
  shows "fat_index d + 4 \<le> fat_index c \<or> fat_index c + 4 \<le> fat_index d"
proof -
  have "unat c div 128 = unat d div 128" using assms fat_lba_eq_iff by blast
  moreover have "unat c \<noteq> unat d" using assms(3) by (simp add: word_unat_eq_iff)
  ultimately have "unat c mod 128 \<noteq> unat d mod 128" by (metis div_mult_mod_eq)
  then show ?thesis using fat_place(2)[OF assms(1)] fat_place(2)[OF assms(2)] by linarith
qed

lemma fat_lba_sectors [simp]: "fat_lba c (s\<lparr>sectors := f\<rparr>) = fat_lba c s"
  by (simp add: fat_lba_def)

lemma masked_entry: "((x AND 0xF0000000) OR (v AND 0x0FFFFFFF)) AND 0x0FFFFFFF = (v :: u32) AND 0x0FFFFFFF"
  by (simp add: and.assoc and.left_commute bit.conj_disj_distrib2)

text \<open>
  C37. The allocation table is a table. When \<^verbatim>\<open>fat32_write_fat_entry\<close> stores a value for a cluster, reading that
  entry gives the low 28 bits of the value, the reserved high bits of the word stay, and every other
  entry reads as before.
\<close>
theorem fat_entry_roundtrip:
  assumes "c < 0x40000000" "d < 0x40000000" "fat_lba c s < 0x10000000" "fat_lba d s < 0x10000000" "readable s (fat_lba c s)"
    "fat32_write_fat_entry c v s = (ok, s')"
  shows "ok \<and> fat32_read_fat_entry c s' = Some (v AND 0x0FFFFFFF) \<and>
    le32 (sectors s' (fat_lba c s)) (fat_index c) AND 0xF0000000 = le32 (sectors s (fat_lba c s)) (fat_index c) AND 0xF0000000 \<and>
    (d \<noteq> c \<longrightarrow> fat32_read_fat_entry d s' = fat32_read_fat_entry d s)"
proof -
  let ?l = "fat_lba c s"
  let ?old = "sectors s ?l"
  let ?e = "(le32 ?old (fat_index c) AND 0xF0000000) OR (v AND 0x0FFFFFFF)"
  let ?new = "splice (fat_index c) (bytes32 ?e) ?old"
  have l: "lba28 ?l = ?l" and ld: "lba28 (fat_lba d s) = fat_lba d s" using assms(3,4) by (simp_all add: lba28_small)
  have len: "length ?old = 512" and dev: "ata_present s" "dev_ok s ?l" using assms(5) l by (simp_all add: readable_def)
  have i: "fat_index c + 4 \<le> length ?old" using fat_index_bound[OF assms(1)] len by simp
  have w: "ok" "s' = s\<lparr>sectors := (sectors s)(?l := ?new)\<rparr>"
    using assms(6) readable_read[OF assms(5)] readable_write[OF assms(5)] l by (auto simp: fat32_write_fat_entry_def Let_def)
  have new: "le32 ?new (fat_index c) = ?e" by (rule le32_splice_same[OF i])
  have "fat32_read_fat_entry c s' = Some (v AND 0x0FFFFFFF)"
    using dev new by (simp add: w(2) fat32_read_fat_entry_def ata_read_sector_def l masked_entry)
  moreover have "le32 (sectors s' ?l) (fat_index c) AND 0xF0000000 = le32 ?old (fat_index c) AND 0xF0000000"
    using new by (simp add: w(2) bit.conj_disj_distrib2 and.assoc and.left_commute)
  moreover have "fat32_read_fat_entry d s' = fat32_read_fat_entry d s" if "d \<noteq> c"
  proof (cases "fat_lba d s = ?l")
    case True
    then have "le32 ?new (fat_index d) = le32 ?old (fat_index d)"
      using fat_index_disjoint[OF assms(1,2) that[symmetric], of s] i by (intro le32_splice_other) auto
    with True show ?thesis using dev by (simp add: w(2) fat32_read_fat_entry_def ata_read_sector_def l)
  next
    case False
    then show ?thesis by (simp add: w(2) fat32_read_fat_entry_def ata_read_sector_def ld)
  qed
  ultimately show ?thesis using w(1) by blast
qed

section \<open>Chains and their data\<close>

text \<open>The clusters visited from \<open>c\<close> on, up to the end-of-chain mark.\<close>
fun cluster_chain :: "fat \<Rightarrow> u32 \<Rightarrow> u32 list \<Rightarrow> bool" where
  "cluster_chain s c [] \<longleftrightarrow> fat32_is_end_of_chain c"
| "cluster_chain s c (x # xs) \<longleftrightarrow> x = c \<and> \<not> fat32_is_end_of_chain c \<and>
    (\<exists>n. fat32_read_fat_entry c s = Some n \<and> cluster_chain s n xs)"

abbreviation spc :: "fat \<Rightarrow> nat" where
  "spc s \<equiv> unat (fat32_sectors_per_cluster s)"

definition data_lba :: "fat \<Rightarrow> u32 \<Rightarrow> nat \<Rightarrow> u32" where
  "data_lba s c i = fat32_cluster_to_lba c s + of_nat i"

definition sector_run :: "fat \<Rightarrow> u32 \<Rightarrow> nat list \<Rightarrow> u8 list" where
  "sector_run s c is = concat (map (\<lambda>i. sectors s (lba28 (data_lba s c i))) is)"

definition cluster_data :: "fat \<Rightarrow> u32 \<Rightarrow> u8 list" where
  "cluster_data s c = sector_run s c [0..<spc s]"

definition file_data :: "fat \<Rightarrow> u32 list \<Rightarrow> u8 list" where
  "file_data s cs = concat (map (cluster_data s) cs)"

definition clusters_readable :: "fat \<Rightarrow> u32 list \<Rightarrow> bool" where
  "clusters_readable s cs \<longleftrightarrow> (\<forall>c\<in>set cs. \<forall>i < spc s. readable s (data_lba s c i))"

lemma sector_run_simps [simp]:
  "sector_run s c [] = []" "sector_run s c (i # is) = sectors s (lba28 (data_lba s c i)) @ sector_run s c is"
  by (simp_all add: sector_run_def)

lemma file_data_simps [simp]: "file_data s [] = []" "file_data s (c # cs) = cluster_data s c @ file_data s cs"
  by (simp_all add: file_data_def)

lemma clusters_readable_simps [simp]:
  "clusters_readable s []"
  "clusters_readable s (c # cs) \<longleftrightarrow> (\<forall>i < spc s. readable s (data_lba s c i)) \<and> clusters_readable s cs"
  by (auto simp: clusters_readable_def)

lemma length_sector_run: "\<forall>i\<in>set is. readable s (data_lba s c i) \<Longrightarrow> length (sector_run s c is) = 512 * length is"
  by (induction "is") (auto simp: readable_def)

lemma length_cluster_data: "\<forall>i < spc s. readable s (data_lba s c i) \<Longrightarrow> length (cluster_data s c) = cluster_bytes s"
  by (simp add: cluster_data_def length_sector_run cluster_bytes_def)

lemma length_file_data: "clusters_readable s cs \<Longrightarrow> length (file_data s cs) = cluster_bytes s * length cs"
  by (induction cs) (simp_all add: length_cluster_data)

lemma read_into_readable: "readable s lba \<Longrightarrow> read_into lba buf s = Some (sectors s (lba28 lba))"
  by (simp add: read_into_def readable_read)

section \<open>Reading\<close>

lemma read_sectors_spec:
  assumes "\<forall>i\<in>set is. readable s (data_lba s c i)" "length out \<le> n"
  shows "\<exists>skip' buf'. read_sectors n c is s (skip, out, buf) = Some (skip', take n (out @ drop skip (sector_run s c is)), buf') \<and>
    (length (out @ drop skip (sector_run s c is)) < n \<longrightarrow> skip' = skip - 512 * length is)"
  using assms
proof (induction "is" arbitrary: skip out buf)
  case (Cons i "is")
  let ?sec = "sectors s (lba28 (data_lba s c i))" and ?rest = "sector_run s c is"
  have sec: "length ?sec = 512" "read_into (fat32_cluster_to_lba c s + of_nat i) buf s = Some ?sec"
    using Cons.prems(1) read_into_readable[of s "data_lba s c i" buf] by (auto simp: readable_def data_lba_def)
  consider "length out \<ge> n" | "length out < n" "skip \<ge> 512" | "length out < n" "skip < 512" by linarith
  then show ?case
  proof cases
    case 1
    with Cons.prems(2) show ?thesis by auto
  next
    case 2
    then have "drop skip (?sec @ ?rest) = drop (skip - 512) ?rest" using sec(1) by simp
    with 2 Cons.IH[of out "skip - 512" buf] Cons.prems show ?thesis by simp
  next
    case 3
    define out' where "out' = out @ take (min (512 - skip) (n - length out)) (drop skip ?sec)"
    have out': "out' = take n (out @ drop skip ?sec)" using 3 sec(1) by (simp add: out'_def min_def)
    have step: "read_sectors n c (i # is) s (skip, out, buf) = read_sectors n c is s (0, out', Some ?sec)"
      using 3 sec(2) by (simp add: out'_def Let_def)
    have "take n (out' @ ?rest) = take n (out @ drop skip (?sec @ ?rest))"
      using 3(2) sec(1) by (simp add: out' min_def)
    moreover have "length (out' @ ?rest) < n" if "length (out @ drop skip (?sec @ ?rest)) < n"
      using that 3(2) sec(1) by (simp add: out')
    moreover obtain skip' buf' where "read_sectors n c is s (0, out', Some ?sec) = Some (skip', take n (out' @ ?rest), buf')"
      "length (out' @ ?rest) < n \<longrightarrow> skip' = 0 - 512 * length is"
    proof -
      have "length out' \<le> n" by (simp add: out')
      moreover have "\<forall>i\<in>set is. readable s (data_lba s c i)" using Cons.prems(1) by simp
      ultimately show thesis using that Cons.IH[of out' 0 "Some ?sec"] unfolding drop_0 by blast
    qed
    moreover have "skip - 512 * length (i # is) = 0 - 512 * length is" using 3(2) by simp
    ultimately show ?thesis unfolding step sector_run_simps by metis
  qed
qed auto

lemma take_append_take: "length xs \<ge> n \<Longrightarrow> take n (take n xs @ ys) = take n xs"
  by simp

lemma read_chain_spec:
  assumes "cluster_chain s c cs" "clusters_readable s cs" "length out \<le> n"
  shows "read_chain n c s (skip, out, buf) = Some (take n (out @ drop skip (file_data s cs)))"
  using assms
proof (induction cs arbitrary: c skip out buf)
  case Nil
  then show ?case by (simp add: read_chain.simps)
next
  case (Cons x xs)
  show ?case
  proof (cases "length out \<ge> n")
    case True
    with Cons.prems(3) show ?thesis by (simp add: read_chain.simps)
  next
    case False
    obtain next_c where x: "x = c" "\<not> fat32_is_end_of_chain c" "fat32_read_fat_entry c s = Some next_c" "cluster_chain s next_c xs"
      using Cons.prems(1) by auto
    define D where "D = cluster_data s c"
    define out' where "out' = take n (out @ drop skip D)"
    have "\<forall>i\<in>set [0..<spc s]. readable s (data_lba s c i)" using Cons.prems(2) x(1) by simp
    from read_sectors_spec[OF this Cons.prems(3), of skip buf] obtain skip' buf'
      where r: "read_sectors n c [0..<spc s] s (skip, out, buf) = Some (skip', out', buf')"
        and k: "length (out @ drop skip D) < n \<longrightarrow> skip' = skip - 512 * spc s"
      unfolding out'_def D_def cluster_data_def length_upt by auto
    have "length D = 512 * spc s" using length_cluster_data[of s c] Cons.prems(2) x(1) by (simp add: D_def cluster_bytes_def)
    then have "take n (out' @ drop skip' (file_data s xs)) = take n (out @ drop skip (D @ file_data s xs))"
      using k Cons.prems(3) by (cases "length (out @ drop skip D) < n") (simp_all add: out'_def min_def)
    moreover have "read_chain n c s (skip, out, buf) = read_chain n next_c s (skip', out', buf')"
      using False x r by (subst read_chain.simps) simp
    moreover have "length out' \<le> n" by (simp add: out'_def)
    ultimately show ?thesis using Cons.IH[OF x(4), of out' skip' buf'] Cons.prems(2) x(1) by (simp add: D_def)
  qed
qed

lemma skip_clusters_spec:
  assumes "cluster_chain s c cs" "clusters_readable s cs" "0 < spc s"
  shows "\<exists>c' skip' cs'. skip_clusters (cluster_bytes s) c skip s = Some (c', skip') \<and> cluster_chain s c' cs' \<and>
    clusters_readable s cs' \<and> drop skip' (file_data s cs') = drop skip (file_data s cs)"
  using assms(1,2)
proof (induction cs arbitrary: c skip)
  case Nil
  then show ?case by (intro exI[of _ c] exI[of _ skip] exI[of _ "[]"]) (simp add: skip_clusters.simps)
next
  case (Cons x xs)
  obtain n where x: "x = c" "\<not> fat32_is_end_of_chain c" "fat32_read_fat_entry c s = Some n" "cluster_chain s n xs"
    using Cons.prems(1) by auto
  show ?case
  proof (cases "skip \<ge> cluster_bytes s")
    case True
    have "drop skip (file_data s (x # xs)) = drop (skip - cluster_bytes s) (file_data s xs)"
      using True length_cluster_data[of s c] Cons.prems(2) x(1) by simp
    moreover have "skip_clusters (cluster_bytes s) c skip s = skip_clusters (cluster_bytes s) n (skip - cluster_bytes s) s"
      using True x by (subst skip_clusters.simps) simp
    ultimately show ?thesis using Cons.IH[OF x(4), of "skip - cluster_bytes s"] Cons.prems(2) by simp
  next
    case False
    then have "skip_clusters (cluster_bytes s) c skip s = Some (c, skip)" by (subst skip_clusters.simps) simp
    with Cons.prems show ?thesis by blast
  qed
qed

lemma fat32_read_file:
  assumes "fat32_available s" "fat32_find_root_entry path s = Some (Some e)" "\<not> is_directory e"
    "cluster_chain s (de_first_cluster e) cs" "clusters_readable s cs" "0 < spc s"
    "unat (de_file_size e) \<le> length (file_data s cs)" "unat (de_file_size e) < 2 ^ 31"
  shows "fat32_read path off n s =
    Some (Inr (take (unat n) (drop (unat off) (take (unat (de_file_size e)) (file_data s cs)))))"
proof (cases "off \<ge> ucast (de_file_size e)")
  case True
  then have "unat off \<ge> unat (de_file_size e)" by (simp add: word_le_nat_alt)
  with True assms(1-3) show ?thesis by (simp add: fat32_read_def)
next
  case False
  let ?z = "unat (de_file_size e)" and ?D = "file_data s cs"
  let ?m = "if unat n > ?z - unat off then ?z - unat off else unat n"
  have off: "unat off < ?z" using False by (simp add: word_le_nat_alt)
  obtain c' skip' cs' where sk: "skip_clusters (cluster_bytes s) (de_first_cluster e) (unat off) s = Some (c', skip')"
    "cluster_chain s c' cs'" "clusters_readable s cs'" "drop skip' (file_data s cs') = drop (unat off) ?D"
    using skip_clusters_spec[OF assms(4-6), of "unat off"] by blast
  have "read_chain ?m c' s (skip', [], None) = Some (take ?m (drop (unat off) ?D))"
    using read_chain_spec[OF sk(2,3), of "[]" ?m skip' None] sk(4) by simp
  moreover have "take ?m (drop (unat off) ?D) = take (unat n) (drop (unat off) (take ?z ?D))"
    by (simp add: drop_take min_def)
  moreover have "length (take (unat n) (drop (unat off) (take ?z ?D))) < 2 ^ 31" using assms(8) by simp
  then have "count_result (take (unat n) (drop (unat off) (take ?z ?D))) = Inr (take (unat n) (drop (unat off) (take ?z ?D)))"
    by (simp add: count_result_def Let_def signed_take_bit_int_eq_self)
  ultimately show ?thesis using assms(1-3) False sk(1) by (simp add: fat32_read_def Let_def)
qed

text \<open>
  C9. Reading a file. For a file whose cluster chain is readable and long enough for its recorded size,
  \<^verbatim>\<open>fat32_read\<close> terminates and returns exactly the bytes of the file, cut to its size, from the offset
  on, at most as many as were asked for; beyond the end it returns none.
\<close>
theorem fat32_read_slice:
  assumes "fat32_available s" "fat32_find_root_entry path s = Some (Some e)" "\<not> is_directory e"
    "cluster_chain s (de_first_cluster e) cs" "clusters_readable s cs" "0 < spc s"
    "unat (de_file_size e) \<le> length (file_data s cs)" "unat (de_file_size e) < 2 ^ 31"
  shows "fat32_read path off n s =
    Some (Inr (take (unat n) (drop (unat off) (take (unat (de_file_size e)) (file_data s cs)))))"
  using assms by (rule fat32_read_file)

text \<open>Printing a file reads the same bytes.\<close>
lemma cat_sectors_spec:
  assumes "\<forall>i\<in>set is. readable s (data_lba s c i)"
  shows "\<exists>buf'. cat_sectors c is s (n, out, buf) =
    Some (n - 512 * length is, out @ map byte_char (take n (sector_run s c is)), buf')"
  using assms
proof (induction "is" arbitrary: n out buf)
  case (Cons i "is")
  let ?sec = "sectors s (lba28 (data_lba s c i))"
  have sec: "length ?sec = 512" "read_into (data_lba s c i) buf s = Some ?sec"
    using Cons.prems read_into_readable by (simp_all add: readable_def)
  show ?case
  proof (cases "n = 0")
    case False
    let ?k = "if n < 512 then n else 512"
    have "cat_sectors c (i # is) s (n, out, buf) = cat_sectors c is s (n - ?k, out @ map byte_char (take ?k ?sec), Some ?sec)"
      using False sec(2) by (simp add: Let_def data_lba_def)
    moreover have "take ?k ?sec @ take (n - ?k) (sector_run s c is) = take n (sector_run s c (i # is))" using sec(1) by simp
    then have "map byte_char (take ?k ?sec) @ map byte_char (take (n - ?k) (sector_run s c is)) =
        map byte_char (take n (sector_run s c (i # is)))" by (metis map_append)
    moreover have "n - ?k - 512 * length is = n - 512 * length (i # is)" by simp
    ultimately show ?thesis
      using Cons.IH[of "n - ?k" "out @ map byte_char (take ?k ?sec)" "Some ?sec"] Cons.prems by (metis append.assoc list.set_intros(2))
  qed simp
qed simp

lemma cat_chain_spec:
  assumes "cluster_chain s c cs" "clusters_readable s cs"
  shows "cat_chain c s (n, out, buf) = Some (out @ map byte_char (take n (file_data s cs)))"
  using assms
proof (induction cs arbitrary: c n out buf)
  case Nil
  then show ?case by (simp add: cat_chain.simps)
next
  case (Cons x xs)
  show ?case
  proof (cases "n = 0")
    case True
    then show ?thesis by (simp add: cat_chain.simps)
  next
    case False
    obtain m where x: "x = c" "\<not> fat32_is_end_of_chain c" "fat32_read_fat_entry c s = Some m" "cluster_chain s m xs"
      using Cons.prems(1) by auto
    have rd: "\<forall>i\<in>set [0..<spc s]. readable s (data_lba s c i)" "length (cluster_data s c) = 512 * spc s"
      using Cons.prems(2) x(1) length_cluster_data[of s c] by (simp_all add: cluster_bytes_def mult.commute)
    obtain buf' where "cat_sectors c [0..<spc s] s (n, out, buf) =
        Some (n - 512 * spc s, out @ map byte_char (take n (cluster_data s c)), buf')"
      using cat_sectors_spec[OF rd(1), of n out buf] by (auto simp: cluster_data_def)
    then have "cat_chain c s (n, out, buf) = cat_chain m s (n - 512 * spc s, out @ map byte_char (take n (cluster_data s c)), buf')"
      using False x by (subst cat_chain.simps) simp
    then show ?thesis using Cons.IH[OF x(4)] Cons.prems(2) x(1) rd(2) by simp
  qed
qed

theorem fat32_cat_prints_file:
  assumes "fat32_available s" "fat32_find_root_entry path s = Some (Some e)" "\<not> is_directory e"
    "cluster_chain s (de_first_cluster e) cs" "clusters_readable s cs"
  shows "fat32_cat path s = Some (True, CHR 0x0A # map byte_char (take (unat (de_file_size e)) (file_data s cs)))"
  using assms by (simp add: fat32_cat_def cat_chain_spec)

section \<open>Writing\<close>

text \<open>What \<open>data\<close> written after \<open>skip\<close> bytes makes of a region that may end before the data does.\<close>
definition overlay :: "nat \<Rightarrow> u8 list \<Rightarrow> u8 list \<Rightarrow> u8 list" where
  "overlay skip data D = take skip D @ take (length D - skip) data @ drop (skip + length data) D"

lemma overlay_Nil [simp]: "overlay skip [] D = D"
  by (simp add: overlay_def)

lemma overlay_skip: "length D \<le> skip \<Longrightarrow> overlay skip data D = D"
  by (simp add: overlay_def)

lemma overlay_append:
  "overlay skip data (A @ B) = overlay skip data A @ overlay (skip - length A) (drop (length A - skip) data) B"
proof (cases "length A \<le> skip")
  case True
  then show ?thesis by (simp add: overlay_def add.commute)
next
  case False
  then have "length A + length B - skip = (length A - skip) + length B" by simp
  then have "take (length A + length B - skip) data = take (length A - skip) data @ take (length B) (drop (length A - skip) data)"
    by (simp only: take_add)
  moreover have "drop (length A - skip) data = [] \<or> drop (skip + length data) A = []" by auto
  ultimately show ?thesis using False by (auto simp: overlay_def add.commute)
qed

lemma overlay_fits: "skip + length data \<le> length D \<Longrightarrow> overlay skip data D = splice skip data D"
  by (simp add: overlay_def splice_def)

lemma length_overlay [simp]: "length (overlay skip data D) = length D"
  by (auto simp: overlay_def)

text \<open>A write changes only the sectors given, and these keep their size.\<close>
definition only_sectors :: "u32 set \<Rightarrow> fat \<Rightarrow> fat \<Rightarrow> bool" where
  "only_sectors L s s' \<longleftrightarrow> s' = s\<lparr>sectors := sectors s'\<rparr> \<and> (\<forall>x. x \<notin> L \<longrightarrow> sectors s' x = sectors s x) \<and>
    (\<forall>x. length (sectors s x) = 512 \<longrightarrow> length (sectors s' x) = 512)"

lemma only_sectors_refl: "only_sectors L s s"
  by (simp add: only_sectors_def)

lemma only_sectors_trans:
  "only_sectors L s s1 \<Longrightarrow> only_sectors M s1 s2 \<Longrightarrow> only_sectors (L \<union> M) s s2"
  unfolding only_sectors_def by (metis (no_types, lifting) UnI1 UnI2 fat.surjective fat.update_convs(3))

lemma only_sectors_mono: "only_sectors L s s' \<Longrightarrow> L \<subseteq> M \<Longrightarrow> only_sectors M s s'"
  by (auto simp: only_sectors_def)

lemma only_sectors_fields:
  assumes "only_sectors L s s'"
  shows "fat32_cluster_to_lba c s' = fat32_cluster_to_lba c s" "data_lba s' c i = data_lba s c i" "fat_lba c s' = fat_lba c s"
    "fat32_sectors_per_cluster s' = fat32_sectors_per_cluster s" "ata_present s' = ata_present s" "dev_ok s' = dev_ok s"
    "fat32_root_cluster s' = fat32_root_cluster s" "cluster_bytes s' = cluster_bytes s"
proof -
  obtain f where s': "s' = s\<lparr>sectors := f\<rparr>" using assms unfolding only_sectors_def by blast
  show "fat32_cluster_to_lba c s' = fat32_cluster_to_lba c s" "data_lba s' c i = data_lba s c i" "fat_lba c s' = fat_lba c s"
    "fat32_sectors_per_cluster s' = fat32_sectors_per_cluster s" "ata_present s' = ata_present s" "dev_ok s' = dev_ok s"
    "fat32_root_cluster s' = fat32_root_cluster s" "cluster_bytes s' = cluster_bytes s"
    by (simp_all add: s' fat32_cluster_to_lba_def data_lba_def fat_lba_def cluster_bytes_def)
qed

lemma only_sectors_readable: "only_sectors L s s' \<Longrightarrow> readable s lba \<Longrightarrow> readable s' lba"
  by (simp add: readable_def only_sectors_fields(5,6)) (simp add: only_sectors_def)

lemma only_sectors_write:
  "length buf = 512 \<Longrightarrow> only_sectors {lba28 lba} s (snd (ata_write_sector lba buf s))"
  by (simp add: only_sectors_def ata_write_sector_def)

lemma only_sectors_entry:
  assumes "only_sectors L s s'" "lba28 (fat_lba c s) \<notin> L"
  shows "fat32_read_fat_entry c s' = fat32_read_fat_entry c s"
  using assms only_sectors_fields[OF assms(1)] by (simp add: fat32_read_fat_entry_def ata_read_sector_def only_sectors_def)

lemma only_sectors_run:
  assumes "only_sectors L s s'" "\<forall>i\<in>set is. lba28 (data_lba s c i) \<notin> L"
  shows "sector_run s' c is = sector_run s c is"
  using assms only_sectors_fields(2)[OF assms(1)] by (simp add: sector_run_def only_sectors_def cong: map_cong)

definition run_lbas :: "fat \<Rightarrow> u32 \<Rightarrow> nat list \<Rightarrow> u32 list" where
  "run_lbas s c is = map (\<lambda>i. lba28 (data_lba s c i)) is"

lemma write_one_sector:
  assumes "readable s lba" "data \<noteq> []" "skip < 512"
  shows "(if min (512 - skip) (length data) = 512 then Some (take 512 data)
      else map_option (splice skip (take (min (512 - skip) (length data)) data))
        (if skip \<noteq> 0 \<or> length data < 512 then read_into lba buf s else buf)) =
    Some (overlay skip data (sectors s (lba28 lba)))"
proof -
  let ?D = "sectors s (lba28 lba)"
  have D: "length ?D = 512" "read_into lba buf s = Some ?D" using assms(1) read_into_readable by (simp_all add: readable_def)
  show ?thesis
  proof (cases "skip = 0 \<and> length data \<ge> 512")
    case True
    then show ?thesis using D by (simp add: overlay_def)
  next
    case False
    then have "splice skip (take (min (512 - skip) (length data)) data) ?D = overlay skip data ?D"
      using assms(3) D(1) by (auto simp: splice_def overlay_def min_def)
    with False assms(3) D show ?thesis by (auto simp: min_def)
  qed
qed

lemma write_sectors_spec:
  assumes "\<forall>i\<in>set is. readable s (data_lba s c i)" "distinct (run_lbas s c is)"
  shows "\<exists>skip' buf' s'. write_sectors c is (skip, data, buf) s = Some ((skip', drop (512 * length is - skip) data, buf'), s') \<and>
    only_sectors (set (run_lbas s c is)) s s' \<and> sector_run s' c is = overlay skip data (sector_run s c is) \<and>
    (drop (512 * length is - skip) data \<noteq> [] \<longrightarrow> skip' = skip - 512 * length is)"
  using assms
proof (induction "is" arbitrary: skip data buf s)
  case Nil
  show ?case by (auto simp: only_sectors_refl overlay_skip)
next
  case (Cons i "is")
  let ?lba = "data_lba s c i"
  let ?sec = "sectors s (lba28 ?lba)" and ?rest = "sector_run s c is"
  have rd: "readable s ?lba" "\<forall>i\<in>set is. readable s (data_lba s c i)" "distinct (run_lbas s c is)" "lba28 ?lba \<notin> set (run_lbas s c is)"
    using Cons.prems by (auto simp: run_lbas_def)
  have sec: "length ?sec = 512" using rd(1) by (simp add: readable_def)
  consider "data = []" | "data \<noteq> []" "skip \<ge> 512" | "data \<noteq> []" "skip < 512" by linarith
  then show ?case
  proof cases
    case 1
    then show ?thesis by (auto simp: only_sectors_refl)
  next
    case 2
    obtain skip' buf' s' where ih: "write_sectors c is (skip - 512, data, buf) s = Some ((skip', drop (512 * length is - (skip - 512)) data, buf'), s')"
      "only_sectors (set (run_lbas s c is)) s s'" "sector_run s' c is = overlay (skip - 512) data ?rest"
      "drop (512 * length is - (skip - 512)) data \<noteq> [] \<longrightarrow> skip' = skip - 512 - 512 * length is"
      using Cons.IH[OF rd(2,3), of "skip - 512" data buf] by blast
    have "sectors s' (lba28 (data_lba s' c i)) = ?sec"
      using ih(2) rd(4) only_sectors_fields(2)[OF ih(2)] by (simp add: only_sectors_def)
    then have "sector_run s' c (i # is) = overlay skip data (sector_run s c (i # is))"
      using ih(3) 2(2) sec by (simp add: overlay_append overlay_skip)
    moreover have "only_sectors (set (run_lbas s c (i # is))) s s'"
      using ih(2) by (rule only_sectors_mono) (auto simp: run_lbas_def)
    moreover have "512 * length (i # is) - skip = 512 * length is - (skip - 512)" using 2 by simp
    moreover have "write_sectors c (i # is) (skip, data, buf) s = write_sectors c is (skip - 512, data, buf) s" using 2 by simp
    ultimately show ?thesis using ih(1,4) by (intro exI[of _ skip'] exI[of _ buf'] exI[of _ s']) simp
  next
    case 3
    define new where "new = overlay skip data ?sec"
    define s1 where "s1 = snd (ata_write_sector ?lba new s)"
    let ?k = "min (512 - skip) (length data)"
    have step: "write_sectors c (i # is) (skip, data, buf) s = write_sectors c is (0, drop ?k data, Some new) s1"
      unfolding new_def s1_def write_sectors.simps Let_def data_lba_def[symmetric] write_one_sector[OF rd(1) 3] using 3 by simp
    have o1: "only_sectors {lba28 ?lba} s s1" unfolding s1_def by (rule only_sectors_write) (simp add: new_def sec)
    have at: "sectors s1 (lba28 ?lba) = new" using readable_write[OF rd(1)] by (simp add: s1_def)
    have rest1: "sector_run s1 c is = ?rest"
      by (rule only_sectors_run[OF o1]) (use rd(4) in \<open>metis (no_types, lifting) image_eqI list.set_map run_lbas_def singletonD\<close>)
    have l1: "run_lbas s1 c is = run_lbas s c is" by (simp add: run_lbas_def only_sectors_fields(2)[OF o1])
    have "\<forall>i\<in>set is. readable s1 (data_lba s1 c i)"
      using rd(2) only_sectors_readable[OF o1] by (simp add: only_sectors_fields(2)[OF o1])
    then obtain skip' buf' s' where ih: "write_sectors c is (0, drop ?k data, Some new) s1 =
        Some ((skip', drop (512 * length is) (drop ?k data), buf'), s')"
      "only_sectors (set (run_lbas s c is)) s1 s'" "sector_run s' c is = overlay 0 (drop ?k data) ?rest"
      "drop (512 * length is) (drop ?k data) \<noteq> [] \<longrightarrow> skip' = 0"
      using Cons.IH[of s1 0 "drop ?k data" "Some new"] rd(3) unfolding l1 rest1 by auto
    have kd: "drop ?k data = drop (512 - skip) data" by (simp add: min_def)
    have "sectors s' (lba28 (data_lba s' c i)) = new"
      using ih(2) rd(4) at only_sectors_fields(2)[OF ih(2)] only_sectors_fields(2)[OF o1] by (simp add: only_sectors_def)
    then have "sector_run s' c (i # is) = overlay skip data (sector_run s c (i # is))"
      using ih(3) 3(2) sec by (simp add: overlay_append new_def kd)
    moreover have "only_sectors (set (run_lbas s c (i # is))) s s'"
      using only_sectors_trans[OF o1 ih(2)] by (simp add: run_lbas_def)
    moreover have "drop (512 * length is) (drop ?k data) = drop (512 * length (i # is) - skip) data"
      using 3(2) by (simp add: kd) (metis Nat.add_diff_assoc add.commute less_imp_le)
    ultimately show ?thesis using step ih(1,4) 3(2) by (intro exI[of _ skip'] exI[of _ buf'] exI[of _ s']) simp
  qed
qed

lemma cluster_data_overlay:
  assumes "\<forall>i < spc s. readable s (data_lba s c i)" "distinct (run_lbas s c [0..<spc s])"
  shows "\<exists>skip' buf' s'. write_sectors c [0..<spc s] (skip, data, buf) s =
      Some ((skip', drop (cluster_bytes s - skip) data, buf'), s') \<and>
    only_sectors (set (run_lbas s c [0..<spc s])) s s' \<and> cluster_data s' c = overlay skip data (cluster_data s c) \<and>
    (drop (cluster_bytes s - skip) data \<noteq> [] \<longrightarrow> skip' = skip - cluster_bytes s)"
proof -
  have "\<forall>i\<in>set [0..<spc s]. readable s (data_lba s c i)" using assms(1) by simp
  from write_sectors_spec[OF this assms(2), of skip data buf] obtain skip' buf' s' where
    w: "write_sectors c [0..<spc s] (skip, data, buf) s = Some ((skip', drop (cluster_bytes s - skip) data, buf'), s')"
    "only_sectors (set (run_lbas s c [0..<spc s])) s s'" "sector_run s' c [0..<spc s] = overlay skip data (cluster_data s c)"
    "drop (cluster_bytes s - skip) data \<noteq> [] \<longrightarrow> skip' = skip - cluster_bytes s"
    unfolding length_upt cluster_data_def cluster_bytes_def by (auto simp: mult.commute)
  moreover have "cluster_data s' c = sector_run s' c [0..<spc s]"
    by (simp add: cluster_data_def only_sectors_fields(4)[OF w(2)])
  ultimately show ?thesis by auto
qed

text \<open>The data sectors of a list of clusters; they are laid out soundly when no two coincide and none holds the clusters' table entries.\<close>
definition file_lbas :: "fat \<Rightarrow> u32 list \<Rightarrow> u32 list" where
  "file_lbas s cs = concat (map (\<lambda>c. run_lbas s c [0..<spc s]) cs)"

definition sound_layout :: "fat \<Rightarrow> u32 list \<Rightarrow> bool" where
  "sound_layout s cs \<longleftrightarrow> distinct (file_lbas s cs) \<and> (\<forall>c\<in>set cs. lba28 (fat_lba c s) \<notin> set (file_lbas s cs))"

lemma file_lbas_Cons [simp]: "file_lbas s (c # cs) = run_lbas s c [0..<spc s] @ file_lbas s cs"
  by (simp add: file_lbas_def)

lemma only_sectors_lbas: "only_sectors L s s' \<Longrightarrow> file_lbas s' cs = file_lbas s cs"
  by (simp add: file_lbas_def run_lbas_def only_sectors_fields(2,4))

lemma only_sectors_chain:
  assumes "only_sectors L s s'" "\<forall>c\<in>set cs. lba28 (fat_lba c s) \<notin> L"
  shows "cluster_chain s' c cs = cluster_chain s c cs"
  using assms(2) by (induction cs arbitrary: c) (auto simp: only_sectors_entry[OF assms(1)])

lemma only_sectors_clusters_readable: "only_sectors L s s' \<Longrightarrow> clusters_readable s cs \<Longrightarrow> clusters_readable s' cs"
  by (simp add: clusters_readable_def only_sectors_fields(2,4) only_sectors_readable)

lemma only_sectors_cluster_data:
  assumes "only_sectors L s s'" "set (run_lbas s c [0..<spc s]) \<inter> L = {}"
  shows "cluster_data s' c = cluster_data s c"
proof -
  have "\<forall>i\<in>set [0..<spc s]. lba28 (data_lba s c i) \<notin> L" using assms(2) by (auto simp: run_lbas_def)
  from only_sectors_run[OF assms(1) this] show ?thesis
    by (simp add: cluster_data_def only_sectors_fields(4)[OF assms(1)])
qed

lemma only_sectors_file_data:
  assumes "only_sectors L s s'" "set (file_lbas s cs) \<inter> L = {}"
  shows "file_data s' cs = file_data s cs"
  using assms(2) by (induction cs) (auto simp: only_sectors_cluster_data[OF assms(1)] Int_Un_distrib2)

lemma sound_layout_Cons:
  assumes "sound_layout s (c # cs)"
  shows "distinct (run_lbas s c [0..<spc s])" "sound_layout s cs"
    "set (run_lbas s c [0..<spc s]) \<inter> set (file_lbas s cs) = {}" "lba28 (fat_lba c s) \<notin> set (run_lbas s c [0..<spc s])"
    "\<forall>x\<in>set cs. lba28 (fat_lba x s) \<notin> set (run_lbas s c [0..<spc s])"
  using assms by (auto simp: sound_layout_def)

lemma write_chain_spec:
  assumes "cluster_chain s c cs" "clusters_readable s cs" "sound_layout s cs"
  shows "\<exists>s'. write_chain c (skip, data, buf) s = Some (drop (length (file_data s cs) - skip) data, s') \<and>
    only_sectors (set (file_lbas s cs)) s s' \<and> file_data s' cs = overlay skip data (file_data s cs)"
  using assms
proof (induction cs arbitrary: c skip data buf s)
  case Nil
  then show ?case by (auto simp: write_chain.simps only_sectors_refl overlay_skip)
next
  case (Cons x xs)
  note lay = sound_layout_Cons[OF Cons.prems(3)]
  obtain n where x: "x = c" "\<not> fat32_is_end_of_chain c" "fat32_read_fat_entry c s = Some n" "cluster_chain s n xs"
    using Cons.prems(1) by auto
  have rd: "\<forall>i < spc s. readable s (data_lba s c i)" "clusters_readable s xs" using Cons.prems(2) x(1) by simp_all
  let ?L = "set (run_lbas s c [0..<spc s])" and ?cb = "cluster_bytes s"
  have len: "length (cluster_data s c) = ?cb" by (rule length_cluster_data[OF rd(1)])
  show ?case
  proof (cases "data = []")
    case True
    then show ?thesis by (auto simp: write_chain.simps only_sectors_refl)
  next
    case False
    obtain skip1 buf1 s1 where w: "write_sectors c [0..<spc s] (skip, data, buf) s = Some ((skip1, drop (?cb - skip) data, buf1), s1)"
      "only_sectors ?L s s1" "cluster_data s1 c = overlay skip data (cluster_data s c)"
      "drop (?cb - skip) data \<noteq> [] \<longrightarrow> skip1 = skip - ?cb"
      using cluster_data_overlay[OF rd(1), of skip data buf] lay(1) x(1) by blast
    have lb: "file_lbas s1 xs = file_lbas s xs" by (rule only_sectors_lbas[OF w(2)])
    have fd: "file_data s1 xs = file_data s xs" by (rule only_sectors_file_data[OF w(2)]) (use lay(3) x(1) in blast)
    have ch: "cluster_chain s1 n xs" using only_sectors_chain[OF w(2)] lay(5) x(1,4) by simp
    have "sound_layout s1 xs" using lay(2) by (simp add: sound_layout_def lb only_sectors_fields(3)[OF w(2)])
    then obtain s' where ih: "write_chain n (skip1, drop (?cb - skip) data, buf1) s1 =
        Some (drop (length (file_data s xs) - skip1) (drop (?cb - skip) data), s')"
      "only_sectors (set (file_lbas s xs)) s1 s'" "file_data s' xs = overlay skip1 (drop (?cb - skip) data) (file_data s xs)"
      using Cons.IH[OF ch only_sectors_clusters_readable[OF w(2) rd(2)]] unfolding lb fd by blast
    have step: "write_chain c (skip, data, buf) s = write_chain n (skip1, drop (?cb - skip) data, buf1) s1"
      using False x w(1) only_sectors_entry[OF w(2), of c] lay(4) by (subst write_chain.simps) simp
    have "cluster_data s' c = cluster_data s1 c"
    proof (rule only_sectors_cluster_data[OF ih(2)])
      have "run_lbas s1 c [0..<spc s1] = run_lbas s c [0..<spc s]"
        by (simp add: run_lbas_def only_sectors_fields(2,4)[OF w(2)])
      then show "set (run_lbas s1 c [0..<spc s1]) \<inter> set (file_lbas s xs) = {}" using lay(3) x(1) by simp
    qed
    moreover have "overlay skip1 (drop (?cb - skip) data) (file_data s xs) = overlay (skip - ?cb) (drop (?cb - skip) data) (file_data s xs)"
      using w(4) by (cases "drop (?cb - skip) data = []") (auto simp del: drop_eq_Nil)
    ultimately have "file_data s' (x # xs) = overlay skip data (file_data s (x # xs))"
      using w(3) ih(3) x(1) by (simp add: overlay_append len)
    moreover have "drop (length (file_data s xs) - skip1) (drop (?cb - skip) data) = drop (length (file_data s (x # xs)) - skip) data"
    proof (cases "drop (?cb - skip) data = []")
      case True
      then show ?thesis using x(1) len by simp
    next
      case ne: False
      have "length (file_data s xs) - (skip - ?cb) + (?cb - skip) = ?cb + length (file_data s xs) - skip \<or> skip > ?cb" by linarith
      then show ?thesis using w(4) ne x(1) len by (auto simp: add.commute)
    qed
    moreover have "only_sectors (set (file_lbas s (x # xs))) s s'" using only_sectors_trans[OF w(2) ih(2)] x(1) by simp
    ultimately show ?thesis using step ih(1) by (intro exI[of _ s']) simp
  qed
qed

lemma expand_chain_enough:
  assumes "cluster_chain s c cs" "cs \<noteq> []" "unat w \<le> unat cb * length cs"
  shows "expand_chain cb c w s = Some (True, s)"
  using assms
proof (induction cs arbitrary: c w)
  case (Cons x xs)
  show ?case
  proof (cases "w > cb")
    case True
    obtain n where x: "x = c" "\<not> fat32_is_end_of_chain c" "fat32_read_fat_entry c s = Some n" "cluster_chain s n xs"
      using Cons.prems(1) by auto
    have w: "unat w > unat cb" using True by (simp add: word_less_nat_alt)
    then have "xs \<noteq> []" using Cons.prems(3) by auto
    moreover have "unat (w - cb) = unat w - unat cb" using w by (simp add: unat_sub word_le_nat_alt)
    then have "unat (w - cb) \<le> unat cb * length xs" using Cons.prems(3) by simp
    ultimately have "expand_chain cb n (w - cb) s = Some (True, s)" using Cons.IH[OF x(4)] by simp
    moreover have "\<not> fat32_is_end_of_chain n" using x(4) \<open>xs \<noteq> []\<close> by (cases xs) auto
    ultimately show ?thesis using True x(3) by (subst expand_chain.simps) simp
  qed (simp add: expand_chain.simps)
qed simp

text \<open>The size update looks for an entry whose 8.3 name is the whole path, slash included.\<close>
lemma entry_named_slash:
  assumes "e ! 0 \<noteq> 0x2F" "e \<noteq> []"
  shows "\<not> entry_named (CHR ''/'' # p) e"
proof
  assume named: "entry_named (CHR ''/'' # p) e"
  then obtain b bs where sn: "short_name e = b # bs" "b \<noteq> 0" "upper (char_of (unat b)) = CHR ''/''"
    by (cases "short_name e") (auto simp: entry_named_def c_string_def upper_def split: if_splits)
  obtain x xs where e: "e = x # xs" using assms(2) by (cases e) auto
  have "b = x \<or> b = 0x2E" using sn(1) by (auto simp: short_name_def e split: if_splits)
  moreover have "b = 0x2F"
  proof -
    let ?c = "char_of (unat b) :: char"
    have b: "of_char ?c = unat b" using u8_bound[of b] by simp
    have "?c = CHR ''/''"
    proof (cases "97 \<le> unat b \<and> unat b \<le> 122")
      case True
      then have "unat b - 32 < 256" by linarith
      then have "(of_char (char_of (unat b - 32)) :: nat) = unat b - 32" by (simp only: of_char_of mod_less)
      moreover have "char_of (unat b - 32) = CHR ''/''" using sn(3) True b by (simp add: upper_def)
      ultimately have "unat b - 32 = 47" by simp
      with True have False by linarith
      then show ?thesis ..
    next
      case False
      with sn(3) b show ?thesis by (auto simp: upper_def Let_def)
    qed
    then have "unat b = 47" using b by simp
    then show ?thesis by (simp add: word_unat_eq_iff)
  qed
  ultimately show False using assms(1) e by simp
qed

definition no_slash_names :: "fat \<Rightarrow> u32 list \<Rightarrow> bool" where
  "no_slash_names s rs \<longleftrightarrow>
    (\<forall>c\<in>set rs. \<forall>i < spc s. \<forall>e\<in>set (sector_entries (sectors s (lba28 (data_lba s c i)))). e ! 0 \<noteq> 0x2F)"

lemma update_sectors_slash:
  assumes "\<forall>i\<in>set is. readable s (data_lba s c i)"
    "\<forall>i\<in>set is. \<forall>e\<in>set (sector_entries (sectors s (lba28 (data_lba s c i)))). e ! 0 \<noteq> 0x2F"
  shows "\<exists>buf'. update_sectors (CHR ''/'' # p) new c is buf s = Some (Inr buf')"
  using assms
proof (induction "is" arbitrary: buf)
  case (Cons i "is")
  let ?sec = "sectors s (lba28 (data_lba s c i))"
  have rd: "readable s (data_lba s c i)" using Cons.prems(1) by simp
  then have "length ?sec = 512" by (simp add: readable_def)
  then have "\<forall>e\<in>set (sector_entries ?sec). e \<noteq> []" by (auto simp: sector_entries_def)
  then have none: "first_index (entry_named (CHR ''/'' # p)) (sector_entries ?sec) = None"
    using Cons.prems(2) by (simp add: entry_named_slash)
  have "update_sectors (CHR ''/'' # p) new c (i # is) buf s = update_sectors (CHR ''/'' # p) new c is (Some ?sec) s"
    unfolding update_sectors.simps Let_def data_lba_def[symmetric] read_into_readable[OF rd] none by (simp add: none)
  then show ?case using Cons.IH[of "Some ?sec"] Cons.prems by simp
qed simp

lemma update_chain_slash:
  assumes "cluster_chain s c rs" "clusters_readable s rs" "no_slash_names s rs"
  shows "update_chain (CHR ''/'' # p) new c buf s = Some (False, s)"
  using assms
proof (induction rs arbitrary: c buf)
  case Nil
  then show ?case by (simp add: update_chain.simps)
next
  case (Cons x xs)
  obtain n where x: "x = c" "\<not> fat32_is_end_of_chain c" "fat32_read_fat_entry c s = Some n" "cluster_chain s n xs"
    using Cons.prems(1) by auto
  obtain buf' where "update_sectors (CHR ''/'' # p) new c [0..<spc s] buf s = Some (Inr buf')"
    using update_sectors_slash[of "[0..<spc s]" s c p new buf] Cons.prems(2,3) x(1) by (auto simp: no_slash_names_def)
  moreover have "update_chain (CHR ''/'' # p) new n buf' s = Some (False, s)"
    using Cons.IH[OF x(4)] Cons.prems(2,3) by (simp add: no_slash_names_def)
  ultimately show ?case using x by (subst update_chain.simps) simp
qed

text \<open>A directory the write leaves alone: its chain \<open>rs\<close> is readable and shares no sector with the file.\<close>
definition apart :: "fat \<Rightarrow> u32 list \<Rightarrow> u32 list \<Rightarrow> bool" where
  "apart s rs cs \<longleftrightarrow> set (file_lbas s rs) \<inter> set (file_lbas s cs) = {} \<and>
    (\<forall>r\<in>set rs. lba28 (fat_lba r s) \<notin> set (file_lbas s cs))"

lemma only_sectors_no_slash:
  assumes "only_sectors (set (file_lbas s cs)) s s'" "apart s rs cs" "no_slash_names s rs"
  shows "no_slash_names s' rs"
proof -
  have "sectors s' (lba28 (data_lba s c i)) = sectors s (lba28 (data_lba s c i))" if "c \<in> set rs" "i < spc s" for c i
  proof -
    have "lba28 (data_lba s c i) \<in> set (file_lbas s rs)" using that by (fastforce simp: file_lbas_def run_lbas_def)
    then have "lba28 (data_lba s c i) \<notin> set (file_lbas s cs)" using assms(2) by (auto simp: apart_def)
    with assms(1) show ?thesis by (simp add: only_sectors_def)
  qed
  with assms(3) show ?thesis by (simp add: no_slash_names_def only_sectors_fields(2,4)[OF assms(1)])
qed

lemma update_after_write:
  assumes "only_sectors (set (file_lbas s cs)) s s'" "apart s rs cs" "no_slash_names s rs"
    "cluster_chain s (fat32_root_cluster s) rs" "clusters_readable s rs"
  shows "fat32_update_directory_entry (fat32_root_cluster s') (CHR ''/'' # p) new s' = Some (False, s')"
  unfolding fat32_update_directory_entry_def
proof (rule update_chain_slash)
  show "cluster_chain s' (fat32_root_cluster s') rs"
    using assms(2,4) by (simp add: only_sectors_chain[OF assms(1)] only_sectors_fields(7)[OF assms(1)] apart_def)
qed (rule only_sectors_clusters_readable[OF assms(1,5)] only_sectors_no_slash[OF assms(1-3)])+

lemma fat32_write_file:
  assumes "fat32_available s" "fat32_find_root_entry path s = Some (Some e)" "\<not> is_directory e"
    "cluster_chain s (de_first_cluster e) cs" "clusters_readable s cs" "sound_layout s cs"
    "unat off + length data \<le> length (file_data s cs)" "cs \<noteq> []" "unat off + length data < 2 ^ 31"
    "unat off + length data \<le> unat (de_file_size e) \<or>
      path = CHR ''/'' # p \<and> apart s rs cs \<and> no_slash_names s rs \<and> cluster_chain s (fat32_root_cluster s) rs \<and> clusters_readable s rs"
    "cluster_bytes s < 2 ^ 32"
  shows "\<exists>s'. fat32_write path off data s = Some (int (length data), s') \<and>
    only_sectors (set (file_lbas s cs)) s s' \<and> file_data s' cs = splice (unat off) data (file_data s cs)"
proof -
  let ?n = "of_nat (length data) :: u64"
  have n: "unat (off + ?n) = unat off + length data"
    using assms(9) by (simp add: unat_word_ariths unat_of_nat)
  have cb: "unat (of_nat (cluster_bytes s) :: u64) = cluster_bytes s" using assms(11) by (simp add: unat_of_nat)
  have "expand_chain (of_nat (cluster_bytes s)) (de_first_cluster e) (off + ?n) s = Some (True, s)"
    using assms(4,8) by (rule expand_chain_enough) (use assms(7) in \<open>simp add: n cb length_file_data[OF assms(5)]\<close>)
  moreover obtain s' where w: "write_chain (de_first_cluster e) (unat off, data, None) s = Some ([], s')"
    "only_sectors (set (file_lbas s cs)) s s'" "file_data s' cs = splice (unat off) data (file_data s cs)"
    using write_chain_spec[OF assms(4-6), of "unat off" data None] assms(7) by (auto simp: overlay_fits)
  moreover have "(if off + ?n > ucast (de_file_size e)
      then map_option snd (fat32_update_directory_entry (fat32_root_cluster s') path (splice 28 (bytes32 (ucast (off + ?n))) e) s')
      else Some s') = Some s'"
  proof (cases "off + ?n > ucast (de_file_size e)")
    case True
    then have "\<not> unat off + length data \<le> unat (de_file_size e)" by (simp add: word_less_nat_alt n)
    then show ?thesis using update_after_write[OF w(2)] assms(10) by auto
  qed simp
  moreover have "signed_take_bit 31 (int (length data)) = int (length data)"
    using assms(9) by (intro signed_take_bit_int_eq_self) auto
  ultimately show ?thesis using assms(1-3) by (simp add: fat32_write_def Let_def)
qed

text \<open>
  C10. Writing inside a file. For a soundly laid out file and a range inside its chain and its recorded size,
  \<^verbatim>\<open>fat32_write\<close> terminates, reports every byte written, replaces exactly that range of the file's data and
  changes no sector outside the file: not the table, not a directory, not another file.
\<close>
theorem fat32_write_in_place:
  assumes "fat32_available s" "fat32_find_root_entry path s = Some (Some e)" "\<not> is_directory e"
    "cluster_chain s (de_first_cluster e) cs" "clusters_readable s cs" "sound_layout s cs" "cs \<noteq> []" "cluster_bytes s < 2 ^ 32"
    "unat off + length data \<le> length (file_data s cs)" "unat off + length data \<le> unat (de_file_size e)"
    "unat off + length data < 2 ^ 31"
  shows "\<exists>s'. fat32_write path off data s = Some (int (length data), s') \<and>
    only_sectors (set (file_lbas s cs)) s s' \<and> file_data s' cs = splice (unat off) data (file_data s cs)"
  using assms by (intro fat32_write_file[where rs = "[]" and p = "[]"]) auto

text \<open>
  C38. A write never lengthens a file. When data goes past the recorded size (here: still inside the allocated
  chain), \<^verbatim>\<open>fat32_write\<close> reports success and the data is in the clusters, but the directory entry that
  records the size is looked for under the full path, slash included, so it is not found: no sector of
  the root directory changes, and the recorded size stays.
\<close>
theorem fat32_write_keeps_size:
  assumes "fat32_available s" "fat32_find_root_entry (CHR ''/'' # p) s = Some (Some e)" "\<not> is_directory e"
    "cluster_chain s (de_first_cluster e) cs" "clusters_readable s cs" "sound_layout s cs" "cs \<noteq> []" "cluster_bytes s < 2 ^ 32"
    "cluster_chain s (fat32_root_cluster s) rs" "clusters_readable s rs" "apart s rs cs" "no_slash_names s rs"
    "unat off + length data \<le> length (file_data s cs)" "unat (de_file_size e) < unat off + length data"
    "unat off + length data < 2 ^ 31"
  shows "\<exists>s'. fat32_write (CHR ''/'' # p) off data s = Some (int (length data), s') \<and>
    file_data s' cs = splice (unat off) data (file_data s cs) \<and> file_data s' rs = file_data s rs"
proof -
  obtain s' where w: "fat32_write (CHR ''/'' # p) off data s = Some (int (length data), s')"
    "only_sectors (set (file_lbas s cs)) s s'" "file_data s' cs = splice (unat off) data (file_data s cs)"
    using fat32_write_file[where path = "CHR ''/'' # p" and s = s and e = e and cs = cs and off = off and data = data and rs = rs and p = p]
      assms by blast
  moreover have "file_data s' rs = file_data s rs"
    by (rule only_sectors_file_data[OF w(2)]) (use assms(11) in \<open>simp add: apart_def\<close>)
  ultimately show ?thesis by blast
qed

section \<open>Writing, then reading\<close>

lemma find_in_sectors_only:
  assumes "only_sectors L s s'" "\<forall>i\<in>set is. lba28 (data_lba s c i) \<notin> L"
  shows "find_in_sectors nm c is s' l = find_in_sectors nm c is s l"
  using assms(2)
proof (induction "is" arbitrary: l)
  case (Cons i "is")
  have "ata_read_sector (fat32_cluster_to_lba c s' + of_nat i) s' = ata_read_sector (fat32_cluster_to_lba c s + of_nat i) s"
    using Cons.prems assms(1) only_sectors_fields[OF assms(1)] by (simp add: ata_read_sector_def data_lba_def only_sectors_def)
  with Cons show ?case by (auto split: option.split search.split intro!: Option.bind_cong)
qed simp

lemma find_in_chain_only:
  assumes "cluster_chain s c rs" "apart s rs cs" "only_sectors (set (file_lbas s cs)) s s'"
  shows "find_in_chain nm c s' l = find_in_chain nm c s l"
  using assms(1,2)
proof (induction rs arbitrary: c l)
  case Nil
  then show ?case by (simp add: find_in_chain.simps)
next
  case (Cons x xs)
  obtain n where x: "x = c" "fat32_read_fat_entry c s = Some n" "cluster_chain s n xs" using Cons.prems(1) by auto
  have "\<forall>i\<in>set [0..<spc s]. lba28 (data_lba s c i) \<notin> set (file_lbas s cs)"
    using Cons.prems(2) x(1) by (auto simp: apart_def run_lbas_def)
  from find_in_sectors_only[OF assms(3) this]
  have "find_in_sectors nm c [0..<spc s'] s' l = find_in_sectors nm c [0..<spc s] s l" for l
    by (simp add: only_sectors_fields(4)[OF assms(3)])
  moreover have "fat32_read_fat_entry c s' = Some n"
    using only_sectors_entry[OF assms(3)] Cons.prems(2) x(1,2) by (simp add: apart_def)
  moreover have "apart s xs cs" using Cons.prems(2) by (auto simp: apart_def)
  ultimately show ?case using Cons.IH[OF x(3)] x(2)
    by (subst (1 2) find_in_chain.simps) (auto split: search.split intro!: Option.bind_cong)
qed

lemma find_root_file:
  assumes "CHR ''/'' \<notin> set nm" "nm \<noteq> []"
  shows "fat32_find_root_entry (CHR ''/'' # nm) s = fat32_find_entry_in_cluster (fat32_root_cluster s) (take 255 nm) s"
proof -
  have d: "dropWhile (\<lambda>c. c = CHR ''/'') nm = nm" using assms by (cases nm) auto
  have t: "takeWhile (\<lambda>c. c \<noteq> CHR ''/'') nm = nm" "dropWhile (\<lambda>c. c \<noteq> CHR ''/'') nm = []"
    using assms(1) by (auto simp: takeWhile_eq_all_conv dropWhile_eq_Nil_conv)
  show ?thesis using assms(2)
    by (simp add: fat32_find_root_entry_def Let_def d t find_segments.simps[of _ nm] split: option.split)
qed

lemma fat32_write_then_read:
  assumes "fat32_available s" "CHR ''/'' \<notin> set nm" "nm \<noteq> []"
    "fat32_find_root_entry (CHR ''/'' # nm) s = Some (Some e)" "\<not> is_directory e"
    "cluster_chain s (de_first_cluster e) cs" "clusters_readable s cs" "sound_layout s cs" "cs \<noteq> []" "cluster_bytes s < 2 ^ 32" "0 < spc s"
    "unat (de_file_size e) \<le> length (file_data s cs)" "unat (de_file_size e) < 2 ^ 31"
    "unat off + length data \<le> unat (de_file_size e)"
    "cluster_chain s (fat32_root_cluster s) rs" "apart s rs cs"
  shows "\<exists>s'. fat32_write (CHR ''/'' # nm) off data s = Some (int (length data), s') \<and>
    fat32_read (CHR ''/'' # nm) off (of_nat (length data)) s' = Some (Inr data)"
proof -
  obtain s' where w: "fat32_write (CHR ''/'' # nm) off data s = Some (int (length data), s')"
    "only_sectors (set (file_lbas s cs)) s s'" "file_data s' cs = splice (unat off) data (file_data s cs)"
    using fat32_write_file[where path = "CHR ''/'' # nm" and s = s and e = e and cs = cs and off = off and data = data] assms by force
  have look: "fat32_find_root_entry (CHR ''/'' # nm) s' = Some (Some e)"
    using assms(4) find_in_chain_only[OF assms(15,16) w(2)]
    by (simp add: find_root_file[OF assms(2,3)] fat32_find_entry_in_cluster_def only_sectors_fields(7)[OF w(2)])
  have av: "fat32_available s'" using w(2) assms(1) unfolding only_sectors_def by (metis fat.simps(5) fat.update_convs(3) fat.surjective)
  have ch: "cluster_chain s' (de_first_cluster e) cs"
    using only_sectors_chain[OF w(2)] assms(6,8) by (simp add: sound_layout_def)
  have len: "length (file_data s' cs) = length (file_data s cs)" using w(3) assms(12,14) by simp
  have n: "unat (of_nat (length data) :: u64) = length data" using assms(13,14) by (simp add: unat_of_nat)
  have "take (length data) (drop (unat off) (take (unat (de_file_size e)) (splice (unat off) data (file_data s cs)))) = data"
    using assms(12,14) by (simp add: splice_def drop_take min_def)
  then have "fat32_read (CHR ''/'' # nm) off (of_nat (length data)) s' = Some (Inr data)"
    using fat32_read_file[OF av look assms(5) ch only_sectors_clusters_readable[OF w(2) assms(7)], of off "of_nat (length data)"]
      assms(11,12,13) len w(3) n by (simp add: only_sectors_fields(4)[OF w(2)])
  with w(1) show ?thesis by blast
qed

text \<open>A soundly laid out file \<open>nm\<close> of the root directory, with its entry, its clusters and those of the directory.\<close>
definition healthy_file :: "fat \<Rightarrow> string \<Rightarrow> u8 list \<Rightarrow> u32 list \<Rightarrow> u32 list \<Rightarrow> bool" where
  "healthy_file s nm e cs rs \<longleftrightarrow>
    fat32_available s \<and> fat32_find_root_entry (CHR ''/'' # nm) s = Some (Some e) \<and> \<not> is_directory e \<and>
    cluster_chain s (de_first_cluster e) cs \<and> clusters_readable s cs \<and> sound_layout s cs \<and> cs \<noteq> [] \<and>
    cluster_bytes s < 2 ^ 32 \<and> 0 < spc s \<and> unat (de_file_size e) \<le> length (file_data s cs) \<and> unat (de_file_size e) < 2 ^ 31 \<and>
    cluster_chain s (fat32_root_cluster s) rs \<and> apart s rs cs"

lemma healthy_write_then_read:
  assumes "healthy_file s nm e cs rs" "unat off + length data \<le> unat (de_file_size e)" "CHR ''/'' \<notin> set nm" "nm \<noteq> []"
  shows "\<exists>s'. fat32_write (CHR ''/'' # nm) off data s = Some (int (length data), s') \<and>
    fat32_read (CHR ''/'' # nm) off (of_nat (length data)) s' = Some (Inr data)"
  using assms unfolding healthy_file_def by (intro fat32_write_then_read[where e = e and cs = cs and rs = rs]) auto

section \<open>A small disk\<close>

text \<open>
  One table sector at 1, the root directory in cluster 2 (sector 2) with the file \<^verbatim>\<open>A.TXT\<close> of five bytes in
  clusters 3 and 4 (sectors 3 and 4).
\<close>
definition demo_entry :: "u8 list" where
  "demo_entry = [0x41, 0x20, 0x20, 0x20, 0x20, 0x20, 0x20, 0x20, 0x54, 0x58, 0x54, 0x20, 0, 0, 0, 0,
    0, 0, 0, 0, 0, 0, 0, 0, 0, 0, 3, 0, 5, 0, 0, 0]"

definition demo_table :: "u8 list" where
  "demo_table = replicate 8 0xFF @ [0xFF, 0xFF, 0xFF, 0x0F, 4, 0, 0, 0, 0xFF, 0xFF, 0xFF, 0x0F] @ replicate 492 0"

definition demo_disk :: fat where
  "demo_disk = \<lparr>ata_present = True, dev_ok = (\<lambda>_. True),
    sectors = (\<lambda>l. if l = 1 then demo_table else if l = 2 then demo_entry @ replicate 480 0 else replicate 512 0x61),
    fat32_partition_lba = 0, fat32_available = True, fat32_root_cluster = 2, fat32_sectors_per_cluster = 1,
    fat32_reserved_sectors = 1, fat32_fat_count = 1, fat32_fat_size = 1, fat32_total_sectors = 5,
    fat32_fsinfo_sector = 0, fat32_bytes_per_sector = 512\<rparr>"

lemma demo_length: "length (sectors demo_disk l) = 512"
  by (simp add: demo_disk_def demo_entry_def demo_table_def)

lemma demo_readable: "readable demo_disk lba"
  by (simp add: readable_def demo_length) (simp add: demo_disk_def)

lemma demo_entry_fields:
  "\<not> is_directory demo_entry" "de_first_cluster demo_entry = 3" "de_file_size demo_entry = 5"
  by (code_simp)+

lemma demo_lookup_file: "fat32_find_root_entry ''/a.txt'' demo_disk = Some (Some demo_entry)"
  by code_simp

lemma demo_links:
  "fat32_read_fat_entry 2 demo_disk = Some 0x0FFFFFFF" "fat32_read_fat_entry 3 demo_disk = Some 4"
  "fat32_read_fat_entry 4 demo_disk = Some 0x0FFFFFFF"
  by (code_simp)+

lemma demo_chains:
  "cluster_chain demo_disk (de_first_cluster demo_entry) [3, 4]"
  "cluster_chain demo_disk (fat32_root_cluster demo_disk) [2]"
proof -
  have "fat32_root_cluster demo_disk = 2" by (simp add: demo_disk_def)
  then show "cluster_chain demo_disk (de_first_cluster demo_entry) [3, 4]" "cluster_chain demo_disk (fat32_root_cluster demo_disk) [2]"
    by (simp_all add: demo_links demo_entry_fields(2) fat32_is_end_of_chain_def)
qed

lemma demo_clusters_readable: "clusters_readable demo_disk cs"
  by (simp add: clusters_readable_def demo_readable)

lemma demo_layout: "sound_layout demo_disk [3, 4]" "apart demo_disk [2] [3, 4]" "no_slash_names demo_disk [2]"
  by (code_simp)+

lemma demo_size: "cluster_bytes demo_disk = 512" "spc demo_disk = 1" "fat32_available demo_disk"
    "length (file_data demo_disk [3, 4]) = 1024"
proof -
  show cb: "cluster_bytes demo_disk = 512" "spc demo_disk = 1" "fat32_available demo_disk"
    by (simp_all add: cluster_bytes_def demo_disk_def)
  show "length (file_data demo_disk [3, 4]) = 1024" using length_file_data[OF demo_clusters_readable, of "[3, 4]"] cb by simp
qed

lemmas demo_facts = demo_lookup_file demo_entry_fields demo_chains demo_clusters_readable demo_layout demo_size

lemma demo_healthy: "healthy_file demo_disk ''a.txt'' demo_entry [3, 4] [2]"
  using demo_facts by (simp add: healthy_file_def del: file_data_simps cluster_chain.simps clusters_readable_simps)

theorem fat_entry_roundtrip_witness:
  "fat32_read_fat_entry 4 (snd (fat32_write_fat_entry 4 7 demo_disk)) = Some 7 \<and>
    fat32_read_fat_entry 3 (snd (fat32_write_fat_entry 4 7 demo_disk)) = Some 4"
proof -
  have l: "fat_lba 4 demo_disk = 1" "fat_lba 3 demo_disk = 1" by code_simp+
  show ?thesis
    using fat_entry_roundtrip[of 4 3 demo_disk 7 "fst (fat32_write_fat_entry 4 7 demo_disk)" "snd (fat32_write_fat_entry 4 7 demo_disk)"]
    by (simp add: l demo_readable demo_links)
qed

theorem fat32_read_slice_witness: "\<exists>bs. fat32_read ''/a.txt'' 1 100 demo_disk = Some (Inr bs) \<and> length bs = 4"
  using fat32_read_slice[OF demo_size(3) demo_lookup_file demo_entry_fields(1) demo_chains(1) demo_clusters_readable, of 1 100]
  by (simp add: demo_facts del: file_data_simps)

theorem fat32_write_in_place_witness:
  "\<exists>s'. fat32_write ''/a.txt'' 1 [7, 8] demo_disk = Some (2, s') \<and>
    file_data s' [3, 4] = splice 1 [7, 8] (file_data demo_disk [3, 4])"
  using fat32_write_in_place[OF demo_size(3) demo_lookup_file demo_entry_fields(1) demo_chains(1) demo_clusters_readable demo_layout(1),
      of 1 "[7, 8]"]
  by (auto simp: demo_facts simp del: file_data_simps)

theorem fat32_write_keeps_size_witness:
  "\<exists>s'. fat32_write ''/a.txt'' 4 [7, 8, 9] demo_disk = Some (3, s') \<and> file_data s' [2] = file_data demo_disk [2]"
  using fat32_write_keeps_size[OF demo_size(3) demo_lookup_file demo_entry_fields(1) demo_chains(1) demo_clusters_readable demo_layout(1),
      of "[2]" 4 "[7, 8, 9]"]
  by (auto simp: demo_facts simp del: file_data_simps cluster_chain.simps clusters_readable_simps)

end
