(* ===== verification/Sage_Cap.thy ===== *)
theory Sage_Cap
  imports Sage_Prelude
begin

text \<open>
  Capabilities and capability tables: the declarations of \<^verbatim>\<open>kernel/include/ipc.h\<close> (section 1 and the
  inline helpers) and the slot management of \<^verbatim>\<open>kernel/core/ipc.c\<close>. A table has 64 slots; a slot is
  free when its object type is \<^verbatim>\<open>IPC_OBJ_NONE\<close>. \<^verbatim>\<open>ipc_cap_alloc_slot\<close> only finds a free slot, so it
  interprets \<^const>\<open>lazy_pool\<close>: until the caller fills the slot, it will be found again.
\<close>

unbundle bit_operations_syntax

section \<open>Declarations\<close>

definition IPC_CAP_MAX_PER_TASK :: nat where "IPC_CAP_MAX_PER_TASK = 64"
definition IPC_CAP_RIGHT_SEND :: u32 where "IPC_CAP_RIGHT_SEND = 1"
definition IPC_CAP_RIGHT_RECV :: u32 where "IPC_CAP_RIGHT_RECV = 2"
definition IPC_CAP_RIGHT_CALL :: u32 where "IPC_CAP_RIGHT_CALL = 4"
definition IPC_CAP_RIGHT_MAP :: u32 where "IPC_CAP_RIGHT_MAP = 8"
definition IPC_CAP_RIGHT_DUP :: u32 where "IPC_CAP_RIGHT_DUP = 16"
definition IPC_CAP_RIGHT_REVOKE :: u32 where "IPC_CAP_RIGHT_REVOKE = 32"
definition IPC_CAP_RIGHT_VFS_READ :: u32 where "IPC_CAP_RIGHT_VFS_READ = 64"
definition IPC_CAP_RIGHT_VFS_WRITE :: u32 where "IPC_CAP_RIGHT_VFS_WRITE = 128"
definition IPC_CAP_RIGHTS_ALL :: u32 where "IPC_CAP_RIGHTS_ALL = 0xFF"
definition IPC_CAPF_IMMUTABLE :: u32 where "IPC_CAPF_IMMUTABLE = 2"

lemmas right_defs = IPC_CAP_RIGHT_SEND_def IPC_CAP_RIGHT_RECV_def IPC_CAP_RIGHT_CALL_def
  IPC_CAP_RIGHT_MAP_def IPC_CAP_RIGHT_DUP_def IPC_CAP_RIGHT_REVOKE_def IPC_CAP_RIGHT_VFS_READ_def
  IPC_CAP_RIGHT_VFS_WRITE_def IPC_CAP_RIGHTS_ALL_def

datatype ipc_obj_type =
    IPC_OBJ_NONE | IPC_OBJ_ENDPOINT | IPC_OBJ_CHANNEL | IPC_OBJ_PORT | IPC_OBJ_SHARED_MEM
  | IPC_OBJ_SIGNAL_SET | IPC_OBJ_MONITOR | IPC_OBJ_FILE | IPC_OBJ_DIR

record ipc_capability =
  rights :: u32
  object_type :: ipc_obj_type
  object_id :: u32
  ref_count :: u32
  owner_task :: u32
  cap_flags :: u32
  cap_path :: string

definition zero_cap :: ipc_capability where
  "zero_cap = \<lparr>rights = 0, object_type = IPC_OBJ_NONE, object_id = 0, ref_count = 0, owner_task = 0,
    cap_flags = 0, cap_path = []\<rparr>"

record ipc_cap_table =
  caps :: "ipc_capability list"
  next_free :: u32

definition ipc_cap_has_right :: "ipc_capability \<Rightarrow> u32 \<Rightarrow> bool" where
  "ipc_cap_has_right cap r \<longleftrightarrow> rights cap AND r \<noteq> 0"

definition ipc_cap_is_valid :: "ipc_capability \<Rightarrow> bool" where
  "ipc_cap_is_valid cap \<longleftrightarrow> object_type cap \<noteq> IPC_OBJ_NONE \<and> ref_count cap > 0"

section \<open>Slots\<close>

definition ipc_cap_alloc_slot :: "ipc_cap_table \<Rightarrow> nat option" where
  "ipc_cap_alloc_slot tab = first_index (\<lambda>c. object_type c = IPC_OBJ_NONE) (caps tab)"

definition ipc_cap_free_slot :: "u32 \<Rightarrow> ipc_cap_table \<Rightarrow> ipc_cap_table" where
  "ipc_cap_free_slot handle tab =
    (if unat handle \<ge> IPC_CAP_MAX_PER_TASK then tab
     else tab\<lparr>caps := (caps tab)[unat handle := zero_cap]\<rparr>)"

text \<open>The part of \<^verbatim>\<open>ipc_cap_resolve\<close> that follows the lookup of the task's table.\<close>
definition ipc_cap_resolve_in :: "ipc_cap_table \<Rightarrow> u32 \<Rightarrow> ipc_capability option" where
  "ipc_cap_resolve_in tab handle =
    (if unat handle \<ge> IPC_CAP_MAX_PER_TASK then None
     else let cap = caps tab ! unat handle in
       if \<not> ipc_cap_is_valid cap then None else Some cap)"

text \<open>The store \<^verbatim>\<open>tab->caps[handle] = cap\<close>.\<close>
definition set_cap :: "nat \<Rightarrow> ipc_capability \<Rightarrow> ipc_cap_table \<Rightarrow> ipc_cap_table" where
  "set_cap handle cap tab = tab\<lparr>caps := (caps tab)[handle := cap]\<rparr>"

text \<open>The initial table of a thread, with the capability for the root directory in slot 0.\<close>
definition initial_cap_table :: ipc_cap_table where
  "initial_cap_table =
    \<lparr>caps = zero_cap\<lparr>object_type := IPC_OBJ_DIR,
                      rights := IPC_CAP_RIGHT_VFS_READ OR IPC_CAP_RIGHT_VFS_WRITE,
                      ref_count := 1, cap_path := ''/''\<rparr>
            # replicate (IPC_CAP_MAX_PER_TASK - 1) zero_cap,
     next_free = 1\<rparr>"

section \<open>The table as a pool of slots\<close>

interpretation cap_pool: lazy_pool "\<lambda>c. object_type c = IPC_OBJ_NONE" "\<lambda>i c. c"
  "\<lambda>t. map_option (\<lambda>i. (i, t)) (ipc_cap_alloc_slot \<lparr>caps = t, next_free = 0\<rparr>)"
  by unfold_locales (auto simp: ipc_cap_alloc_slot_def)

text \<open>A table of the right size.\<close>
definition cap_table_ok :: "ipc_cap_table \<Rightarrow> bool" where
  "cap_table_ok tab \<longleftrightarrow> length (caps tab) = IPC_CAP_MAX_PER_TASK"

lemma alloc_slot_SomeD:
  assumes "ipc_cap_alloc_slot tab = Some i"
  shows "i < length (caps tab)" "object_type (caps tab ! i) = IPC_OBJ_NONE"
  using assms first_index_SomeD(1,2) by (fastforce simp: ipc_cap_alloc_slot_def)+

lemma alloc_slot_unfilled:
  "ipc_cap_alloc_slot (tab\<lparr>next_free := n\<rparr>) = ipc_cap_alloc_slot tab"
  by (simp add: ipc_cap_alloc_slot_def)

lemma resolve_SomeD:
  assumes "ipc_cap_resolve_in tab handle = Some cap"
  shows "unat handle < IPC_CAP_MAX_PER_TASK" "cap = caps tab ! unat handle" "ipc_cap_is_valid cap"
  using assms by (auto simp: ipc_cap_resolve_in_def Let_def split: if_splits)

lemma free_slot_caps:
  assumes "cap_table_ok tab"
  shows "caps (ipc_cap_free_slot h tab) ! j =
      (if j = unat h \<and> j < IPC_CAP_MAX_PER_TASK then zero_cap else caps tab ! j)"
    "cap_table_ok (ipc_cap_free_slot h tab)"
  using assms by (auto simp: ipc_cap_free_slot_def cap_table_ok_def nth_list_update)

lemma set_cap_caps:
  assumes "cap_table_ok tab" "i < IPC_CAP_MAX_PER_TASK"
  shows "caps (set_cap i c tab) ! j = (if j = i then c else caps tab ! j)"
    "cap_table_ok (set_cap i c tab)"
  using assms by (auto simp: set_cap_def cap_table_ok_def nth_list_update)

lemma initial_cap_table_ok: "cap_table_ok initial_cap_table"
  by (simp add: cap_table_ok_def initial_cap_table_def IPC_CAP_MAX_PER_TASK_def)

end
