(* ===== verification/Sage_Alloc.thy ===== *)
theory Sage_Alloc
  imports Sage_Prelude
begin

text \<open>
  The kernel heap of \<^verbatim>\<open>kernel/core/sagelang/sage_alloc.c\<close>: an arena of 32 MiB, a bump offset, and an
  address-ordered list of free blocks with first fit, splitting and coalescing.

  Pointers are offsets into \<^verbatim>\<open>sage_heap\<close>, \<open>None\<close> being \<^verbatim>\<open>NULL\<close>. The free list is the list of its
  blocks (offset, total size) in list order; the 16-byte header of an allocated block (user size,
  tag) is an entry of \<open>headers\<close>, which \<^verbatim>\<open>sage_free\<close> removes, because the free block's fields overwrite
  it; \<open>bytes\<close> holds the user bytes. Request sizes are 64-bit words and every computation on them
  wraps as in C; the offsets and block sizes inside the arena fit 25 bits and are naturals. An
  operation is \<open>None\<close> where C is undefined: reading a header that is not there, or clearing memory
  outside the arena. The spin lock makes each operation atomic and the console output is not
  modelled; the telemetry events are collected in \<open>emitted\<close>.

  Shown: the free and the live blocks always tile the arena below the bump offset, the free list is
  in address order and fully coalesced, so live blocks never overlap; what a request gets
  on every branch, and what it gets when the size computation wraps.
\<close>

unbundle bit_operations_syntax

section \<open>State\<close>

definition SAGE_ARENA_SIZE :: nat where "SAGE_ARENA_SIZE = 32 * 1024 * 1024"
definition ALLOC_HEADER_SIZE :: nat where "ALLOC_HEADER_SIZE = 16"
definition ALIGNMENT :: nat where "ALIGNMENT = 16"
definition sizeof_FreeBlock :: nat where "sizeof_FreeBlock = 16"
definition ALLOC_TAG_KERNEL :: u32 where "ALLOC_TAG_KERNEL = 0"
definition ALLOC_TAG_MAX :: u32 where "ALLOC_TAG_MAX = 7"

definition ALIGN :: "u64 \<Rightarrow> u64" where
  "ALIGN n = (n + (of_nat ALIGNMENT - 1)) AND NOT (of_nat ALIGNMENT - 1)"

datatype alloc_event = Alloc_malloc u64 nat | Alloc_free nat

record alloc_stats =
  alloc_count :: u64
  bytes_total :: u64

record heap =
  sage_bump :: nat
  g_free_list :: "(nat \<times> nat) list"
  headers :: "nat \<rightharpoonup> u64 \<times> u32"
  bytes :: "nat \<Rightarrow> u8"
  g_alloc_stats :: "alloc_stats list"
  emitted :: "alloc_event list"

section \<open>Operations\<close>

text \<open>The first-fit search: the block found, and the list with the block split or unlinked.\<close>
fun take_fit :: "nat \<Rightarrow> (nat \<times> nat) list \<Rightarrow> ((nat \<times> nat) \<times> (nat \<times> nat) list) option" where
  "take_fit needed [] = None"
| "take_fit needed ((cur, sz) # rest) =
    (if needed \<le> sz
     then (if needed + sizeof_FreeBlock + ALIGNMENT \<le> sz
           then Some ((cur, needed), (cur + needed, sz - needed) # rest)
           else Some ((cur, sz), rest))
     else map_option (map_prod id ((#) (cur, sz))) (take_fit needed rest))"

definition count_alloc :: "u32 \<Rightarrow> u64 \<Rightarrow> alloc_stats list \<Rightarrow> alloc_stats list" where
  "count_alloc tag raw_size st =
    (if tag < ALLOC_TAG_MAX
     then st[unat tag := \<lparr>alloc_count = alloc_count (st ! unat tag) + 1,
                          bytes_total = bytes_total (st ! unat tag) + raw_size\<rparr>]
     else st)"

text \<open>\<^verbatim>\<open>memset(off, 0, n)\<close>.\<close>
definition clear_bytes :: "nat \<Rightarrow> nat \<Rightarrow> (nat \<Rightarrow> u8) \<Rightarrow> nat \<Rightarrow> u8" where
  "clear_bytes off n bs = (\<lambda>i. if off \<le> i \<and> i < off + n then 0 else bs i)"

definition sage_malloc_tagged :: "u64 \<Rightarrow> u32 \<Rightarrow> heap \<Rightarrow> (nat option \<times> heap) option" where
  "sage_malloc_tagged req tag s =
    (if req = 0 then Some (None, s)
     else
       let needed = ALIGN (req + of_nat ALLOC_HEADER_SIZE) in
       case take_fit (unat needed) (g_free_list s) of
         Some ((off, got), fl) \<Rightarrow>
           (if got < ALLOC_HEADER_SIZE then None
            else Some (Some (off + ALLOC_HEADER_SIZE),
              s\<lparr>g_free_list := fl,
                headers := (headers s)(off \<mapsto> (of_nat (got - ALLOC_HEADER_SIZE), tag)),
                bytes := clear_bytes (off + ALLOC_HEADER_SIZE) (got - ALLOC_HEADER_SIZE) (bytes s),
                g_alloc_stats := count_alloc tag req (g_alloc_stats s)\<rparr>))
       | None \<Rightarrow>
           (if of_nat (sage_bump s) + needed > of_nat SAGE_ARENA_SIZE then Some (None, s)
            else if unat needed < ALLOC_HEADER_SIZE \<or> SAGE_ARENA_SIZE < sage_bump s + unat needed
            then None
            else
              let header = sage_bump s; user = unat needed - ALLOC_HEADER_SIZE in
              Some (Some (header + ALLOC_HEADER_SIZE),
                s\<lparr>sage_bump := header + unat needed,
                  headers := (headers s)(header \<mapsto> (of_nat user, tag)),
                  bytes := clear_bytes (header + ALLOC_HEADER_SIZE) user (bytes s),
                  g_alloc_stats := count_alloc tag req (g_alloc_stats s),
                  emitted := emitted s @ [Alloc_malloc req (header + ALLOC_HEADER_SIZE)]\<rparr>)))"

definition sage_malloc :: "u64 \<Rightarrow> heap \<Rightarrow> (nat option \<times> heap) option" where
  "sage_malloc req = sage_malloc_tagged req ALLOC_TAG_KERNEL"

definition sage_calloc_tagged :: "u64 \<Rightarrow> u64 \<Rightarrow> u32 \<Rightarrow> heap \<Rightarrow> (nat option \<times> heap) option" where
  "sage_calloc_tagged n req tag = sage_malloc_tagged (n * req) tag"

definition sage_calloc :: "u64 \<Rightarrow> u64 \<Rightarrow> heap \<Rightarrow> (nat option \<times> heap) option" where
  "sage_calloc n req = sage_calloc_tagged n req ALLOC_TAG_KERNEL"

text \<open>Coalescing of a block with the one after it.\<close>
fun coalesce_next :: "nat \<times> nat \<Rightarrow> (nat \<times> nat) list \<Rightarrow> (nat \<times> nat) \<times> (nat \<times> nat) list" where
  "coalesce_next (off, sz) ((o', sz') # rest) =
    (if off + sz = o' then ((off, sz + sz'), rest) else ((off, sz), (o', sz') # rest))"
| "coalesce_next b [] = (b, [])"

text \<open>Coalescing with the block that points to it, the last one before it in the list.\<close>
definition coalesce_prev :: "(nat \<times> nat) list \<Rightarrow> nat \<times> nat \<Rightarrow> (nat \<times> nat) list" where
  "coalesce_prev before b =
    (if before \<noteq> [] \<and> fst (last before) + snd (last before) = fst b
     then butlast before @ [(fst (last before), snd (last before) + snd b)]
     else before @ [b])"

definition link_free :: "nat \<times> nat \<Rightarrow> (nat \<times> nat) list \<Rightarrow> (nat \<times> nat) list" where
  "link_free new_block fl =
    (let before = takeWhile (\<lambda>b. fst b < fst new_block) fl;
         rest = dropWhile (\<lambda>b. fst b < fst new_block) fl;
         (b, rest') = coalesce_next new_block rest
     in coalesce_prev before b @ rest')"

definition sage_free :: "nat option \<Rightarrow> heap \<Rightarrow> heap option" where
  "sage_free ptr s =
    (case ptr of
       None \<Rightarrow> Some s
     | Some p \<Rightarrow>
         if p < ALLOC_HEADER_SIZE then None
         else
           let header = p - ALLOC_HEADER_SIZE in
           case headers s header of
             None \<Rightarrow> None
           | Some (user_size, tag) \<Rightarrow>
               Some (s\<lparr>g_free_list := link_free
                          (header, unat (ALIGN (user_size + of_nat ALLOC_HEADER_SIZE))) (g_free_list s),
                       headers := (headers s)(header := None),
                       emitted := emitted s @ [Alloc_free p]\<rparr>))"

text \<open>\<^verbatim>\<open>memcpy(dst, src, n)\<close> of non-overlapping blocks.\<close>
definition copy_bytes :: "nat \<Rightarrow> nat \<Rightarrow> nat \<Rightarrow> (nat \<Rightarrow> u8) \<Rightarrow> nat \<Rightarrow> u8" where
  "copy_bytes dst src n bs = (\<lambda>i. if dst \<le> i \<and> i < dst + n then bs (src + (i - dst)) else bs i)"

definition sage_realloc :: "nat option \<Rightarrow> u64 \<Rightarrow> heap \<Rightarrow> (nat option \<times> heap) option" where
  "sage_realloc ptr new_size s =
    (case ptr of
       None \<Rightarrow> sage_malloc new_size s
     | Some p \<Rightarrow>
         if new_size = 0 then map_option (\<lambda>s'. (None, s')) (sage_free ptr s)
         else if p < ALLOC_HEADER_SIZE then None
         else
           case headers s (p - ALLOC_HEADER_SIZE) of
             None \<Rightarrow> None
           | Some (old_user_size, tag) \<Rightarrow>
               if new_size \<le> old_user_size then Some (ptr, s)
               else do {
                 (np, s1) \<leftarrow> sage_malloc_tagged new_size tag s;
                 case np of
                   None \<Rightarrow> Some (None, s1)
                 | Some q \<Rightarrow> do {
                     s2 \<leftarrow> sage_free ptr (s1\<lparr>bytes := copy_bytes q p (unat old_user_size) (bytes s1)\<rparr>);
                     Some (Some q, s2)
                   }
               })"

text \<open>The string is given with its bytes; its terminator is copied with it.\<close>
definition sage_strdup :: "u8 list option \<Rightarrow> heap \<Rightarrow> (nat option \<times> heap) option" where
  "sage_strdup str s =
    (case str of
       None \<Rightarrow> Some (None, s)
     | Some cs \<Rightarrow>
         (let len = length (takeWhile (\<lambda>c. c \<noteq> 0) cs) in
          do {
            (d, s1) \<leftarrow> sage_malloc (of_nat len + 1) s;
            case d of
              None \<Rightarrow> Some (None, s1)
            | Some q \<Rightarrow> Some (Some q, s1\<lparr>bytes := \<lambda>i.
                if q \<le> i \<and> i < q + len then cs ! (i - q)
                else if i = q + len then 0 else bytes s1 i\<rparr>)
          }))"

definition sage_arena_reset :: "heap \<Rightarrow> heap" where
  "sage_arena_reset s =
    s\<lparr>sage_bump := 0, g_free_list := [], headers := Map.empty,
      g_alloc_stats := replicate (unat ALLOC_TAG_MAX) \<lparr>alloc_count = 0, bytes_total = 0\<rparr>\<rparr>"

definition sage_arena_used :: "heap \<Rightarrow> nat" where
  "sage_arena_used s = sage_bump s"

definition sage_alloc_stats :: "u32 \<Rightarrow> heap \<Rightarrow> alloc_stats" where
  "sage_alloc_stats tag s =
    (if tag \<ge> ALLOC_TAG_MAX then \<lparr>alloc_count = 0, bytes_total = 0\<rparr>
     else g_alloc_stats s ! unat tag)"

definition sage_alloc_tag_name :: "u32 \<Rightarrow> string" where
  "sage_alloc_tag_name tag =
    (if tag \<ge> ALLOC_TAG_MAX then ''unknown''
     else [''kernel'', ''vm'', ''vfs'', ''ipc'', ''parser'', ''shell'', ''other''] ! unat tag)"

section \<open>Rounding\<close>

lemmas alloc_consts = SAGE_ARENA_SIZE_def ALLOC_HEADER_SIZE_def ALIGNMENT_def sizeof_FreeBlock_def
  ALLOC_TAG_MAX_def ALLOC_TAG_KERNEL_def

lemma and_not_15: "(x :: u64) AND NOT 15 = push_bit 4 (drop_bit 4 x)"
proof -
  have "x AND NOT (mask 4) = push_bit 4 (drop_bit 4 x)"
    by (rule bit_eqI) (auto simp: bit_simps)
  moreover have "mask 4 = (15 :: u64)" by (simp add: mask_eq_exp_minus_1)
  ultimately show ?thesis by simp
qed

lemma unat_and_not_15: "unat ((x :: u64) AND NOT 15) = unat x div 16 * 16"
proof -
  have "unat x div 16 * 16 < 2 ^ 64"
    using u64_bound[of x] le_less_trans[OF div_times_less_eq_dividend] by blast
  then have "unat (push_bit 4 (drop_bit 4 x)) = unat x div 16 * 16"
    by (simp add: push_bit_eq_mult unat_word_ariths unat_drop_bit_eq drop_bit_eq_div)
  then show ?thesis unfolding and_not_15 .
qed

lemma unat_ALIGN_wrapped: "unat (ALIGN n) = unat (n + 15) div 16 * 16"
  using unat_and_not_15[of "n + 15"] by (simp add: ALIGN_def ALIGNMENT_def)

lemma unat_ALIGN:
  assumes "unat n + 15 < 2 ^ 64"
  shows "unat (ALIGN n) = (unat n + 15) div 16 * 16"
proof -
  have "unat (n + 15) = unat n + 15" using assms by (simp add: unat_word_ariths)
  then show ?thesis by (simp add: unat_ALIGN_wrapped)
qed

lemma ALIGN_multiple: "16 dvd unat (ALIGN n)"
  by (simp add: unat_ALIGN_wrapped)

lemma ALIGN_exact:
  assumes "16 dvd k" "k + 15 < 2 ^ 64"
  shows "unat (ALIGN (of_nat k)) = k"
proof -
  have "unat (of_nat k :: u64) = k" using assms(2) by (simp add: unat_of_nat)
  moreover have "(k + 15) div 16 * 16 = k" using assms(1) by (auto elim: dvdE)
  ultimately show ?thesis using assms(2) unat_ALIGN[of "of_nat k"] by simp
qed

section \<open>Tilings of the arena\<close>

text \<open>A set of blocks (offset, size) that partitions \<open>[0, n)\<close> into 16-byte aligned pieces.\<close>
definition tiles :: "(nat \<times> nat) set \<Rightarrow> nat \<Rightarrow> bool" where
  "tiles B n \<longleftrightarrow>
    16 dvd n \<and>
    (\<forall>a m. (a, m) \<in> B \<longrightarrow> 0 < m \<and> a + m \<le> n \<and> 16 dvd a \<and> 16 dvd m) \<and>
    (\<forall>a m b k. (a, m) \<in> B \<longrightarrow> (b, k) \<in> B \<longrightarrow> (a, m) \<noteq> (b, k) \<longrightarrow> a + m \<le> b \<or> b + k \<le> a) \<and>
    (\<forall>x<n. \<exists>a m. (a, m) \<in> B \<and> a \<le> x \<and> x < a + m)"

lemma tiles_dvd: "tiles B n \<Longrightarrow> 16 dvd n"
  by (simp add: tiles_def)

lemma tilesD:
  assumes "tiles B n" "(a, m) \<in> B"
  shows "0 < m" "a + m \<le> n" "16 dvd a" "16 dvd m"
  using assms by (simp_all add: tiles_def)

lemma tiles_disjoint:
  assumes "tiles B n" "(a, m) \<in> B" "(b, k) \<in> B" "(a, m) \<noteq> (b, k)"
  shows "a + m \<le> b \<or> b + k \<le> a"
  using assms by (simp add: tiles_def)

lemma tiles_offset_unique:
  assumes "tiles B n" "(a, m) \<in> B" "(a, k) \<in> B"
  shows "m = k"
proof (rule ccontr)
  assume "m \<noteq> k"
  then have "a + m \<le> a \<or> a + k \<le> a" using tiles_disjoint[OF assms] by simp
  then show False using tilesD(1)[OF assms(1,2)] tilesD(1)[OF assms(1,3)] by simp
qed

lemma tiles_cover:
  assumes "tiles B n" "x < n"
  obtains a m where "(a, m) \<in> B" "a \<le> x" "x < a + m"
proof -
  have "\<forall>x<n. \<exists>a m. (a, m) \<in> B \<and> a \<le> x \<and> x < a + m"
    using assms(1) by (simp add: tiles_def)
  with assms(2) that show ?thesis by blast
qed

lemma tiles_empty: "tiles {} 0"
  by (simp add: tiles_def)

lemma tiles_extend:
  assumes t: "tiles B n" and m: "0 < m" "16 dvd m"
  shows "tiles (insert (n, m) B) (n + m)"
  unfolding tiles_def
proof (intro conjI allI impI)
  show "16 dvd n + m" using t m by (simp add: tiles_def)
next
  fix a k assume "(a, k) \<in> insert (n, m) B"
  then show "0 < k" "a + k \<le> n + m" "16 dvd a" "16 dvd k"
    using m tiles_dvd[OF t] tilesD[OF t, of a k] by auto
next
  fix a k b l assume "(a, k) \<in> insert (n, m) B" "(b, l) \<in> insert (n, m) B" "(a, k) \<noteq> (b, l)"
  then show "a + k \<le> b \<or> b + l \<le> a"
    using tilesD(2)[OF t, of a k] tilesD(2)[OF t, of b l] tiles_disjoint[OF t, of a k b l] by auto
next
  fix x assume x: "x < n + m"
  show "\<exists>a k. (a, k) \<in> insert (n, m) B \<and> a \<le> x \<and> x < a + k"
  proof (cases "x < n")
    case True
    with t show ?thesis by (blast elim: tiles_cover)
  next
    case False
    with x show ?thesis by (intro exI[of _ n] exI[of _ m]) simp
  qed
qed

lemma tiles_split:
  assumes t: "tiles B n" and b: "(a, m) \<in> B" and k: "0 < k" "k < m" "16 dvd k"
  shows "tiles (B - {(a, m)} \<union> {(a, k), (a + k, m - k)}) n" (is "tiles ?B n")
  unfolding tiles_def
proof (intro conjI allI impI)
  show "16 dvd n" using t by (simp add: tiles_def)
next
  fix c l assume "(c, l) \<in> ?B"
  then show "0 < l" "c + l \<le> n" "16 dvd c" "16 dvd l"
    using tilesD[OF t, of c l] tilesD[OF t b] k by auto
next
  fix c l d j assume in_B: "(c, l) \<in> ?B" "(d, j) \<in> ?B" "(c, l) \<noteq> (d, j)"
  have far: "a + m \<le> d \<or> d + j \<le> a" if "(d, j) \<in> B" "(d, j) \<noteq> (a, m)" for d j
    using tiles_disjoint[OF t b that(1)] that(2) by auto
  have "c + l \<le> d \<or> d + j \<le> c" if "(c, l) \<in> B" "(d, j) \<in> B"
    using tiles_disjoint[OF t that in_B(3)] .
  then show "c + l \<le> d \<or> d + j \<le> c"
    using in_B far[of c l] far[of d j] k by auto
next
  fix x assume "x < n"
  with t obtain c l where c: "(c, l) \<in> B" "c \<le> x" "x < c + l" by (blast elim: tiles_cover)
  show "\<exists>c l. (c, l) \<in> ?B \<and> c \<le> x \<and> x < c + l"
  proof (cases "(c, l) = (a, m)")
    case True
    with c k show ?thesis by (cases "x < a + k") force+
  qed (use c in blast)
qed

lemma tiles_merge:
  assumes t: "tiles B n" and b: "(a, m) \<in> B" "(a + m, k) \<in> B"
  shows "tiles (B - {(a, m), (a + m, k)} \<union> {(a, m + k)}) n" (is "tiles ?B n")
  unfolding tiles_def
proof (intro conjI allI impI)
  show "16 dvd n" using t by (simp add: tiles_def)
next
  fix c l assume "(c, l) \<in> ?B"
  then show "0 < l" "c + l \<le> n" "16 dvd c" "16 dvd l"
    using tilesD[OF t, of c l] tilesD[OF t b(1)] tilesD[OF t b(2)] by auto
next
  fix c l d j assume in_B: "(c, l) \<in> ?B" "(d, j) \<in> ?B" "(c, l) \<noteq> (d, j)"
  have far: "a + (m + k) \<le> d \<or> d + j \<le> a"
    if "(d, j) \<in> B" "(d, j) \<noteq> (a, m)" "(d, j) \<noteq> (a + m, k)" for d j
    using tiles_disjoint[OF t b(1) that(1)] tiles_disjoint[OF t b(2) that(1)] that(2,3)
      tilesD(1)[OF t that(1)] tilesD(1)[OF t b(2)] by auto
  have "c + l \<le> d \<or> d + j \<le> c" if "(c, l) \<in> B" "(d, j) \<in> B"
    using tiles_disjoint[OF t that in_B(3)] .
  then show "c + l \<le> d \<or> d + j \<le> c"
    using in_B far[of c l] far[of d j] by auto
next
  fix x assume "x < n"
  with t obtain c l where c: "(c, l) \<in> B" "c \<le> x" "x < c + l" by (blast elim: tiles_cover)
  show "\<exists>c l. (c, l) \<in> ?B \<and> c \<le> x \<and> x < c + l"
  proof (cases "(c, l) = (a, m) \<or> (c, l) = (a + m, k)")
    case True
    with c show ?thesis by (intro exI[of _ a] exI[of _ "m + k"]) auto
  qed (use c in blast)
qed

lemma tiles_split_insert:
  assumes "tiles (insert (a, m) C) n" "(a, m) \<notin> C" "0 < k" "k < m" "16 dvd k"
  shows "tiles (insert (a, k) (insert (a + k, m - k) C)) n"
proof -
  have "insert (a, m) C - {(a, m)} \<union> {(a, k), (a + k, m - k)} = insert (a, k) (insert (a + k, m - k) C)"
    using assms(2) by auto
  then show ?thesis using tiles_split[OF assms(1) insertI1 assms(3-5)] by metis
qed

lemma tiles_merge_insert:
  assumes "tiles (insert (a, m) (insert (a + m, k) C)) n" "(a, m) \<notin> C" "(a + m, k) \<notin> C"
  shows "tiles (insert (a, m + k) C) n"
proof -
  have "insert (a, m) (insert (a + m, k) C) - {(a, m), (a + m, k)} \<union> {(a, m + k)} = insert (a, m + k) C"
    using assms(2,3) by auto
  then show ?thesis using tiles_merge[OF assms(1) insertI1 insertI2[OF insertI1]] by metis
qed

section \<open>The heap invariant\<close>

text \<open>The blocks in use, header included.\<close>
definition live_blocks :: "(nat \<rightharpoonup> u64 \<times> u32) \<Rightarrow> (nat \<times> nat) set" where
  "live_blocks hs = {(h, unat sz + ALLOC_HEADER_SIZE) | h sz tag. hs h = Some (sz, tag)}"

abbreviation gap :: "nat \<times> nat \<Rightarrow> nat \<times> nat \<Rightarrow> bool" where
  "gap a b \<equiv> fst a + snd a < fst b"

text \<open>
  Free and live blocks tile the arena up to the bump offset, no block is both, and the free list is
  in address order with live memory between any two of its blocks.
\<close>
definition arena_ok :: "(nat \<times> nat) list \<Rightarrow> (nat \<rightharpoonup> u64 \<times> u32) \<Rightarrow> nat \<Rightarrow> bool" where
  "arena_ok fl hs n \<longleftrightarrow>
    tiles (set fl \<union> live_blocks hs) n \<and> set fl \<inter> live_blocks hs = {} \<and>
    sorted_wrt gap fl \<and> n \<le> SAGE_ARENA_SIZE"

definition heap_inv :: "heap \<Rightarrow> bool" where
  "heap_inv s \<longleftrightarrow> arena_ok (g_free_list s) (headers s) (sage_bump s) \<and>
    length (g_alloc_stats s) = unat ALLOC_TAG_MAX"

lemma arena_okD:
  assumes "arena_ok fl hs n"
  shows "tiles (set fl \<union> live_blocks hs) n" "set fl \<inter> live_blocks hs = {}"
    "sorted_wrt gap fl" "n \<le> SAGE_ARENA_SIZE"
  using assms by (simp_all add: arena_ok_def)

lemma live_blocks_upd:
  assumes "hs h = None" "ALLOC_HEADER_SIZE \<le> n" "n \<le> SAGE_ARENA_SIZE"
  shows "live_blocks (hs(h \<mapsto> (of_nat (n - ALLOC_HEADER_SIZE), tag))) = insert (h, n) (live_blocks hs)"
proof -
  have "n - ALLOC_HEADER_SIZE < 2 ^ 64" using assms(3) by (simp add: alloc_consts)
  then have "unat (of_nat (n - ALLOC_HEADER_SIZE) :: u64) + ALLOC_HEADER_SIZE = n"
    using assms(2) by (simp add: u64_of_nat)
  then show ?thesis using assms(1) by (auto simp: live_blocks_def)
qed

lemma live_blocks_iff:
  "(h, n) \<in> live_blocks hs \<longleftrightarrow> (\<exists>sz tag. hs h = Some (sz, tag) \<and> n = unat sz + ALLOC_HEADER_SIZE)"
  by (auto simp: live_blocks_def)

lemma live_blocks_memI: "hs h = Some (sz, tag) \<Longrightarrow> (h, unat sz + ALLOC_HEADER_SIZE) \<in> live_blocks hs"
  by (auto simp: live_blocks_def)

lemma live_blocks_remove:
  assumes "hs h = Some (sz, tag)"
  shows "live_blocks (hs(h := None)) = live_blocks hs - {(h, unat sz + ALLOC_HEADER_SIZE)}"
proof (rule set_eqI)
  fix b :: "nat \<times> nat"
  show "b \<in> live_blocks (hs(h := None)) \<longleftrightarrow> b \<in> live_blocks hs - {(h, unat sz + ALLOC_HEADER_SIZE)}"
    using assms by (cases b; cases "fst b = h") (simp_all add: live_blocks_iff)
qed

lemma take_fit_Some:
  assumes "take_fit needed fl = Some ((off, got), fl')"
  obtains xs sz ys where "fl = xs @ (off, sz) # ys" "\<forall>b\<in>set xs. snd b < needed" "needed \<le> sz"
    "if needed + 32 \<le> sz then got = needed \<and> fl' = xs @ (off + needed, sz - needed) # ys
     else got = sz \<and> fl' = xs @ ys"
  using assms
proof (induction fl arbitrary: fl' thesis)
  case (Cons b fl)
  obtain cur sz where b: "b = (cur, sz)" by (cases b)
  show ?case
  proof (cases "needed \<le> sz")
    case True
    then show ?thesis
      using Cons.prems(2) b by (intro Cons.prems(1)[of "[]" sz fl])
        (auto simp: sizeof_FreeBlock_def ALIGNMENT_def split: if_splits)
  next
    case False
    then obtain fl1 where fl1: "take_fit needed fl = Some ((off, got), fl1)" "fl' = b # fl1"
      using Cons.prems(2) b by auto
    obtain xs sz' ys where xs: "fl = xs @ (off, sz') # ys" "\<forall>b\<in>set xs. snd b < needed" "needed \<le> sz'"
      "if needed + 32 \<le> sz' then got = needed \<and> fl1 = xs @ (off + needed, sz' - needed) # ys
       else got = sz' \<and> fl1 = xs @ ys"
      using Cons.IH[OF _ fl1(1)] by blast
    show ?thesis
      using xs False fl1(2) b by (intro Cons.prems(1)[of "b # xs" sz' ys]) (auto split: if_splits)
  qed
qed simp

lemma take_fit_None: "take_fit needed fl = None \<longleftrightarrow> (\<forall>b\<in>set fl. snd b < needed)"
  by (induction needed fl rule: take_fit.induct) auto

lemma free_not_live:
  assumes "arena_ok fl hs n" "(off, sz) \<in> set fl"
  shows "hs off = None"
proof (rule ccontr)
  assume "hs off \<noteq> None"
  then obtain u t where "hs off = Some (u, t)" by auto
  then have l: "(off, unat u + ALLOC_HEADER_SIZE) \<in> live_blocks hs" by (rule live_blocks_memI)
  then have "sz = unat u + ALLOC_HEADER_SIZE"
    using tiles_offset_unique[OF arena_okD(1)[OF assms(1)]] assms(2) by blast
  with l assms arena_okD(2) show False by blast
qed

lemma beyond_bump_not_live:
  assumes "arena_ok fl hs n"
  shows "hs n = None"
proof (rule ccontr)
  assume "hs n \<noteq> None"
  then obtain u t where "hs n = Some (u, t)" by auto
  then have "(n, unat u + ALLOC_HEADER_SIZE) \<in> live_blocks hs" by (rule live_blocks_memI)
  then show False
    using tilesD(2)[OF arena_okD(1)[OF assms], of n "unat u + ALLOC_HEADER_SIZE"]
    by (simp add: ALLOC_HEADER_SIZE_def)
qed

lemma gap_irrefl: "sorted_wrt gap (xs @ (a, m) # ys) \<Longrightarrow> (a, m) \<notin> set xs \<union> set ys"
  by (fastforce simp: sorted_wrt_append)

lemma stats_length [simp]: "length (count_alloc tag n st) = length st"
  by (simp add: count_alloc_def)

lemma fit_ok:
  assumes ok: "arena_ok fl hs n" and fit: "take_fit needed fl = Some ((off, got), fl')"
    and al: "16 dvd needed" and got: "ALLOC_HEADER_SIZE \<le> got"
  shows "arena_ok fl' (hs(off \<mapsto> (of_nat (got - ALLOC_HEADER_SIZE), tag))) n"
    "\<exists>sz. (off, sz) \<in> set fl \<and> needed \<le> got \<and> got \<le> sz"
proof -
  obtain xs sz ys where fl: "fl = xs @ (off, sz) # ys" "needed \<le> sz"
    "if needed + 32 \<le> sz then got = needed \<and> fl' = xs @ (off + needed, sz - needed) # ys
     else got = sz \<and> fl' = xs @ ys"
    using take_fit_Some[OF fit] by metis
  let ?C = "set xs \<union> set ys \<union> live_blocks hs"
  have t: "tiles (insert (off, sz) ?C) n" using arena_okD(1)[OF ok] by (simp add: fl(1) Un_assoc)
  have sorted: "sorted_wrt gap (xs @ (off, sz) # ys)" using arena_okD(3)[OF ok] by (simp add: fl(1))
  have notC: "(off, sz) \<notin> ?C"
    using gap_irrefl[OF sorted] arena_okD(2)[OF ok] by (auto simp: fl(1))
  have bounds: "sz \<le> n" "n \<le> SAGE_ARENA_SIZE" using tilesD(2)[OF t insertI1] arena_okD(4)[OF ok] by auto
  have got': "needed \<le> got" "got \<le> sz" using fl(2,3) by (auto split: if_splits)
  then show "\<exists>sz. (off, sz) \<in> set fl \<and> needed \<le> got \<and> got \<le> sz" using fl(1) by auto
  have none: "hs off = None" using free_not_live[OF ok, of off sz] by (simp add: fl(1))
  have live: "live_blocks (hs(off \<mapsto> (of_nat (got - ALLOC_HEADER_SIZE), tag))) = insert (off, got) (live_blocks hs)"
    using live_blocks_upd[of hs off got tag, OF none got] got'(2) bounds by simp
  have disj: "(set xs \<union> set ys) \<inter> live_blocks hs = {}" using arena_okD(2)[OF ok] by (auto simp: fl(1))
  show "arena_ok fl' (hs(off \<mapsto> (of_nat (got - ALLOC_HEADER_SIZE), tag))) n"
  proof (cases "needed + 32 \<le> sz")
    case True
    then have g: "got = needed" "fl' = xs @ (off + needed, sz - needed) # ys" using fl(3) by auto
    have pos: "0 < needed" "needed < sz" using got g(1) True by (auto simp: ALLOC_HEADER_SIZE_def)
    have "tiles (insert (off, needed) (insert (off + needed, sz - needed) ?C)) n"
      by (rule tiles_split_insert[OF t notC pos al])
    then have "tiles (set fl' \<union> insert (off, got) (live_blocks hs)) n"
      unfolding g by (simp add: insert_commute Un_assoc)
    moreover have "(off + needed, sz - needed) \<notin> live_blocks hs"
      using tiles_disjoint[OF t insertI1, of "off + needed" "sz - needed"] pos by auto
    moreover have "(off, got) \<notin> set fl'"
      using sorted pos by (auto simp: g sorted_wrt_append)
    moreover have "sorted_wrt gap fl'" using sorted pos by (auto simp: g sorted_wrt_append)
    ultimately show ?thesis using live disj bounds(2) by (auto simp: arena_ok_def g(2))
  next
    case False
    then have g: "got = sz" "fl' = xs @ ys" using fl(3) by auto
    have "sorted_wrt gap fl'" using sorted by (auto simp: g sorted_wrt_append)
    moreover have "tiles (set fl' \<union> insert (off, got) (live_blocks hs)) n" using t by (simp add: g Un_assoc)
    ultimately show ?thesis using live disj bounds(2) notC by (auto simp: arena_ok_def g)
  qed
qed

lemma bump_ok:
  assumes ok: "arena_ok fl hs n" and m: "16 dvd m" "ALLOC_HEADER_SIZE \<le> m" "n + m \<le> SAGE_ARENA_SIZE"
  shows "arena_ok fl (hs(n \<mapsto> (of_nat (m - ALLOC_HEADER_SIZE), tag))) (n + m)"
proof -
  have live: "live_blocks (hs(n \<mapsto> (of_nat (m - ALLOC_HEADER_SIZE), tag))) = insert (n, m) (live_blocks hs)"
    using live_blocks_upd[of hs n m tag, OF beyond_bump_not_live[OF ok] m(2)] m(3) by simp
  have "tiles (insert (n, m) (set fl \<union> live_blocks hs)) (n + m)"
    using tiles_extend[OF arena_okD(1)[OF ok]] m by (simp add: ALLOC_HEADER_SIZE_def)
  moreover have "(n, m) \<notin> set fl"
    using tilesD(2)[OF arena_okD(1)[OF ok], of n m] m(2) by (auto simp: ALLOC_HEADER_SIZE_def)
  ultimately show ?thesis using arena_okD(2,3)[OF ok] m(3) live by (simp add: arena_ok_def)
qed

section \<open>Releasing a block\<close>

text \<open>
  The state between the steps of \<^verbatim>\<open>sage_free\<close>: the list is cut at the released block, every
  block before it ends at or before it, every block after it starts at or after its end.
\<close>
definition cut_ok :: "(nat \<times> nat) set \<Rightarrow> nat \<Rightarrow> (nat \<times> nat) list \<Rightarrow> nat \<times> nat \<Rightarrow> (nat \<times> nat) list \<Rightarrow> bool" where
  "cut_ok L n before b rest \<longleftrightarrow>
    tiles (insert b (set before \<union> set rest \<union> L)) n \<and>
    sorted_wrt gap (before @ rest) \<and> b \<notin> L \<and> (set before \<union> set rest) \<inter> L = {} \<and>
    (\<forall>x\<in>set before. fst x + snd x \<le> fst b) \<and> (\<forall>y\<in>set rest. fst b + snd b \<le> fst y)"

lemma cut_notin:
  assumes "cut_ok L n before b rest"
  shows "b \<notin> set before \<union> set rest \<union> L"
proof -
  have "0 < snd b" using assms tilesD(1)[of _ n "fst b" "snd b"] by (auto simp: cut_ok_def)
  with assms show ?thesis by (fastforce simp: cut_ok_def)
qed

lemma coalesce_next_ok:
  assumes c: "cut_ok L n before b rest" and r: "coalesce_next b rest = (b', rest')"
  shows "cut_ok L n before b' rest'" "\<forall>y\<in>set rest'. gap b' y" "fst b' = fst b"
proof -
  have "cut_ok L n before b' rest' \<and> (\<forall>y\<in>set rest'. gap b' y) \<and> fst b' = fst b"
  proof (cases rest)
    case Nil
    with c r show ?thesis by (cases b) auto
  next
    case (Cons y ys)
    obtain a m o' k where b: "b = (a, m)" and y: "y = (o', k)" by (cases b, cases y)
    show ?thesis
    proof (cases "a + m = o'")
      case True
      then have r': "b' = (a, m + k)" "rest' = ys" using r b y Cons by auto
      let ?C = "set before \<union> set ys \<union> L"
      have t: "tiles (insert (a, m) (insert (a + m, k) ?C)) n"
        using c by (simp add: cut_ok_def Cons b y True insert_commute Un_assoc)
      have nb: "(a, m) \<notin> ?C" using cut_notin[OF c] by (auto simp: Cons b)
      have ny: "(a + m, k) \<notin> ?C"
        using c by (fastforce simp: cut_ok_def Cons y True sorted_wrt_append)
      have "tiles (insert b' (set before \<union> set rest' \<union> L)) n"
        using tiles_merge_insert[OF t nb ny] by (simp add: r')
      moreover have k: "0 < k" using tilesD(1)[OF t, of "a + m" k] by simp
      moreover have "b' \<notin> L"
        using tiles_offset_unique[OF t insertI1, of "m + k"] k by (auto simp: r')
      moreover have "fst b' + snd b' \<le> fst z \<and> gap b' z" if "z \<in> set rest'" for z
        using c that unfolding cut_ok_def Cons y True[symmetric] r' by (auto simp: sorted_wrt_append)
      ultimately show ?thesis
        using c unfolding cut_ok_def Cons b y r' by (auto simp: sorted_wrt_append)
    next
      case False
      then have r': "b' = b" "rest' = rest" using r b y Cons by auto
      have "gap b z" if "z \<in> set rest" for z
        using c False that by (fastforce simp: cut_ok_def Cons b y sorted_wrt_append)
      with c show ?thesis by (simp add: r')
    qed
  qed
  then show "cut_ok L n before b' rest'" "\<forall>y\<in>set rest'. gap b' y" "fst b' = fst b" by auto
qed

lemma coalesce_prev_ok:
  assumes c: "cut_ok L n before b rest" and g: "\<forall>y\<in>set rest. gap b y"
  shows "sorted_wrt gap (coalesce_prev before b @ rest)"
    "tiles (set (coalesce_prev before b @ rest) \<union> L) n"
    "set (coalesce_prev before b @ rest) \<inter> L = {}"
proof -
  let ?fl = "coalesce_prev before b @ rest"
  have "sorted_wrt gap ?fl \<and> tiles (set ?fl \<union> L) n \<and> set ?fl \<inter> L = {}"
  proof (cases "before \<noteq> [] \<and> fst (last before) + snd (last before) = fst b")
    case True
    then obtain xs p m where p: "before = xs @ [(p, m)]" by (metis prod.exhaust rev_exhaust)
    obtain k where b: "b = (p + m, k)" using True by (cases b) (auto simp: p)
    have fl: "?fl = xs @ (p, m + k) # rest" using True by (simp add: coalesce_prev_def p b)
    let ?C = "set xs \<union> set rest \<union> L"
    have t: "tiles (insert (p, m) (insert (p + m, k) ?C)) n"
      using c by (simp add: cut_ok_def p b insert_commute Un_assoc)
    have nb: "(p + m, k) \<notin> ?C" using cut_notin[OF c] by (auto simp: p b)
    have np: "(p, m) \<notin> ?C"
      using c by (fastforce simp: cut_ok_def p sorted_wrt_append)
    have k: "0 < k" using tilesD(1)[OF t, of "p + m" k] by simp
    have "tiles (set ?fl \<union> L) n" using tiles_merge_insert[OF t np nb] by (simp add: fl Un_assoc)
    moreover have "(p, m + k) \<notin> L"
      using tiles_offset_unique[OF t insertI1, of "m + k"] k by auto
    moreover have "sorted_wrt gap ?fl"
      using c g unfolding fl by (fastforce simp: cut_ok_def p b sorted_wrt_append)
    ultimately show ?thesis using c unfolding fl by (auto simp: cut_ok_def p)
  next
    case False
    then have fl: "?fl = before @ b # rest" by (auto simp: coalesce_prev_def)
    have "gap x b" if "x \<in> set before" for x
    proof (cases "x = last before")
      case True
      have "fst x + snd x \<le> fst b" using c that by (simp add: cut_ok_def)
      moreover have "before \<noteq> []" using that by auto
      ultimately show ?thesis using True False by auto
    next
      case neq: False
      have "before \<noteq> []" using that by auto
      then obtain ys l where ys: "before = ys @ [l]" by (metis rev_exhaust)
      with neq that have "x \<in> set ys" by auto
      then have "gap x l" "fst l + snd l \<le> fst b"
        using c unfolding cut_ok_def ys by (auto simp: sorted_wrt_append)
      then show ?thesis by simp
    qed
    then have "sorted_wrt gap ?fl" using c g unfolding fl by (auto simp: cut_ok_def sorted_wrt_append)
    then show ?thesis using c unfolding fl by (auto simp: cut_ok_def)
  qed
  then show "sorted_wrt gap ?fl" "tiles (set ?fl \<union> L) n" "set ?fl \<inter> L = {}" by auto
qed

lemma after_cut: "\<lbrakk>sorted_wrt gap fl; y \<in> set (dropWhile (\<lambda>b. fst b < h) fl)\<rbrakk> \<Longrightarrow> h \<le> fst y"
  by (induction fl) (auto split: if_splits)

lemma release_ok:
  assumes ok: "arena_ok fl hs n" and h: "hs h = Some (sz, tag)"
  shows "arena_ok (link_free (h, unat sz + ALLOC_HEADER_SIZE) fl) (hs(h := None)) n"
proof -
  define m where "m = unat sz + ALLOC_HEADER_SIZE"
  define before where "before = takeWhile (\<lambda>b. fst b < h) fl"
  define rest where "rest = dropWhile (\<lambda>b. fst b < h) fl"
  have fl: "fl = before @ rest" by (simp add: before_def rest_def)
  let ?L = "live_blocks hs - {(h, m)}"
  have mem: "(h, m) \<in> live_blocks hs" unfolding m_def using h by (rule live_blocks_memI)
  have t: "tiles (set fl \<union> live_blocks hs) n" using ok by (rule arena_okD)
  have notfl: "(h, m) \<notin> set fl" using arena_okD(2)[OF ok] mem by blast
  have far: "fst x + snd x \<le> h \<or> h + m \<le> fst x" if "x \<in> set fl" for x
  proof -
    have "x \<noteq> (h, m)" using that notfl by auto
    then show ?thesis
      using tiles_disjoint[OF t, of "fst x" "snd x" h m] that mem by auto
  qed
  have before: "fst x < h" "x \<in> set fl" if "x \<in> set before" for x
    using set_takeWhileD[OF that[unfolded before_def]] by auto
  have rest: "h \<le> fst x" "x \<in> set fl" if "x \<in> set rest" for x
    using after_cut[OF arena_okD(3)[OF ok] that[unfolded rest_def]]
      set_dropWhileD[OF that[unfolded rest_def]] by auto
  have pos: "0 < snd x" if "x \<in> set fl" for x
    using tilesD(1)[OF t, of "fst x" "snd x"] that by simp
  have "insert (h, m) (set before \<union> set rest \<union> ?L) = set fl \<union> live_blocks hs"
    using mem by (auto simp: fl)
  then have "tiles (insert (h, m) (set before \<union> set rest \<union> ?L)) n" using t by simp
  moreover have "fst x + snd x \<le> h" if "x \<in> set before" for x
    using far[OF before(2)[OF that]] before(1)[OF that] by simp
  moreover have "h + m \<le> fst x" if "x \<in> set rest" for x
    using far[OF rest(2)[OF that]] rest(1)[OF that] pos[OF rest(2)[OF that]] by simp
  moreover have "(set before \<union> set rest) \<inter> ?L = {}" using arena_okD(2)[OF ok] by (auto simp: fl)
  ultimately have cut: "cut_ok ?L n before (h, m) rest"
    using arena_okD(3)[OF ok] by (simp add: cut_ok_def fl)
  obtain b rest' where r: "coalesce_next (h, m) rest = (b, rest')" by fastforce
  note c = coalesce_next_ok[OF cut r]
  have "link_free (h, m) fl = coalesce_prev before b @ rest'"
    using r by (simp add: link_free_def before_def rest_def)
  with coalesce_prev_ok[OF c(1,2)] live_blocks_remove[of hs h, OF h] arena_okD(4)[OF ok] show ?thesis
    by (simp add: arena_ok_def m_def)
qed

lemma block_in_arena:
  assumes "arena_ok fl hs n" "hs h = Some (sz, tag)"
  shows "h + (unat sz + ALLOC_HEADER_SIZE) \<le> n" "unat sz + ALLOC_HEADER_SIZE \<le> SAGE_ARENA_SIZE"
    "16 dvd unat sz" "16 dvd h"
proof -
  have "(h, unat sz + ALLOC_HEADER_SIZE) \<in> set fl \<union> live_blocks hs"
    using live_blocks_memI[of hs h sz tag] assms(2) by blast
  note t = tilesD[OF arena_okD(1)[OF assms(1)] this]
  show "h + (unat sz + ALLOC_HEADER_SIZE) \<le> n" "16 dvd h" using t by auto
  then show "unat sz + ALLOC_HEADER_SIZE \<le> SAGE_ARENA_SIZE" using arena_okD(4)[OF assms(1)] by simp
  show "16 dvd unat sz" using t(4) by (simp add: ALLOC_HEADER_SIZE_def)
qed

lemma released_size:
  assumes "arena_ok fl hs n" "hs h = Some (sz, tag)"
  shows "unat (ALIGN (sz + of_nat ALLOC_HEADER_SIZE)) = unat sz + ALLOC_HEADER_SIZE"
proof -
  note b = block_in_arena[OF assms]
  have "sz + of_nat ALLOC_HEADER_SIZE = (of_nat (unat sz + ALLOC_HEADER_SIZE) :: u64)"
    by simp
  moreover have "unat (ALIGN (of_nat (unat sz + ALLOC_HEADER_SIZE))) = unat sz + ALLOC_HEADER_SIZE"
    using b by (intro ALIGN_exact) (simp_all add: alloc_consts)
  ultimately show ?thesis by simp
qed

lemma sage_free_Some:
  assumes "heap_inv s" "sage_free (Some p) s = Some s'"
  obtains sz tag where "ALLOC_HEADER_SIZE \<le> p" "headers s (p - ALLOC_HEADER_SIZE) = Some (sz, tag)"
    "heap_inv s'" "headers s' = (headers s)(p - ALLOC_HEADER_SIZE := None)" "bytes s' = bytes s"
    "sage_bump s' = sage_bump s"
    "g_free_list s' = link_free (p - ALLOC_HEADER_SIZE, unat sz + ALLOC_HEADER_SIZE) (g_free_list s)"
proof -
  have p: "ALLOC_HEADER_SIZE \<le> p" and "\<exists>u. headers s (p - ALLOC_HEADER_SIZE) = Some u"
    using assms(2) by (auto simp: sage_free_def Let_def split: if_splits option.splits)
  then obtain sz tag where h: "headers s (p - ALLOC_HEADER_SIZE) = Some (sz, tag)" by auto
  have ok: "arena_ok (g_free_list s) (headers s) (sage_bump s)" using assms(1) by (simp add: heap_inv_def)
  have s': "s' = s\<lparr>g_free_list := link_free (p - ALLOC_HEADER_SIZE, unat sz + ALLOC_HEADER_SIZE) (g_free_list s),
      headers := (headers s)(p - ALLOC_HEADER_SIZE := None), emitted := emitted s @ [Alloc_free p]\<rparr>"
    using assms(2) p released_size[OF ok h] by (auto simp: sage_free_def h Let_def)
  show ?thesis
    using release_ok[OF ok h] assms(1) by (intro that[OF p h]) (simp_all add: s' heap_inv_def)
qed

lemma sage_free_defined:
  assumes "ALLOC_HEADER_SIZE \<le> p" "headers s (p - ALLOC_HEADER_SIZE) = Some u"
  shows "\<exists>s'. sage_free (Some p) s = Some s'"
  using assms by (cases u) (simp add: sage_free_def Let_def)

section \<open>Requests\<close>

text \<open>The block size computed for a request, with the wrap-around of the two additions.\<close>
definition block_need :: "u64 \<Rightarrow> nat" where
  "block_need req = unat (ALIGN (req + of_nat ALLOC_HEADER_SIZE))"

lemma block_need_dvd: "16 dvd block_need req"
  by (simp add: block_need_def ALIGN_multiple)

lemma block_need_covers:
  assumes "unat req + 31 < 2 ^ 64"
  shows "unat req + ALLOC_HEADER_SIZE \<le> block_need req" "block_need req < unat req + 32"
proof -
  have "unat (req + 16) = unat req + 16" using assms by (simp add: unat_word_ariths)
  then have "block_need req = (unat req + 31) div 16 * 16"
    using unat_ALIGN[of "req + 16"] assms by (simp add: block_need_def ALLOC_HEADER_SIZE_def)
  then show "unat req + ALLOC_HEADER_SIZE \<le> block_need req" "block_need req < unat req + 32"
    by (simp_all add: ALLOC_HEADER_SIZE_def)
qed

text \<open>A free block is large enough for the request, or the arena has room above the bump offset.\<close>
definition malloc_fits :: "u64 \<Rightarrow> heap \<Rightarrow> bool" where
  "malloc_fits req s \<longleftrightarrow>
    list_ex (\<lambda>b. block_need req \<le> snd b) (g_free_list s) \<or> sage_bump s + block_need req \<le> SAGE_ARENA_SIZE"

text \<open>A successful request: the new block, and the state that holds it.\<close>
definition granted :: "u64 \<Rightarrow> u32 \<Rightarrow> heap \<Rightarrow> nat \<Rightarrow> heap \<Rightarrow> bool" where
  "granted req tag s p s' \<longleftrightarrow> (\<exists>h n.
    p = h + ALLOC_HEADER_SIZE \<and> headers s h = None \<and> ALLOC_HEADER_SIZE \<le> n \<and> block_need req \<le> n \<and>
    n \<le> SAGE_ARENA_SIZE \<and>
    headers s' = (headers s)(h \<mapsto> (of_nat (n - ALLOC_HEADER_SIZE), tag)) \<and>
    bytes s' = clear_bytes p (n - ALLOC_HEADER_SIZE) (bytes s) \<and>
    g_alloc_stats s' = count_alloc tag req (g_alloc_stats s))"

lemma malloc_Some:
  assumes inv: "heap_inv s" and m: "sage_malloc_tagged req tag s = Some (r, s')"
  shows "heap_inv s'" "case r of None \<Rightarrow> s' = s | Some p \<Rightarrow> granted req tag s p s'"
proof -
  have ok: "arena_ok (g_free_list s) (headers s) (sage_bump s)" and st: "length (g_alloc_stats s) = unat ALLOC_TAG_MAX"
    using inv by (auto simp: heap_inv_def)
  have "heap_inv s' \<and> (case r of None \<Rightarrow> s' = s | Some p \<Rightarrow> granted req tag s p s')"
  proof (cases "req = 0 \<or> r = None")
    case True
    with m inv show ?thesis
      by (auto simp: sage_malloc_tagged_def Let_def split: if_splits option.splits prod.splits)
  next
    case False
    show ?thesis
    proof (cases "take_fit (block_need req) (g_free_list s)")
      case (Some f)
      then obtain off got fl where fit: "take_fit (block_need req) (g_free_list s) = Some ((off, got), fl)"
        by (metis prod.exhaust)
      then have got: "ALLOC_HEADER_SIZE \<le> got" and r: "r = Some (off + ALLOC_HEADER_SIZE)"
        and s': "s' = s\<lparr>g_free_list := fl,
                headers := (headers s)(off \<mapsto> (of_nat (got - ALLOC_HEADER_SIZE), tag)),
                bytes := clear_bytes (off + ALLOC_HEADER_SIZE) (got - ALLOC_HEADER_SIZE) (bytes s),
                g_alloc_stats := count_alloc tag req (g_alloc_stats s)\<rparr>"
        using m False by (auto simp: sage_malloc_tagged_def Let_def block_need_def split: if_splits)
      obtain sz where sz: "(off, sz) \<in> set (g_free_list s)" "block_need req \<le> got" "got \<le> sz"
        using fit_ok(2)[OF ok fit block_need_dvd got] by auto
      have "off + sz \<le> sage_bump s" using tilesD(2)[OF arena_okD(1)[OF ok]] sz(1) by blast
      then have "got \<le> SAGE_ARENA_SIZE" using arena_okD(4)[OF ok] sz(3) by simp
      then have "granted req tag s (off + ALLOC_HEADER_SIZE) s'"
        unfolding granted_def using free_not_live[OF ok sz(1)] got sz(2)
        by (intro exI[of _ off] exI[of _ got]) (simp add: s')
      then show ?thesis
        using fit_ok(1)[OF ok fit block_need_dvd got] st r by (simp add: s' heap_inv_def)
    next
      case None
      then have n: "ALLOC_HEADER_SIZE \<le> block_need req" "sage_bump s + block_need req \<le> SAGE_ARENA_SIZE"
        and r: "r = Some (sage_bump s + ALLOC_HEADER_SIZE)"
        and s': "s' = s\<lparr>sage_bump := sage_bump s + block_need req,
                  headers := (headers s)(sage_bump s \<mapsto> (of_nat (block_need req - ALLOC_HEADER_SIZE), tag)),
                  bytes := clear_bytes (sage_bump s + ALLOC_HEADER_SIZE) (block_need req - ALLOC_HEADER_SIZE) (bytes s),
                  g_alloc_stats := count_alloc tag req (g_alloc_stats s),
                  emitted := emitted s @ [Alloc_malloc req (sage_bump s + ALLOC_HEADER_SIZE)]\<rparr>"
        using m False by (auto simp: sage_malloc_tagged_def Let_def block_need_def split: if_splits)
      then have "granted req tag s (sage_bump s + ALLOC_HEADER_SIZE) s'"
        unfolding granted_def using beyond_bump_not_live[OF ok]
        by (intro exI[of _ "sage_bump s"] exI[of _ "block_need req"]) simp
      then show ?thesis
        using bump_ok[OF ok block_need_dvd n] st r by (simp add: s' heap_inv_def)
    qed
  qed
  then show "heap_inv s'" "case r of None \<Rightarrow> s' = s | Some p \<Rightarrow> granted req tag s p s'" by auto
qed

lemma malloc_inv: "\<lbrakk>heap_inv s; sage_malloc_tagged req tag s = Some (r, s')\<rbrakk> \<Longrightarrow> heap_inv s'"
  by (rule malloc_Some)

lemma heap_inv_bytes [simp]: "heap_inv (s\<lparr>bytes := bs\<rparr>) = heap_inv s"
  by (simp add: heap_inv_def)

lemma malloc_granted:
  "\<lbrakk>heap_inv s; sage_malloc_tagged req tag s = Some (Some p, s')\<rbrakk> \<Longrightarrow> granted req tag s p s'"
  using malloc_Some(2)[of s req tag "Some p" s'] by simp

lemma free_inv: "\<lbrakk>heap_inv s; sage_free ptr s = Some s'\<rbrakk> \<Longrightarrow> heap_inv s'"
  by (cases ptr) (auto simp: sage_free_def[of None] elim: sage_free_Some)

lemma realloc_cases:
  assumes "sage_realloc (Some p) n s = Some (r, s')" "n \<noteq> 0"
  obtains u tag where "headers s (p - ALLOC_HEADER_SIZE) = Some (u, tag)" "n \<le> u" "r = Some p" "s' = s"
  | u tag where "headers s (p - ALLOC_HEADER_SIZE) = Some (u, tag)" "u < n" "r = None"
      "sage_malloc_tagged n tag s = Some (None, s')"
  | u tag q s1 where "headers s (p - ALLOC_HEADER_SIZE) = Some (u, tag)" "u < n" "r = Some q"
      "sage_malloc_tagged n tag s = Some (Some q, s1)" "ALLOC_HEADER_SIZE \<le> p"
      "sage_free (Some p) (s1\<lparr>bytes := copy_bytes q p (unat u) (bytes s1)\<rparr>) = Some s'"
proof -
  obtain u tag where h: "headers s (p - ALLOC_HEADER_SIZE) = Some (u, tag)" and p: "ALLOC_HEADER_SIZE \<le> p"
    using assms by (auto simp: sage_realloc_def split: if_splits option.splits)
  show ?thesis
  proof (cases "n \<le> u")
    case True
    then show ?thesis using assms h p by (intro that(1)[OF h True]) (auto simp: sage_realloc_def)
  next
    case False
    then obtain np s1 where m: "sage_malloc_tagged n tag s = Some (np, s1)"
      using assms h p by (auto simp: sage_realloc_def split: bind_splits)
    show ?thesis
    proof (cases np)
      case None
      then show ?thesis using assms h p m False by (intro that(2)[OF h]) (auto simp: sage_realloc_def)
    next
      case (Some q)
      then show ?thesis using assms h p m False
        by (intro that(3)[OF h, of q s1]) (auto simp: sage_realloc_def split: bind_splits)
    qed
  qed
qed

lemma realloc_inv:
  assumes "heap_inv s" "sage_realloc ptr n s = Some (r, s')"
  shows "heap_inv s'"
proof (cases ptr)
  case None
  then show ?thesis using assms malloc_inv by (auto simp: sage_realloc_def sage_malloc_def)
next
  case (Some p)
  show ?thesis
  proof (cases "n = 0")
    case True
    then show ?thesis using assms Some free_inv by (auto simp: sage_realloc_def)
  next
    case False
    with assms(2) Some have "sage_realloc (Some p) n s = Some (r, s')" "n \<noteq> 0" by auto
    then show ?thesis
      by (cases rule: realloc_cases) (use assms(1) malloc_inv free_inv heap_inv_bytes in metis)+
  qed
qed

lemma live_regions_disjoint:
  assumes "heap_inv s" "headers s h = Some (u, t)" "headers s k = Some (v, t')" "h \<noteq> k"
  shows "h + (unat u + ALLOC_HEADER_SIZE) \<le> k \<or> k + (unat v + ALLOC_HEADER_SIZE) \<le> h"
proof -
  have "(h, unat u + ALLOC_HEADER_SIZE) \<in> live_blocks (headers s)"
    "(k, unat v + ALLOC_HEADER_SIZE) \<in> live_blocks (headers s)"
    using assms(2,3) by (auto intro: live_blocks_memI)
  moreover have "tiles (set (g_free_list s) \<union> live_blocks (headers s)) (sage_bump s)"
    using assms(1) arena_okD(1) by (simp add: heap_inv_def)
  ultimately show ?thesis using tiles_disjoint assms(4) by blast
qed

definition heap0 :: heap where
  "heap0 = \<lparr>sage_bump = 0, g_free_list = [], headers = Map.empty, bytes = (\<lambda>_. 0),
    g_alloc_stats = replicate 7 \<lparr>alloc_count = 0, bytes_total = 0\<rparr>, emitted = []\<rparr>"

lemma arena_reset_inv: "heap_inv (sage_arena_reset s)"
  by (simp add: heap_inv_def sage_arena_reset_def arena_ok_def live_blocks_def tiles_empty)

lemma heap0_inv: "heap_inv heap0"
  by (simp add: heap_inv_def heap0_def arena_ok_def live_blocks_def tiles_empty ALLOC_TAG_MAX_def)

text \<open>The computation of the first request on an empty heap, which the examples use.\<close>
lemma heap0_malloc:
  assumes "req \<noteq> 0" "unat req + 31 < 2 ^ 64" "block_need req \<le> SAGE_ARENA_SIZE"
  shows "\<exists>s'. sage_malloc_tagged req tag heap0 = Some (Some 16, s') \<and> sage_bump s' = block_need req \<and>
    headers s' = [0 \<mapsto> (of_nat (block_need req - 16), tag)] \<and> g_free_list s' = []"
proof -
  have "16 \<le> block_need req" using block_need_covers[OF assms(2)] by (simp add: ALLOC_HEADER_SIZE_def)
  moreover have "\<not> of_nat SAGE_ARENA_SIZE < (of_nat 0 :: u64) + ALIGN (req + of_nat ALLOC_HEADER_SIZE)"
    using assms(3) by (simp add: not_less word_le_nat_alt block_need_def SAGE_ARENA_SIZE_def)
  ultimately show ?thesis
    using assms(1,3) unfolding block_need_def
    by (simp add: sage_malloc_tagged_def heap0_def Let_def ALLOC_HEADER_SIZE_def)
qed

lemma free_covers_whole:
  assumes "arena_ok fl Map.empty n" "0 < n"
  shows "fl = [(0, n)]"
proof -
  have t: "tiles (set fl) n" using arena_okD(1)[OF assms(1)] by (simp add: live_blocks_def)
  have sorted: "sorted_wrt gap fl" using arena_okD(3)[OF assms(1)] .
  obtain m where m: "(0, m) \<in> set fl" "0 < m" using tiles_cover[OF t assms(2)] by auto
  have "n = m"
  proof (rule ccontr)
    assume "n \<noteq> m"
    then have "m < n" using tilesD(2)[OF t m(1)] by simp
    then obtain b k where b: "(b, k) \<in> set fl" "b \<le> m" "m < b + k" using t by (blast elim: tiles_cover)
    have "(b, k) \<noteq> (0, m)" using b(3) by auto
    then have bm: "b = m" using tiles_disjoint[OF t m(1) b(1)] b(2) m(2) b(3) by auto
    obtain i j where ij: "i < length fl" "fl ! i = (0, m)" "j < length fl" "fl ! j = (m, k)"
      using m(1) b(1) bm by (metis in_set_conv_nth)
    show False
    proof (cases "i < j")
      case True
      then show ?thesis using sorted_wrt_nth_less[OF sorted True ij(3)] ij by simp
    next
      case False
      then have "j < i" using ij m(2) by (cases "i = j") auto
      then show ?thesis using sorted_wrt_nth_less[OF sorted _ ij(1)] ij by fastforce
    qed
  qed
  have only: "x = (0, n)" if "x \<in> set fl" for x
    using tiles_disjoint[OF t m(1), of "fst x" "snd x"] tilesD[OF t, of "fst x" "snd x"] that \<open>n = m\<close> m(2)
    by (cases "x = (0, m)") auto
  show ?thesis
  proof (cases fl)
    case Nil
    with m(1) show ?thesis by simp
  next
    case (Cons x xs)
    show ?thesis
    proof (cases xs)
      case Nil
      then show ?thesis using Cons only by simp
    next
      case (Cons y ys)
      then have "gap x y" "x = (0, n)" "y = (0, n)" using \<open>fl = x # xs\<close> only sorted by auto
      then show ?thesis by simp
    qed
  qed
qed

lemma malloc_block_facts:
  assumes "heap_inv s" "sage_malloc_tagged req tag s = Some (Some p, s')"
  shows "\<exists>u. headers s' (p - ALLOC_HEADER_SIZE) = Some (u, tag) \<and> 16 dvd p \<and>
    p + unat u \<le> SAGE_ARENA_SIZE \<and> (unat req + 31 < 2 ^ 64 \<longrightarrow> unat req \<le> unat u) \<and>
    (\<forall>i<unat u. bytes s' (p + i) = 0) \<and>
    (\<forall>h v t. headers s h = Some (v, t) \<longrightarrow> headers s' h = Some (v, t) \<and>
      (p + unat u \<le> h \<or> h + ALLOC_HEADER_SIZE + unat v \<le> p - ALLOC_HEADER_SIZE) \<and>
      (\<forall>i<unat v. bytes s' (h + ALLOC_HEADER_SIZE + i) = bytes s (h + ALLOC_HEADER_SIZE + i)))"
proof -
  have inv': "heap_inv s'" using malloc_inv[OF assms] .
  obtain h n where g: "p = h + ALLOC_HEADER_SIZE" "headers s h = None" "ALLOC_HEADER_SIZE \<le> n"
    "block_need req \<le> n" "n \<le> SAGE_ARENA_SIZE"
    "headers s' = (headers s)(h \<mapsto> (of_nat (n - ALLOC_HEADER_SIZE), tag))"
    "bytes s' = clear_bytes p (n - ALLOC_HEADER_SIZE) (bytes s)"
    using malloc_granted[OF assms] by (auto simp: granted_def)
  define u :: u64 where "u = of_nat (n - ALLOC_HEADER_SIZE)"
  have u: "unat u = n - ALLOC_HEADER_SIZE"
    unfolding u_def using g(5) by (intro u64_of_nat) (simp add: SAGE_ARENA_SIZE_def)
  have hu: "headers s' h = Some (u, tag)" by (simp add: g(6) u_def)
  have bs: "bytes s' = clear_bytes p (unat u) (bytes s)" by (simp only: g(7) u)
  have ok': "arena_ok (g_free_list s') (headers s') (sage_bump s')" using inv' by (simp add: heap_inv_def)
  note b = block_in_arena[OF ok' hu]
  have "unat req \<le> unat u" if "unat req + 31 < 2 ^ 64"
    using block_need_covers(1)[OF that] g(4) u by simp
  moreover have "p + unat u \<le> SAGE_ARENA_SIZE"
    using b(1) arena_okD(4)[OF ok'] by (simp add: g(1))
  moreover have "16 dvd p" using b(4) by (simp add: g(1) ALLOC_HEADER_SIZE_def)
  moreover have "bytes s' (p + i) = 0" if "i < unat u" for i
    using that by (simp add: bs clear_bytes_def)
  moreover have "headers s' k = Some (v, t) \<and>
      (p + unat u \<le> k \<or> k + ALLOC_HEADER_SIZE + unat v \<le> h) \<and>
      (\<forall>i<unat v. bytes s' (k + ALLOC_HEADER_SIZE + i) = bytes s (k + ALLOC_HEADER_SIZE + i))"
    if k: "headers s k = Some (v, t)" for k v t
  proof -
    have "h \<noteq> k" using k g(2) by auto
    then have k': "headers s' k = Some (v, t)" using k by (simp add: g(6))
    have "p + unat u \<le> k \<or> k + ALLOC_HEADER_SIZE + unat v \<le> h"
      using live_regions_disjoint[OF inv' hu k' \<open>h \<noteq> k\<close>] by (simp add: g(1) algebra_simps)
    then show ?thesis using k' by (auto simp: g(1) bs clear_bytes_def)
  qed
  ultimately show ?thesis using hu by (intro exI[of _ u]) (simp add: g(1))
qed

lemma malloc_returns:
  assumes "heap_inv s" "unat req + SAGE_ARENA_SIZE + 32 < 2 ^ 64"
  shows "\<exists>r s'. sage_malloc_tagged req tag s = Some (r, s') \<and>
    (r \<noteq> None \<longleftrightarrow> req \<noteq> 0 \<and>
      ((\<exists>b\<in>set (g_free_list s). block_need req \<le> snd b) \<or>
       sage_bump s + block_need req \<le> SAGE_ARENA_SIZE))"
proof (cases "req = 0")
  case True
  then show ?thesis by (simp add: sage_malloc_tagged_def)
next
  case False
  have need: "ALLOC_HEADER_SIZE \<le> block_need req" "block_need req < unat req + 32"
    using block_need_covers[of req] assms(2) by auto
  show ?thesis
  proof (cases "take_fit (block_need req) (g_free_list s)")
    case (Some f)
    then obtain off got fl where fit: "take_fit (block_need req) (g_free_list s) = Some ((off, got), fl)"
      by (metis prod.exhaust)
    have "\<exists>b\<in>set (g_free_list s). block_need req \<le> snd b"
      using take_fit_None[of "block_need req" "g_free_list s"] Some by (metis not_less option.distinct(1))
    moreover have "block_need req \<le> got"
      using take_fit_Some[OF fit] by (metis order_refl)
    then have "ALLOC_HEADER_SIZE \<le> got" using need(1) by simp
    ultimately show ?thesis using False fit
      by (simp add: sage_malloc_tagged_def Let_def block_need_def)
  next
    case None
    have bump: "sage_bump s \<le> SAGE_ARENA_SIZE" using assms(1) by (simp add: heap_inv_def arena_ok_def)
    have "unat (of_nat (sage_bump s) + ALIGN (req + of_nat ALLOC_HEADER_SIZE)) = sage_bump s + block_need req"
      using bump need(2) assms(2) by (simp add: unat_word_ariths block_need_def u64_of_nat SAGE_ARENA_SIZE_def)
    then have "(of_nat (sage_bump s) + ALIGN (req + of_nat ALLOC_HEADER_SIZE) > of_nat SAGE_ARENA_SIZE)
      \<longleftrightarrow> SAGE_ARENA_SIZE < sage_bump s + block_need req"
      by (simp add: word_less_nat_alt u64_of_nat SAGE_ARENA_SIZE_def)
    moreover have "\<not> (\<exists>b\<in>set (g_free_list s). block_need req \<le> snd b)"
      using None take_fit_None[of "block_need req" "g_free_list s"] by (auto simp: not_le)
    ultimately show ?thesis using False None need(1)
      by (auto simp: sage_malloc_tagged_def Let_def block_need_def)
  qed
qed

section \<open>Properties\<close>

text \<open>
  C2. Every heap operation keeps the heap invariant: free and live blocks tile the arena below the
  bump offset, no block is both free and live, and the free list is in address order and
  coalesced. A request never leaves the heap half changed: one that fails leaves it as it was.
\<close>
theorem sage_heap_invariant:
  assumes "heap_inv s"
  shows "(\<forall>req tag r s'. sage_malloc_tagged req tag s = Some (r, s') \<longrightarrow>
      heap_inv s' \<and> (r = None \<longrightarrow> s' = s)) \<and>
    (\<forall>ptr s'. sage_free ptr s = Some s' \<longrightarrow> heap_inv s') \<and>
    (\<forall>ptr req r s'. sage_realloc ptr req s = Some (r, s') \<longrightarrow> heap_inv s') \<and>
    heap_inv (sage_arena_reset s)"
proof (intro conjI allI impI)
  fix req tag r s' assume m: "sage_malloc_tagged req tag s = Some (r, s')"
  note malloc_Some[OF assms m]
  then show "heap_inv s'" "r = None \<Longrightarrow> s' = s" by auto
qed (use assms free_inv realloc_inv arena_reset_inv in blast)+

theorem sage_heap_invariant_witness:
  "\<exists>s'. sage_malloc_tagged 24 0 heap0 = Some (Some 16, s') \<and> heap_inv s'"
proof -
  have "unat (ALIGN (24 + of_nat ALLOC_HEADER_SIZE)) = 48"
    by (simp add: unat_ALIGN_wrapped ALLOC_HEADER_SIZE_def)
  moreover have "(of_nat 0 :: u64) + ALIGN (24 + of_nat ALLOC_HEADER_SIZE) \<le> of_nat SAGE_ARENA_SIZE"
    using calculation by (simp add: word_le_nat_alt SAGE_ARENA_SIZE_def)
  ultimately obtain s' where "sage_malloc_tagged 24 0 heap0 = Some (Some 16, s')"
    by (simp add: sage_malloc_tagged_def heap0_def Let_def alloc_consts not_less)
  with sage_heap_invariant[OF heap0_inv] show ?thesis by blast
qed

text \<open>
  C3. A granted request gets memory of its own: the returned pointer is 16-byte aligned, its block
  ends inside the arena, overlaps no block that was live before, is large enough for the request when
  the size computation does not wrap, and its user bytes are all zero, while every block that
  was live keeps its header and its bytes.
\<close>
theorem sage_malloc_fresh_block:
  assumes "heap_inv s" "sage_malloc_tagged req tag s = Some (Some p, s')"
  shows "\<exists>u. headers s' (p - ALLOC_HEADER_SIZE) = Some (u, tag) \<and> 16 dvd p \<and>
    p + unat u \<le> SAGE_ARENA_SIZE \<and> (unat req + 31 < 2 ^ 64 \<longrightarrow> unat req \<le> unat u) \<and>
    (\<forall>i<unat u. bytes s' (p + i) = 0) \<and>
    (\<forall>h v t. headers s h = Some (v, t) \<longrightarrow> headers s' h = Some (v, t) \<and>
      (p + unat u \<le> h \<or> h + ALLOC_HEADER_SIZE + unat v \<le> p - ALLOC_HEADER_SIZE) \<and>
      (\<forall>i<unat v. bytes s' (h + ALLOC_HEADER_SIZE + i) = bytes s (h + ALLOC_HEADER_SIZE + i)))"
  using malloc_block_facts[OF assms] .

theorem sage_malloc_fresh_block_witness:
  "\<exists>s' u. sage_malloc_tagged 24 0 heap0 = Some (Some 16, s') \<and> 24 \<le> unat (u :: u64) \<and>
    headers s' 0 = Some (u, 0)"
proof -
  have "block_need 24 = 48" by (simp add: block_need_def unat_ALIGN_wrapped ALLOC_HEADER_SIZE_def)
  then obtain s' where "sage_malloc_tagged 24 0 heap0 = Some (Some 16, s')"
    using heap0_malloc[of 24 0] by (auto simp: SAGE_ARENA_SIZE_def)
  with sage_malloc_fresh_block[OF heap0_inv this] show ?thesis
    by (auto simp: ALLOC_HEADER_SIZE_def)
qed

text \<open>An offset that lies in a block of the free list.\<close>
definition free_at :: "nat \<Rightarrow> heap \<Rightarrow> bool" where
  "free_at x s \<longleftrightarrow> list_ex (\<lambda>(a, m). a \<le> x \<and> x < a + m) (g_free_list s)"

lemma free_at_iff:
  assumes "heap_inv s"
  shows "free_at x s \<longleftrightarrow> x < sage_bump s \<and> (\<forall>a m. (a, m) \<in> live_blocks (headers s) \<longrightarrow> \<not> (a \<le> x \<and> x < a + m))"
proof -
  have ok: "arena_ok (g_free_list s) (headers s) (sage_bump s)" using assms by (simp add: heap_inv_def)
  note t = arena_okD(1)[OF ok]
  show ?thesis
  proof
    assume "free_at x s"
    then obtain b k where b: "(b, k) \<in> set (g_free_list s)" "b \<le> x" "x < b + k"
      by (auto simp: free_at_def list_ex_iff)
    have "b + k \<le> sage_bump s" using tilesD(2)[OF t, of b k] b(1) by simp
    moreover have "\<not> (a \<le> x \<and> x < a + m)" if l: "(a, m) \<in> live_blocks (headers s)" for a m
    proof -
      have "(a, m) \<noteq> (b, k)" using arena_okD(2)[OF ok] l b(1) by auto
      then show ?thesis using tiles_disjoint[OF t, of a m b k] l b by auto
    qed
    ultimately show "x < sage_bump s \<and> (\<forall>a m. (a, m) \<in> live_blocks (headers s) \<longrightarrow> \<not> (a \<le> x \<and> x < a + m))"
      using b(3) by auto
  next
    assume *: "x < sage_bump s \<and> (\<forall>a m. (a, m) \<in> live_blocks (headers s) \<longrightarrow> \<not> (a \<le> x \<and> x < a + m))"
    then obtain a m where "(a, m) \<in> set (g_free_list s) \<union> live_blocks (headers s)" "a \<le> x" "x < a + m"
      using tiles_cover[OF t] by blast
    with * show "free_at x s" by (auto simp: free_at_def list_ex_iff)
  qed
qed

text \<open>
  C21. \<^verbatim>\<open>sage_free\<close> of a live block gives back exactly that block and coalesces completely: it returns; the
  free bytes are those that were free before and the bytes of the block with its header; the list
  stays in address order with a gap after every block, so that no two free blocks are adjacent; and
  when the block was the last live one, the free list is a single block that spans everything the
  bump offset has handed out.
\<close>
theorem sage_free_coalesces_all:
  assumes "heap_inv s" "ALLOC_HEADER_SIZE \<le> p" "headers s (p - ALLOC_HEADER_SIZE) = Some (sz, tag)"
  shows "\<exists>s'. sage_free (Some p) s = Some s' \<and>
    (\<forall>x. free_at x s' \<longleftrightarrow> free_at x s \<or> p - ALLOC_HEADER_SIZE \<le> x \<and> x < p + unat sz) \<and>
    (\<forall>i j. i < j \<longrightarrow> j < length (g_free_list s') \<longrightarrow>
      fst (g_free_list s' ! i) + snd (g_free_list s' ! i) < fst (g_free_list s' ! j)) \<and>
    (dom (headers s) = {p - ALLOC_HEADER_SIZE} \<longrightarrow> g_free_list s' = [(0, sage_bump s)])"
proof -
  let ?h = "p - ALLOC_HEADER_SIZE"
  obtain s' where s': "sage_free (Some p) s = Some s'" using sage_free_defined[OF assms(2,3)] ..
  have f: "heap_inv s'" "headers s' = (headers s)(?h := None)" "sage_bump s' = sage_bump s"
    using sage_free_Some[OF assms(1) s'] by auto
  have ok: "arena_ok (g_free_list s) (headers s) (sage_bump s)"
    "arena_ok (g_free_list s') (headers s') (sage_bump s)"
    using assms(1) f by (simp_all add: heap_inv_def)
  let ?m = "unat sz + ALLOC_HEADER_SIZE"
  have h: "(?h, ?m) \<in> live_blocks (headers s)" using live_blocks_memI[of "headers s", OF assms(3)] .
  have live: "live_blocks (headers s') = live_blocks (headers s) - {(?h, ?m)}"
    using live_blocks_remove[of "headers s", OF assms(3)] by (simp add: f(2))
  have "free_at x s' \<longleftrightarrow> free_at x s \<or> ?h \<le> x \<and> x < p + unat sz" for x
  proof -
    let ?in = "\<lambda>hs. \<exists>a m. (a, m) \<in> live_blocks hs \<and> a \<le> x \<and> x < a + m"
    have e: "?h + ?m = p + unat sz" using assms(2) by simp
    have "\<not> ?in (headers s')" if "?h \<le> x" "x < p + unat sz"
      using tiles_disjoint[OF arena_okD(1)[OF ok(1)], of _ _ ?h ?m] that h e by (fastforce simp: live)
    moreover have "x < sage_bump s" if "x < p + unat sz"
      using block_in_arena(1)[OF ok(1) assms(3)] e that by simp
    moreover have "?in (headers s) \<longleftrightarrow> ?in (headers s') \<or> ?h \<le> x \<and> x < p + unat sz"
      unfolding live e[symmetric] using h by blast
    moreover have "free_at x s \<longleftrightarrow> x < sage_bump s \<and> \<not> ?in (headers s)"
      "free_at x s' \<longleftrightarrow> x < sage_bump s \<and> \<not> ?in (headers s')"
      using free_at_iff[OF assms(1)] free_at_iff[OF f(1)] f(3) by auto
    ultimately show ?thesis by argo
  qed
  moreover have "\<forall>i j. i < j \<longrightarrow> j < length (g_free_list s') \<longrightarrow> gap (g_free_list s' ! i) (g_free_list s' ! j)"
    using sorted_wrt_nth_less[OF arena_okD(3)[OF ok(2)]] by blast
  moreover have "g_free_list s' = [(0, sage_bump s)]" if "dom (headers s) = {?h}"
  proof -
    have "dom (headers s') = {}" using that by (simp add: f(2))
    then have "headers s' = Map.empty" by simp
    then show ?thesis
      using free_covers_whole[of "g_free_list s'" "sage_bump s"] ok(2) block_in_arena(1)[OF ok(1) assms(3)]
      by (simp add: ALLOC_HEADER_SIZE_def)
  qed
  ultimately show ?thesis using s' by (intro exI[of _ s']) simp
qed

text \<open>A heap with one live block between two free ones, which its release merges.\<close>
definition between_free :: heap where
  "between_free = heap0\<lparr>sage_bump := 96, g_free_list := [(0, 32), (64, 32)], headers := [32 \<mapsto> (16, 0)]\<rparr>"

theorem sage_free_coalesces_all_witness:
  "heap_inv between_free \<and> (\<exists>s'. sage_free (Some 48) between_free = Some s' \<and>
    free_at 40 s' \<and> \<not> free_at 40 between_free \<and> g_free_list s' = [(0, 96)])"
proof -
  have "tiles {(64, 32), (32, 32), (0, 32)} 96"
    using tiles_extend[OF tiles_extend[OF tiles_extend[OF tiles_empty]], of 32 32 32] by simp
  moreover have live: "live_blocks [32 \<mapsto> (16 :: u64, 0 :: u32)] = {(32, 32)}"
    by (auto simp: live_blocks_def ALLOC_HEADER_SIZE_def split: if_splits)
  ultimately have inv: "heap_inv between_free"
    by (simp add: heap_inv_def between_free_def arena_ok_def heap0_def alloc_consts insert_commute)
  have "\<not> free_at 40 between_free" by (simp add: free_at_def between_free_def)
  moreover have "headers between_free (48 - ALLOC_HEADER_SIZE) = Some (16, 0)"
    "dom (headers between_free) = {32}" "sage_bump between_free = 96"
    by (simp_all add: between_free_def ALLOC_HEADER_SIZE_def)
  ultimately show ?thesis
    using sage_free_coalesces_all[OF inv, of 48 16 0] inv by (auto simp: ALLOC_HEADER_SIZE_def)
qed

text \<open>
  C22. A request whose size computation does not wrap always returns, and is granted exactly when it
  is not empty and either a free block is large enough or the arena has room above the bump
  offset; otherwise it gets \<^verbatim>\<open>NULL\<close>.
\<close>
theorem sage_malloc_granted_iff:
  assumes "heap_inv s" "unat req + SAGE_ARENA_SIZE + 32 < 2 ^ 64"
  shows "\<exists>r s'. sage_malloc_tagged req tag s = Some (r, s') \<and>
    (r \<noteq> None \<longleftrightarrow> req \<noteq> 0 \<and>
      ((\<exists>b\<in>set (g_free_list s). block_need req \<le> snd b) \<or>
       sage_bump s + block_need req \<le> SAGE_ARENA_SIZE))"
  using malloc_returns[OF assms] .

theorem sage_malloc_granted_iff_witness:
  "\<exists>r s'. sage_malloc_tagged 0x2000000 0 heap0 = Some (r, s') \<and> r = None"
proof -
  have "block_need 0x2000000 = 0x2000010"
    by (simp add: block_need_def unat_ALIGN_wrapped ALLOC_HEADER_SIZE_def)
  with sage_malloc_granted_iff[OF heap0_inv, of "0x2000000" 0] show ?thesis
    by (auto simp: heap0_def SAGE_ARENA_SIZE_def)
qed

text \<open>
  The size computation of \<^verbatim>\<open>sage_malloc_tagged\<close> is not checked for wrap-around. A request within 15
  bytes of \<open>2 ^ 64\<close> is treated as one of no bytes: when 16 bytes are left it is granted a block with
  fewer than 32 user bytes. \<^verbatim>\<open>sage_calloc_tagged\<close> has the same defect for a product that wraps.
\<close>
theorem sage_malloc_wrapped_request:
  assumes "heap_inv s" "2 ^ 64 \<le> unat req + 15" "sage_bump s + 16 \<le> SAGE_ARENA_SIZE"
  shows "\<exists>p s' u. sage_malloc_tagged req tag s = Some (Some p, s') \<and>
    headers s' (p - ALLOC_HEADER_SIZE) = Some (u, tag) \<and> unat u < 32 \<and>
    (\<forall>n size. n * size = req \<longrightarrow> sage_calloc_tagged n size tag s = Some (Some p, s'))"
proof -
  have "unat (req + 31) = unat req + 31 - 2 ^ 64"
    using assms(2) u64_bound[of req] by (simp add: unat_word_ariths mod_if)
  then have "unat (req + 31) div 16 = 1"
    using assms(2) u64_bound[of req] by (intro div_nat_eqI) simp_all
  moreover have "req + of_nat ALLOC_HEADER_SIZE + 15 = req + 31" by (simp add: ALLOC_HEADER_SIZE_def)
  ultimately have need: "block_need req = 16"
    unfolding block_need_def unat_ALIGN_wrapped by (simp add: add.commute)
  have "req \<noteq> 0" using assms(2) by auto
  show ?thesis
  proof (cases "take_fit 16 (g_free_list s)")
    case (Some f)
    then obtain off got fl where fit: "take_fit 16 (g_free_list s) = Some ((off, got), fl)"
      by (metis prod.exhaust)
    then have got: "16 \<le> got" "got < 48"
      by (auto elim!: take_fit_Some split: if_splits)
    have "unat (of_nat (got - 16) :: u64) = got - 16" using got by (intro u64_of_nat) simp
    then show ?thesis using fit got need \<open>req \<noteq> 0\<close>
      by (simp add: sage_malloc_tagged_def sage_calloc_tagged_def block_need_def Let_def ALLOC_HEADER_SIZE_def)
  next
    case None
    have al: "ALIGN (req + of_nat ALLOC_HEADER_SIZE) = 16"
      using need by (simp add: block_need_def word_unat_eq_iff)
    have "unat (of_nat (sage_bump s) + 16 :: u64) = sage_bump s + 16"
      using assms(3) by (simp add: unat_word_ariths u64_of_nat SAGE_ARENA_SIZE_def)
    then have "\<not> of_nat SAGE_ARENA_SIZE < (of_nat (sage_bump s) + 16 :: u64)"
      using assms(3) by (simp add: word_less_nat_alt u64_of_nat SAGE_ARENA_SIZE_def)
    then show ?thesis using None need \<open>req \<noteq> 0\<close> al assms(3)
      by (simp add: sage_malloc_tagged_def sage_calloc_tagged_def Let_def ALLOC_HEADER_SIZE_def not_less)
  qed
qed

theorem sage_malloc_wrapped_request_witness:
  "\<exists>p s' u. sage_malloc_tagged 0xFFFFFFFFFFFFFFFF 0 heap0 = Some (Some p, s') \<and>
    headers s' (p - ALLOC_HEADER_SIZE) = Some (u, 0) \<and> unat u < 32"
  using sage_malloc_wrapped_request[OF heap0_inv, of "0xFFFFFFFFFFFFFFFF" 0]
  by (auto simp: heap0_def SAGE_ARENA_SIZE_def)

text \<open>
  C23. \<^verbatim>\<open>sage_realloc\<close> of a live block to a larger size that succeeds returns a block in which the old
  user bytes are found unchanged; a size the block already has room for returns the same
  pointer and changes nothing; when no memory is left the old block stays as it was.
\<close>
theorem sage_realloc_preserves_bytes:
  assumes "heap_inv s" "ALLOC_HEADER_SIZE \<le> p" "headers s (p - ALLOC_HEADER_SIZE) = Some (u, tag)"
    "n \<noteq> 0" "sage_realloc (Some p) n s = Some (r, s')"
  shows "heap_inv s' \<and>
    (case r of
       None \<Rightarrow> s' = s \<and> u < n
     | Some q \<Rightarrow> (\<forall>i<unat u. bytes s' (q + i) = bytes s (p + i)) \<and>
         (if n \<le> u then q = p \<and> s' = s
          else headers s' (p - ALLOC_HEADER_SIZE) = None \<and>
            (\<exists>v. headers s' (q - ALLOC_HEADER_SIZE) = Some (v, tag) \<and>
              (unat n + 31 < 2 ^ 64 \<longrightarrow> unat n \<le> unat v))))"
  using assms(5,4)
proof (cases rule: realloc_cases)
  case (3 u' tag' q s1)
  then have eq: "u' = u" "tag' = tag" using assms(3) by auto
  let ?s2 = "s1\<lparr>bytes := copy_bytes q p (unat u) (bytes s1)\<rparr>"
  have i1: "heap_inv ?s2" using malloc_inv[OF assms(1) 3(4)] by simp
  have f: "sage_free (Some p) ?s2 = Some s'" using 3(6) eq by simp
  obtain v where v: "headers s1 (q - ALLOC_HEADER_SIZE) = Some (v, tag)"
      "unat n + 31 < 2 ^ 64 \<longrightarrow> unat n \<le> unat v"
      "\<forall>i<unat u. bytes s1 (p - ALLOC_HEADER_SIZE + ALLOC_HEADER_SIZE + i)
        = bytes s (p - ALLOC_HEADER_SIZE + ALLOC_HEADER_SIZE + i)"
    using malloc_block_facts[OF assms(1) 3(4)] assms(3) eq by blast
  have ne: "q - ALLOC_HEADER_SIZE \<noteq> p - ALLOC_HEADER_SIZE"
    using malloc_granted[OF assms(1) 3(4)] assms(3) by (auto simp: granted_def)
  have post: "headers s' = (headers s1)(p - ALLOC_HEADER_SIZE := None)" "heap_inv s'"
      "bytes s' = copy_bytes q p (unat u) (bytes s1)"
    using sage_free_Some[OF i1 f] by auto
  have "\<not> n \<le> u" using 3(2) eq by simp
  with post v ne assms(2) 3(3) show ?thesis by (auto simp: copy_bytes_def)
next
  case (2 u' tag')
  then show ?thesis using malloc_Some[OF assms(1) 2(4)] assms(3) by auto
qed (use assms(1,3) in auto)

theorem sage_realloc_preserves_bytes_witness:
  "\<exists>s1 s2. sage_malloc_tagged 24 0 heap0 = Some (Some 16, s1) \<and>
    sage_realloc (Some 16) 8 s1 = Some (Some 16, s2) \<and> s2 = s1 \<and> heap_inv s2"
proof -
  have "block_need 24 = 48" by (simp add: block_need_def unat_ALIGN_wrapped ALLOC_HEADER_SIZE_def)
  then obtain s1 where s1: "sage_malloc_tagged 24 0 heap0 = Some (Some 16, s1)"
      "headers s1 = [0 \<mapsto> (32, 0)]"
    using heap0_malloc[of 24 0] by (auto simp: SAGE_ARENA_SIZE_def)
  have r: "sage_realloc (Some 16) 8 s1 = Some (Some 16, s1)"
    by (simp add: sage_realloc_def s1(2) ALLOC_HEADER_SIZE_def)
  have "heap_inv s1 \<and> s1 = s1"
    using sage_realloc_preserves_bytes[OF malloc_inv[OF heap0_inv s1(1)] _ _ _ r, of 32 0] s1(2)
    by (simp add: ALLOC_HEADER_SIZE_def)
  with s1(1) r show ?thesis by blast
qed

end
