(* ===== verification/Sage_Rings.thy ===== *)
theory Sage_Rings
  imports Sage_Prelude
begin

text \<open>
  The interfaces of the kernel's two kinds of circular buffer. An \<open>overwrite_ring\<close> keeps the last
  \<open>N\<close> entries and drops the oldest (the kernel log and the trace buffer); a \<open>bounded_fifo\<close> refuses
  an entry when it is full (the message queue of an IPC endpoint). The laws are those of one
  insertion or removal on the indices; what a reader sees is proved once, in the locale.
\<close>

section \<open>Rings that overwrite\<close>

definition last_n :: "nat \<Rightarrow> 'a list \<Rightarrow> 'a list" where
  "last_n n xs = drop (length xs - n) xs"

lemma length_last_n [simp]: "length (last_n n xs) = min n (length xs)"
  by (simp add: last_n_def min_def)

lemma last_n_all: "length xs \<le> n \<Longrightarrow> last_n n xs = xs"
  by (simp add: last_n_def)

lemma last_n_snoc: "last_n n (last_n n xs @ ys) = last_n n (xs @ ys)"
proof (cases "length xs \<le> n")
  case False
  then have "length (last_n n xs @ ys) - n = length ys" by simp
  moreover have "length (xs @ ys) - n = (length xs - n) + length ys" using False by simp
  ultimately show ?thesis
    by (simp add: last_n_def add.commute)
qed (simp add: last_n_all)

locale overwrite_ring =
  fixes N :: nat
    and buf :: "'s \<Rightarrow> 'a list"
    and head :: "'s \<Rightarrow> nat"
    and total :: "'s \<Rightarrow> nat"
    and put :: "'a \<Rightarrow> 's \<Rightarrow> 's"
    and ring_ok :: "'s \<Rightarrow> bool"
  assumes N_pos: "0 < N"
    and ring_ok_iff: "ring_ok s \<longleftrightarrow> length (buf s) = N \<and> head s < N \<and> total s \<le> N \<and>
      (total s < N \<longrightarrow> head s = total s)"
    and put_buf: "ring_ok s \<Longrightarrow> buf (put x s) = (buf s)[head s := x]"
    and put_head: "ring_ok s \<Longrightarrow> head (put x s) = (head s + 1) mod N"
    and put_total: "ring_ok s \<Longrightarrow> total (put x s) = min N (total s + 1)"
begin

text \<open>The first index to read, and the entries from the oldest to the newest.\<close>
definition start :: "'s \<Rightarrow> nat" where
  "start s = (if total s < N then 0 else head s)"

definition contents :: "'s \<Rightarrow> 'a list" where
  "contents s = map (\<lambda>i. buf s ! ((start s + i) mod N)) [0..<total s]"

lemma length_contents [simp]: "length (contents s) = total s"
  by (simp add: contents_def)

lemma contents_nth: "i < total s \<Longrightarrow> contents s ! i = buf s ! ((start s + i) mod N)"
  by (simp add: contents_def)

lemma put_ok: "ring_ok s \<Longrightarrow> ring_ok (put x s)"
  using N_pos unfolding ring_ok_iff
  by (auto simp: put_buf put_head put_total ring_ok_iff)

lemma contents_put:
  assumes "ring_ok s"
  shows "contents (put x s) = last_n N (contents s @ [x])"
proof (cases "total s < N")
  case True
  then have h: "head s = total s" "length (buf s) = N" using assms by (auto simp: ring_ok_iff)
  have t: "total (put x s) = Suc (total s)" using True assms by (simp add: put_total)
  have s0: "start (put x s) = 0"
  proof (cases "Suc (total s) < N")
    case False
    with True have "Suc (total s) = N" by simp
    then show ?thesis using h assms by (simp add: start_def put_head)
  qed (simp add: start_def t)
  have "contents (put x s) = contents s @ [x]"
  proof (rule nth_equalityI)
    fix i assume "i < length (contents (put x s))"
    then have i: "i < Suc (total s)" by (simp add: t)
    then have "contents (put x s) ! i = (buf s)[total s := x] ! i"
      using True s0 assms h by (auto simp: contents_nth t put_buf)
    then show "contents (put x s) ! i = (contents s @ [x]) ! i"
      using i True h by (auto simp: nth_append contents_nth start_def nth_list_update)
  qed (simp add: t)
  with True show ?thesis by (simp add: last_n_all)
next
  case False
  then have full: "total s = N" "head s < N" "length (buf s) = N" using assms by (auto simp: ring_ok_iff)
  have t: "total (put x s) = N" using full assms by (simp add: put_total)
  have c: "last_n N (contents s @ [x]) = tl (contents s) @ [x]"
    using full N_pos by (simp add: last_n_def drop_Suc Suc_diff_le)
  show ?thesis unfolding c
  proof (rule nth_equalityI)
    show "length (contents (put x s)) = length (tl (contents s) @ [x])" using t full N_pos by simp
    fix i assume "i < length (contents (put x s))"
    then have i: "i < N" by (simp add: t)
    have idx: "contents (put x s) ! i = (buf s)[head s := x] ! ((head s + Suc i) mod N)"
      using i full assms by (simp add: contents_nth t put_buf put_head start_def mod_add_left_eq)
    show "contents (put x s) ! i = (tl (contents s) @ [x]) ! i"
    proof (cases "Suc i < N")
      case True
      then have "(head s + Suc i) mod N \<noteq> head s"
        using full(2) by (cases "head s + Suc i < N") (auto simp: mod_if)
      moreover have "i < N - 1" using True by simp
      ultimately show ?thesis
        using True full idx by (simp add: nth_append nth_tl contents_nth start_def)
    next
      case False
      then have "Suc i = N" using i by simp
      then have "(head s + Suc i) mod N = head s" "\<not> i < N - 1" "i - (N - 1) = 0" using full(2) by auto
      then show ?thesis using full idx by (simp add: nth_append)
    qed
  qed
qed

lemma contents_fold:
  assumes "ring_ok s"
  shows "ring_ok (fold put xs s)" "contents (fold put xs s) = last_n N (contents s @ xs)"
proof -
  have "ring_ok (fold put xs s) \<and> contents (fold put xs s) = last_n N (contents s @ xs)"
    using assms
  proof (induction xs arbitrary: s)
    case Nil
    then show ?case by (simp add: last_n_all ring_ok_iff)
  next
    case (Cons x xs)
    then show ?case
      using put_ok[OF Cons.prems, of x] contents_put[OF Cons.prems, of x] last_n_snoc[of N "contents s @ [x]" xs]
      by simp
  qed
  then show "ring_ok (fold put xs s)" "contents (fold put xs s) = last_n N (contents s @ xs)" by auto
qed

end

section \<open>Rings that refuse\<close>

text \<open>
  A bounded queue on a ring: \<open>push\<close> fails exactly when the ring is full and \<open>pop\<close> exactly when it is
  empty; otherwise they write at the head and read at the tail.
\<close>
locale bounded_fifo =
  fixes fifo_ok :: "'s \<Rightarrow> bool"
    and cap :: "'s \<Rightarrow> nat"
    and slots :: "'s \<Rightarrow> 'a list"
    and head :: "'s \<Rightarrow> nat"
    and tail :: "'s \<Rightarrow> nat"
    and count :: "'s \<Rightarrow> nat"
    and push :: "'a \<Rightarrow> 's \<Rightarrow> 's option"
    and pop :: "'s \<Rightarrow> ('a \<times> 's) option"
  assumes ok_iff: "fifo_ok s \<longleftrightarrow> 0 < cap s \<and> length (slots s) = cap s \<and> count s \<le> cap s \<and>
      tail s < cap s \<and> head s = (tail s + count s) mod cap s"
    and push_None: "fifo_ok s \<Longrightarrow> push x s = None \<longleftrightarrow> count s = cap s"
    and push_Some: "\<lbrakk>fifo_ok s; push x s = Some s'\<rbrakk> \<Longrightarrow>
      slots s' = (slots s)[head s := x] \<and> head s' = (head s + 1) mod cap s \<and> tail s' = tail s \<and>
      count s' = count s + 1 \<and> cap s' = cap s"
    and pop_None: "fifo_ok s \<Longrightarrow> pop s = None \<longleftrightarrow> count s = 0"
    and pop_Some: "\<lbrakk>fifo_ok s; pop s = Some (x, s')\<rbrakk> \<Longrightarrow>
      x = slots s ! tail s \<and> slots s' = slots s \<and> head s' = head s \<and>
      tail s' = (tail s + 1) mod cap s \<and> Suc (count s') = count s \<and> cap s' = cap s"
begin

definition queue :: "'s \<Rightarrow> 'a list" where
  "queue s = map (\<lambda>i. slots s ! ((tail s + i) mod cap s)) [0..<count s]"

lemma length_queue [simp]: "length (queue s) = count s"
  by (simp add: queue_def)

lemma slot_distinct:
  assumes "i < j" "j < n" "t < n"
  shows "(t + i) mod n \<noteq> (t + j) mod (n :: nat)"
  using assms by (auto simp: mod_if)

lemma queue_push:
  assumes ok: "fifo_ok s" and p: "push x s = Some s'"
  shows "fifo_ok s'" "queue s' = queue s @ [x]" "cap s' = cap s"
proof -
  note l = push_Some[OF ok p]
  have s: "0 < cap s" "length (slots s) = cap s" "tail s < cap s" "head s = (tail s + count s) mod cap s"
    "count s < cap s"
    using ok p push_None[OF ok, of x] by (auto simp: ok_iff le_less)
  show "cap s' = cap s" using l by simp
  have "(head s + 1) mod cap s = (tail s + Suc (count s)) mod cap s"
    using s(4) by (simp add: mod_Suc_eq)
  then show "fifo_ok s'" using l s by (simp add: ok_iff)
  have old: "slots s' ! ((tail s + i) mod cap s) = slots s ! ((tail s + i) mod cap s)" if "i < count s" for i
    using l s slot_distinct[of i "count s" "cap s" "tail s"] that by simp
  have "slots s' ! ((tail s + count s) mod cap s) = x" using l s by simp
  with old l show "queue s' = queue s @ [x]" by (simp add: queue_def)
qed

lemma queue_pop:
  assumes ok: "fifo_ok s" and p: "pop s = Some (x, s')"
  shows "fifo_ok s'" "queue s = x # queue s'" "cap s' = cap s"
proof -
  note l = pop_Some[OF ok p]
  have s: "0 < cap s" "length (slots s) = cap s" "tail s < cap s" "head s = (tail s + count s) mod cap s"
    "count s \<le> cap s" using ok by (auto simp: ok_iff)
  show "cap s' = cap s" using l by simp
  have shift: "(tail s' + i) mod cap s = (tail s + Suc i) mod cap s" for i
    using l by (simp add: mod_add_left_eq)
  have "head s' = (tail s' + count s') mod cap s" unfolding shift using l s by simp
  then show "fifo_ok s'" using l s by (auto simp: ok_iff)
  show "queue s = x # queue s'"
  proof (rule nth_equalityI)
    show "length (queue s) = length (x # queue s')" using l by simp
    fix i assume i: "i < length (queue s)"
    show "queue s ! i = (x # queue s') ! i"
    proof (cases i)
      case 0
      then show ?thesis using i l s by (simp add: queue_def)
    next
      case (Suc j)
      then have "j < count s'" using i l by simp
      then show ?thesis using i l Suc shift[of j] by (simp add: queue_def)
    qed
  qed
qed

lemma push_fails_iff: "fifo_ok s \<Longrightarrow> push x s = None \<longleftrightarrow> length (queue s) = cap s"
  by (simp add: push_None)

lemma pop_fails_iff: "fifo_ok s \<Longrightarrow> pop s = None \<longleftrightarrow> queue s = []"
  by (simp add: pop_None queue_def)

end

end
