(* ===== verification/Sage_Log.thy ===== *)
theory Sage_Log
  imports Sage_Rings
begin

text \<open>
  The kernel log (\<^verbatim>\<open>kernel/core/dmesg.c\<close>) and the trace buffer (\<^verbatim>\<open>kernel/core/telemetry.c\<close>). Both are
  circular buffers that overwrite their oldest entry; each interprets \<^const>\<open>overwrite_ring\<close>.
  The clock, the processor number and the current task, which the code reads from other
  subsystems, are arguments; the clock is a function of the number of times it was read, so that
  it may advance while a message is being logged. Console output is the list of characters or rows
  written. The spin lock of the trace buffer makes each call atomic.

  Shown: the log holds the last 128 KiB of the text logged so far, where a message contributes each
  of its lines with its own timestamp; a dump of the trace shows the last 1024 events that
  match the filter; the timestamp's digits fit their buffer and read back as the seconds.
\<close>

section \<open>The kernel log\<close>

definition DMESG_SIZE :: nat where "DMESG_SIZE = 128 * 1024"

record dmesg =
  dmesg_buf :: string
  dmesg_head :: u32
  dmesg_total :: u32
  dmesg_at_bol :: bool
  clock_reads :: nat

abbreviation newline :: char where "newline \<equiv> CHR 0x0A"
abbreviation nul :: char where "nul \<equiv> CHR 0x00"

definition append_char :: "char \<Rightarrow> dmesg \<Rightarrow> dmesg" where
  "append_char c s =
    s\<lparr>dmesg_buf := (dmesg_buf s)[unat (dmesg_head s) := c],
      dmesg_head := (dmesg_head s + 1) mod of_nat DMESG_SIZE,
      dmesg_total := (if dmesg_total s < of_nat DMESG_SIZE then dmesg_total s + 1 else dmesg_total s)\<rparr>"

text \<open>The loop \<^verbatim>\<open>while (v > 0) { buf[i++] = '0' + v % 10; v /= 10; }\<close>: the digits, least first.\<close>
fun digits_rev :: "nat \<Rightarrow> string" where
  "digits_rev v = (if v = 0 then [] else char_of (48 + v mod 10) # digits_rev (v div 10))"

declare digits_rev.simps [simp del]

definition timestamp_text :: "u64 \<Rightarrow> string" where
  "timestamp_text centiseconds =
    (let sec = unat (centiseconds div 100); csec = unat (centiseconds mod 100) in
     ''['' @ rev (if sec = 0 then ''0'' else digits_rev sec) @ ''.'' @
     [char_of (48 + csec div 10), char_of (48 + csec mod 10)] @ ''0000] '')"

definition append_timestamp :: "(nat \<Rightarrow> u64) \<Rightarrow> dmesg \<Rightarrow> dmesg" where
  "append_timestamp clk s =
    fold append_char (timestamp_text (clk (clock_reads s))) (s\<lparr>clock_reads := Suc (clock_reads s)\<rparr>)"

fun log_chars :: "(nat \<Rightarrow> u64) \<Rightarrow> string \<Rightarrow> dmesg \<Rightarrow> dmesg" where
  "log_chars clk [] s = s"
| "log_chars clk (c # cs) s =
    (let s1 = (if dmesg_at_bol s then (append_timestamp clk s)\<lparr>dmesg_at_bol := False\<rparr> else s);
         s2 = append_char c s1
     in log_chars clk cs (if c = newline then s2\<lparr>dmesg_at_bol := True\<rparr> else s2))"

definition end_line :: "dmesg \<Rightarrow> dmesg" where
  "end_line s = (if \<not> dmesg_at_bol s then (append_char newline s)\<lparr>dmesg_at_bol := True\<rparr> else s)"

definition dmesg_log :: "(nat \<Rightarrow> u64) \<Rightarrow> string option \<Rightarrow> dmesg \<Rightarrow> dmesg" where
  "dmesg_log clk msg s =
    (case msg of
       None \<Rightarrow> s
     | Some m \<Rightarrow>
         (let cs = takeWhile (\<lambda>c. c \<noteq> nul) m in
          if cs = [] then s else end_line (log_chars clk cs (end_line s))))"

definition dmesg_dump :: "dmesg \<Rightarrow> string" where
  "dmesg_dump s =
    (if dmesg_total s = 0 then []
     else
       let (start, count) =
         (if dmesg_total s < of_nat DMESG_SIZE then (0, dmesg_head s)
          else (dmesg_head s, of_nat DMESG_SIZE))
       in filter (\<lambda>c. c \<noteq> nul)
            (map (\<lambda>i. dmesg_buf s ! ((unat start + i) mod DMESG_SIZE)) [0..<unat count]))"

definition dmesg_get_total :: "dmesg \<Rightarrow> u32" where "dmesg_get_total s = dmesg_total s"
definition dmesg_get_head :: "dmesg \<Rightarrow> u32" where "dmesg_get_head s = dmesg_head s"
definition dmesg_get_size :: u32 where "dmesg_get_size = of_nat DMESG_SIZE"

definition dmesg_get_char :: "u32 \<Rightarrow> dmesg \<Rightarrow> char" where
  "dmesg_get_char index s = (if index \<ge> of_nat DMESG_SIZE then nul else dmesg_buf s ! unat index)"

section \<open>The trace buffer\<close>

definition TELEMETRY_BUFFER_SIZE :: nat where "TELEMETRY_BUFFER_SIZE = 1024"

datatype trace_event_t =
    TRACE_NONE | TRACE_SCHED_SWITCH | TRACE_SCHED_PRIORITY | TRACE_IPC_SEND | TRACE_IPC_RECV
  | TRACE_VM_EXEC | TRACE_VM_CALL | TRACE_ALLOC_MALLOC | TRACE_ALLOC_FREE | TRACE_SYSCALL_ENTER
  | TRACE_VFS_READ | TRACE_VFS_WRITE | TRACE_VFS_MOUNT | TRACE_TIMER_TICK | TRACE_BOOT_STAGE
  | TRACE_ALLOC_STATS | TRACE_MAX

record trace_entry =
  timestamp :: u64
  event :: trace_event_t
  cpu_id :: u32
  task_id :: u32
  arg1 :: u64
  arg2 :: u64

record telemetry =
  g_trace_buffer :: "trace_entry list"
  g_trace_head :: u32
  g_trace_count :: u32

definition telemetry_init :: "telemetry \<Rightarrow> telemetry" where
  "telemetry_init s = s\<lparr>g_trace_head := 0, g_trace_count := 0\<rparr>"

definition trace_put :: "trace_entry \<Rightarrow> telemetry \<Rightarrow> telemetry" where
  "trace_put e s =
    s\<lparr>g_trace_buffer := (g_trace_buffer s)[unat (g_trace_head s mod of_nat TELEMETRY_BUFFER_SIZE) := e],
      g_trace_head := (g_trace_head s + 1) mod of_nat TELEMETRY_BUFFER_SIZE,
      g_trace_count := (if g_trace_count s < of_nat TELEMETRY_BUFFER_SIZE
                        then g_trace_count s + 1 else g_trace_count s)\<rparr>"

definition trace_log :: "u64 \<Rightarrow> u32 \<Rightarrow> u32 option \<Rightarrow> trace_event_t \<Rightarrow> u64 \<Rightarrow> u64 \<Rightarrow> telemetry \<Rightarrow> telemetry" where
  "trace_log ticks cpu cur ev a1 a2 s =
    trace_put \<lparr>timestamp = ticks, event = ev, cpu_id = cpu,
      task_id = (case cur of None \<Rightarrow> 0 | Some i \<Rightarrow> i), arg1 = a1, arg2 = a2\<rparr> s"

fun event_name :: "trace_event_t \<Rightarrow> string" where
  "event_name TRACE_NONE = ''NONE''"
| "event_name TRACE_SCHED_SWITCH = ''SCHED_SWITCH''"
| "event_name TRACE_SCHED_PRIORITY = ''SCHED_PRIO''"
| "event_name TRACE_IPC_SEND = ''IPC_SEND''"
| "event_name TRACE_IPC_RECV = ''IPC_RECV''"
| "event_name TRACE_VM_EXEC = ''VM_EXEC''"
| "event_name TRACE_VM_CALL = ''VM_CALL''"
| "event_name TRACE_ALLOC_MALLOC = ''ALLOC_MALLOC''"
| "event_name TRACE_ALLOC_FREE = ''ALLOC_FREE''"
| "event_name TRACE_SYSCALL_ENTER = ''SYSCALL_ENTER''"
| "event_name TRACE_VFS_READ = ''VFS_READ''"
| "event_name TRACE_VFS_WRITE = ''VFS_WRITE''"
| "event_name TRACE_VFS_MOUNT = ''VFS_MOUNT''"
| "event_name TRACE_TIMER_TICK = ''TIMER_TICK''"
| "event_name TRACE_BOOT_STAGE = ''BOOT_STAGE''"
| "event_name TRACE_ALLOC_STATS = ''ALLOC_STATS''"
| "event_name TRACE_MAX = ''UNKNOWN''"

text \<open>One printed row: the low 32 bits of the time, the event's name, and the other fields.\<close>
definition trace_row :: "trace_entry \<Rightarrow> u32 \<times> string \<times> u32 \<times> u32 \<times> u64 \<times> u64" where
  "trace_row e = (ucast (timestamp e), event_name (event e), cpu_id e, task_id e, arg1 e, arg2 e)"

definition trace_dump_filtered ::
  "trace_event_t \<Rightarrow> telemetry \<Rightarrow> (u32 \<times> string \<times> u32 \<times> u32 \<times> u64 \<times> u64) list" where
  "trace_dump_filtered filt s =
    (let start = (if g_trace_count s < of_nat TELEMETRY_BUFFER_SIZE then 0 else g_trace_head s) in
     map trace_row (filter (\<lambda>e. filt = TRACE_NONE \<or> event e = filt)
       (map (\<lambda>i. g_trace_buffer s ! ((unat start + i) mod TELEMETRY_BUFFER_SIZE))
         [0..<unat (g_trace_count s)])))"

definition trace_dump :: "telemetry \<Rightarrow> (u32 \<times> string \<times> u32 \<times> u32 \<times> u64 \<times> u64) list" where
  "trace_dump = trace_dump_filtered TRACE_NONE"

definition trace_count :: "telemetry \<Rightarrow> int" where
  "trace_count s = sint (g_trace_count s)"

definition trace_clear :: "telemetry \<Rightarrow> telemetry" where
  "trace_clear s = s\<lparr>g_trace_head := 0, g_trace_count := 0\<rparr>"

section \<open>Both are overwriting rings\<close>

definition dmesg_ok :: "dmesg \<Rightarrow> bool" where
  "dmesg_ok s \<longleftrightarrow> length (dmesg_buf s) = DMESG_SIZE \<and> unat (dmesg_head s) < DMESG_SIZE \<and>
    unat (dmesg_total s) \<le> DMESG_SIZE \<and>
    (unat (dmesg_total s) < DMESG_SIZE \<longrightarrow> unat (dmesg_head s) = unat (dmesg_total s))"

lemma dmesg_size_word: "unat (of_nat DMESG_SIZE :: u32) = DMESG_SIZE"
  by (simp add: DMESG_SIZE_def)

lemma next_index:
  assumes "unat h < n" "n < 2 ^ 31"
  shows "unat ((h + 1 :: u32) mod of_nat n) = (unat h + 1) mod n"
proof -
  have "unat (of_nat n :: u32) = n" using assms by (intro u32_of_nat) simp
  moreover have "unat (h + 1) = unat h + 1" using assms by (simp add: unat_word_ariths)
  ultimately show ?thesis by (simp add: unat_mod)
qed

lemma next_count:
  assumes "unat c \<le> n" "n < 2 ^ 31"
  shows "unat (if c < (of_nat n :: u32) then c + 1 else c) = min n (unat c + 1)"
proof -
  have n: "unat (of_nat n :: u32) = n" using assms by (intro u32_of_nat) simp
  have "unat (c + 1) = unat c + 1" using assms by (simp add: unat_word_ariths)
  with n assms(1) show ?thesis by (simp add: word_less_nat_alt min_def)
qed

interpretation kmsg: overwrite_ring DMESG_SIZE dmesg_buf "\<lambda>s. unat (dmesg_head s)"
  "\<lambda>s. unat (dmesg_total s)" append_char dmesg_ok
proof
  show "0 < DMESG_SIZE" by (simp add: DMESG_SIZE_def)
next
  fix s x assume "dmesg_ok s"
  then have "unat (dmesg_head s) < DMESG_SIZE" "unat (dmesg_total s) \<le> DMESG_SIZE"
    by (auto simp: dmesg_ok_def)
  then show "dmesg_buf (append_char x s) = (dmesg_buf s)[unat (dmesg_head s) := x]"
    "unat (dmesg_head (append_char x s)) = (unat (dmesg_head s) + 1) mod DMESG_SIZE"
    "unat (dmesg_total (append_char x s)) = min DMESG_SIZE (unat (dmesg_total s) + 1)"
    using next_index[of "dmesg_head s" DMESG_SIZE] next_count[of "dmesg_total s" DMESG_SIZE]
    by (simp_all add: append_char_def DMESG_SIZE_def)
qed (simp add: dmesg_ok_def)

definition telemetry_ok :: "telemetry \<Rightarrow> bool" where
  "telemetry_ok s \<longleftrightarrow> length (g_trace_buffer s) = TELEMETRY_BUFFER_SIZE \<and>
    unat (g_trace_head s) < TELEMETRY_BUFFER_SIZE \<and> unat (g_trace_count s) \<le> TELEMETRY_BUFFER_SIZE \<and>
    (unat (g_trace_count s) < TELEMETRY_BUFFER_SIZE \<longrightarrow> unat (g_trace_head s) = unat (g_trace_count s))"

interpretation trace_ring: overwrite_ring TELEMETRY_BUFFER_SIZE g_trace_buffer "\<lambda>s. unat (g_trace_head s)"
  "\<lambda>s. unat (g_trace_count s)" trace_put telemetry_ok
proof
  show "0 < TELEMETRY_BUFFER_SIZE" by (simp add: TELEMETRY_BUFFER_SIZE_def)
next
  fix s x assume "telemetry_ok s"
  then have b: "unat (g_trace_head s) < TELEMETRY_BUFFER_SIZE" "unat (g_trace_count s) \<le> TELEMETRY_BUFFER_SIZE"
    by (auto simp: telemetry_ok_def)
  then have "g_trace_head s mod of_nat TELEMETRY_BUFFER_SIZE = g_trace_head s"
    by (simp add: word_unat_eq_iff unat_mod TELEMETRY_BUFFER_SIZE_def)
  then show "g_trace_buffer (trace_put x s) = (g_trace_buffer s)[unat (g_trace_head s) := x]"
    by (simp add: trace_put_def)
  show "unat (g_trace_head (trace_put x s)) = (unat (g_trace_head s) + 1) mod TELEMETRY_BUFFER_SIZE"
    "unat (g_trace_count (trace_put x s)) = min TELEMETRY_BUFFER_SIZE (unat (g_trace_count s) + 1)"
    using b next_index[of "g_trace_head s" TELEMETRY_BUFFER_SIZE] next_count[of "g_trace_count s" TELEMETRY_BUFFER_SIZE]
    by (simp_all add: trace_put_def TELEMETRY_BUFFER_SIZE_def)
qed (simp add: telemetry_ok_def)

section \<open>What a message adds to the log\<close>

text \<open>The lines of a message; a final newline does not start another line.\<close>
fun text_lines :: "string \<Rightarrow> string list" where
  "text_lines [] = []"
| "text_lines (c # cs) =
    (if c = newline then [] # text_lines cs
     else case text_lines cs of [] \<Rightarrow> [[c]] | l # ls \<Rightarrow> (c # l) # ls)"

text \<open>Each line with a timestamp of its own, the clock having been read \<open>n\<close> times before.\<close>
fun stamped :: "(nat \<Rightarrow> u64) \<Rightarrow> nat \<Rightarrow> string list \<Rightarrow> string" where
  "stamped clk n [] = []"
| "stamped clk n (l # ls) = timestamp_text (clk n) @ l @ [newline] @ stamped clk (Suc n) ls"

text \<open>The state as seen by a reader: the text kept, the position in the line, the clock.\<close>
lemma append_char_fields [simp]:
  "dmesg_at_bol (append_char c s) = dmesg_at_bol s" "clock_reads (append_char c s) = clock_reads s"
  by (simp_all add: append_char_def)

lemma fold_append_fields [simp]:
  "dmesg_at_bol (fold append_char cs s) = dmesg_at_bol s"
  "clock_reads (fold append_char cs s) = clock_reads s"
  by (induction cs arbitrary: s) simp_all

lemma dmesg_fields_irrelevant [simp]:
  "dmesg_ok (s\<lparr>dmesg_at_bol := b\<rparr>) = dmesg_ok s" "dmesg_ok (s\<lparr>clock_reads := n\<rparr>) = dmesg_ok s"
  "kmsg.contents (s\<lparr>dmesg_at_bol := b\<rparr>) = kmsg.contents s"
  "kmsg.contents (s\<lparr>clock_reads := n\<rparr>) = kmsg.contents s"
  by (simp_all add: dmesg_ok_def kmsg.contents_def kmsg.start_def)

text \<open>The state \<open>s'\<close> has the text \<open>t\<close> added to that of \<open>s\<close>.\<close>
definition adds :: "dmesg \<Rightarrow> string \<Rightarrow> dmesg \<Rightarrow> bool" where
  "adds s t s' \<longleftrightarrow> dmesg_ok s' \<and> kmsg.contents s' = last_n DMESG_SIZE (kmsg.contents s @ t)"

lemma adds_fold: "dmesg_ok s \<Longrightarrow> adds s t (fold append_char t s)"
  by (simp add: adds_def kmsg.contents_fold)

lemma adds_trans: "\<lbrakk>adds s t s'; adds s' u s''\<rbrakk> \<Longrightarrow> adds s (t @ u) s''"
  using last_n_snoc[of DMESG_SIZE "kmsg.contents s @ t" u] by (simp add: adds_def)

lemma adds_bol [simp]: "adds s t (s'\<lparr>dmesg_at_bol := b\<rparr>) = adds s t s'"
  by (simp add: adds_def)

lemma adds_char: "dmesg_ok s \<Longrightarrow> adds s [c] (append_char c s)"
  using adds_fold[of s "[c]"] by simp

lemma adds_nothing: "dmesg_ok s \<Longrightarrow> adds s [] s"
  using adds_fold[of s "[]"] by simp

lemma adds_ok: "adds s t s' \<Longrightarrow> dmesg_ok s'"
  by (simp add: adds_def)

lemma adds_timestamp:
  assumes "dmesg_ok s"
  shows "adds s (timestamp_text (clk (clock_reads s))) (append_timestamp clk s)"
    "clock_reads (append_timestamp clk s) = Suc (clock_reads s)"
    "dmesg_at_bol (append_timestamp clk s) = dmesg_at_bol s"
  using adds_fold[of "s\<lparr>clock_reads := Suc (clock_reads s)\<rparr>"] assms
  by (simp_all add: append_timestamp_def adds_def)

lemma end_line_adds:
  assumes "dmesg_ok s"
  shows "adds s (if dmesg_at_bol s then [] else [newline]) (end_line s)" "dmesg_at_bol (end_line s)"
    "clock_reads (end_line s) = clock_reads s"
  using assms by (simp_all add: end_line_def adds_char adds_nothing)

lemma log_chars_adds:
  assumes "dmesg_ok s"
  shows "adds s
    (if dmesg_at_bol s then stamped clk (clock_reads s) (text_lines cs)
     else case text_lines cs of [] \<Rightarrow> [newline]
       | l # ls \<Rightarrow> l @ [newline] @ stamped clk (clock_reads s) ls)
    (end_line (log_chars clk cs s))"
  using assms
proof (induction cs arbitrary: s)
  case Nil
  then show ?case using end_line_adds(1)[of s] by (cases "dmesg_at_bol s") simp_all
next
  case (Cons c cs)
  define s1 where "s1 = (if dmesg_at_bol s then (append_timestamp clk s)\<lparr>dmesg_at_bol := False\<rparr> else s)"
  define s2 where "s2 = append_char c s1"
  define s3 where "s3 = (if c = newline then s2\<lparr>dmesg_at_bol := True\<rparr> else s2)"
  let ?t = "if dmesg_at_bol s then timestamp_text (clk (clock_reads s)) else []"
  have a1: "adds s ?t s1" "\<not> dmesg_at_bol s1"
      "clock_reads s1 = (if dmesg_at_bol s then Suc (clock_reads s) else clock_reads s)"
    using Cons.prems adds_timestamp[OF Cons.prems] adds_nothing by (simp_all add: s1_def)
  have a3: "adds s (?t @ [c]) s3" "dmesg_at_bol s3 \<longleftrightarrow> c = newline" "clock_reads s3 = clock_reads s1"
    using adds_trans[OF a1(1) adds_char[OF adds_ok[OF a1(1)]]] a1(2) by (simp_all add: s3_def s2_def)
  have "log_chars clk (c # cs) s = log_chars clk cs s3"
    by (simp add: s3_def s2_def s1_def Let_def)
  moreover note adds_trans[OF a3(1) Cons.IH[OF adds_ok[OF a3(1)]]]
  ultimately show ?case using a1(3) a3(2,3)
    by (cases "dmesg_at_bol s"; cases "c = newline"; cases "text_lines cs") simp_all
qed

section \<open>Properties\<close>

text \<open>
  C29. The kernel log refines an unbounded text of which it keeps the last 128 KiB: from any
  well-formed log at the beginning of a line, \<^verbatim>\<open>dmesg_log\<close> adds the lines of the message, each
  with the timestamp of the moment it was started and each ended by a newline, and leaves the log
  at the beginning of a line again; a null or empty message adds nothing. \<^verbatim>\<open>dmesg_dump\<close> then
  prints exactly that text without its NUL characters.
\<close>
theorem dmesg_log_refines:
  assumes "dmesg_ok s" "dmesg_at_bol s"
  shows "dmesg_ok (dmesg_log clk msg s) \<and> dmesg_at_bol (dmesg_log clk msg s) \<and>
    kmsg.contents (dmesg_log clk msg s) = last_n DMESG_SIZE (kmsg.contents s @
      (case msg of None \<Rightarrow> []
       | Some m \<Rightarrow> stamped clk (clock_reads s) (text_lines (takeWhile (\<lambda>c. c \<noteq> nul) m)))) \<and>
    dmesg_dump s = filter (\<lambda>c. c \<noteq> nul) (kmsg.contents s)"
proof -
  have "adds s (case msg of None \<Rightarrow> []
       | Some m \<Rightarrow> stamped clk (clock_reads s) (text_lines (takeWhile (\<lambda>c. c \<noteq> nul) m)))
     (dmesg_log clk msg s) \<and> dmesg_at_bol (dmesg_log clk msg s)"
  proof (cases msg)
    case None
    then show ?thesis using assms adds_nothing by (simp add: dmesg_log_def)
  next
    case (Some m)
    have "end_line s = s" using assms(2) by (simp add: end_line_def)
    moreover have "dmesg_at_bol (end_line u)" for u by (simp add: end_line_def)
    ultimately show ?thesis using Some assms log_chars_adds[OF assms(1), of clk] adds_nothing[OF assms(1)]
      by (simp add: dmesg_log_def Let_def)
  qed
  moreover have "dmesg_dump s = filter (\<lambda>c. c \<noteq> nul) (kmsg.contents s)"
    using assms(1) dmesg_size_word
    by (auto simp: dmesg_dump_def kmsg.contents_def kmsg.start_def dmesg_ok_def word_less_nat_alt
        unat_eq_0)
  ultimately show ?thesis by (simp add: adds_def)
qed

definition demo_log :: dmesg where
  "demo_log = \<lparr>dmesg_buf = replicate DMESG_SIZE nul, dmesg_head = 0, dmesg_total = 0,
    dmesg_at_bol = True, clock_reads = 0\<rparr>"

theorem dmesg_log_refines_witness:
  "kmsg.contents (dmesg_log (\<lambda>n. 1234) (Some ''a'') demo_log) = ''[12.340000] a'' @ [newline]"
proof -
  have "dmesg_ok demo_log" by (simp add: dmesg_ok_def demo_log_def DMESG_SIZE_def)
  moreover have "timestamp_text 1234 = ''[12.340000] ''"
    by code_simp
  moreover have "kmsg.contents demo_log = []" "dmesg_at_bol demo_log" "clock_reads demo_log = 0"
    by (simp_all add: kmsg.contents_def demo_log_def)
  moreover have "last_n DMESG_SIZE t = t" if "length t \<le> 100" for t :: string
    using that by (intro last_n_all) (simp add: DMESG_SIZE_def)
  ultimately show ?thesis
    using dmesg_log_refines[of demo_log "\<lambda>n. 1234" "Some ''a''"] by simp
qed

text \<open>
  The seconds of a timestamp are written in decimal without loss and fit their buffer: the digits
  read back as the number, there are at most 18 of them, and the buffer has 20 places.
\<close>
theorem timestamp_digits:
  "length (digits_rev (unat (cs div 100 :: u64))) \<le> 18 \<and>
    foldr (\<lambda>d v. (of_char d - 48) + 10 * v) (digits_rev (unat (cs div 100))) 0 = unat (cs div 100)"
proof -
  have len: "length (digits_rev v) \<le> k" if "v < 10 ^ k" for v k
    using that
  proof (induction v arbitrary: k rule: digits_rev.induct)
    case (1 v)
    show ?case
    proof (cases "v = 0")
      case False
      with "1.prems" obtain j where k: "k = Suc j" by (cases k) auto
      then have "v div 10 < 10 ^ j" using "1.prems" by (simp add: less_mult_imp_div_less)
      with "1.IH"[OF False] show ?thesis by (subst digits_rev.simps) (simp add: k False)
    qed (simp add: digits_rev.simps)
  qed
  have val: "foldr (\<lambda>d v. (of_char d - 48) + 10 * v) (digits_rev v) 0 = v" for v :: nat
  proof (induction v rule: digits_rev.induct)
    case (1 v)
    show ?case
    proof (cases "v = 0")
      case False
      have "of_char (char_of (48 + v mod 10) :: char) = (48 + v mod 10 :: nat)" by simp
      with "1.IH"[OF False] show ?thesis by (subst digits_rev.simps) (simp add: False)
    qed (simp add: digits_rev.simps)
  qed
  have "unat (cs div 100) < 10 ^ 18"
    using u64_bound[of cs] by (simp add: unat_div)
  with len val show ?thesis by blast
qed

text \<open>
  C30. The trace buffer keeps the last 1024 events: logging any sequence of events into a well-formed
  buffer and then dumping with a filter prints, oldest first, the rows of those of the last 1024
  that match the filter, the filter \<^verbatim>\<open>TRACE_NONE\<close> matching all.
\<close>
theorem trace_dump_shows_last_events:
  assumes "telemetry_ok s"
  shows "telemetry_ok (fold trace_put es s) \<and>
    trace_dump_filtered filt (fold trace_put es s) =
      map trace_row (filter (\<lambda>e. filt = TRACE_NONE \<or> event e = filt)
        (last_n TELEMETRY_BUFFER_SIZE (trace_ring.contents s @ es)))"
proof -
  have "unat (of_nat TELEMETRY_BUFFER_SIZE :: u32) = TELEMETRY_BUFFER_SIZE"
    by (simp add: TELEMETRY_BUFFER_SIZE_def)
  then have "trace_dump_filtered filt t = map trace_row
      (filter (\<lambda>e. filt = TRACE_NONE \<or> event e = filt) (trace_ring.contents t))" for t
    by (simp add: trace_dump_filtered_def trace_ring.contents_def trace_ring.start_def word_less_nat_alt)
  with trace_ring.contents_fold[OF assms] show ?thesis by simp
qed

theorem trace_dump_shows_last_events_witness:
  "let e = (\<lambda>ev. \<lparr>timestamp = 5, event = ev, cpu_id = 0, task_id = 1, arg1 = 2, arg2 = 3\<rparr>);
       s = \<lparr>g_trace_buffer = replicate 1024 (e TRACE_NONE), g_trace_head = 0, g_trace_count = 0\<rparr>
   in trace_dump_filtered TRACE_IPC_SEND (fold trace_put [e TRACE_IPC_SEND, e TRACE_IPC_RECV] s)
     = [(5, ''IPC_SEND'', 0, 1, 2, 3)]"
proof -
  let ?e = "\<lambda>ev. \<lparr>timestamp = 5, event = ev, cpu_id = 0, task_id = 1, arg1 = 2, arg2 = 3\<rparr> :: trace_entry"
  let ?s = "\<lparr>g_trace_buffer = replicate 1024 (?e TRACE_NONE), g_trace_head = 0, g_trace_count = 0\<rparr>"
  have c: "trace_ring.contents ?s = []" by (simp add: trace_ring.contents_def)
  have l: "last_n TELEMETRY_BUFFER_SIZE [a, b] = [a, b]" for a b :: trace_entry
    by (intro last_n_all) (simp add: TELEMETRY_BUFFER_SIZE_def)
  have "telemetry_ok ?s" by (simp add: telemetry_ok_def TELEMETRY_BUFFER_SIZE_def)
  from trace_dump_shows_last_events[OF this, of "[?e TRACE_IPC_SEND, ?e TRACE_IPC_RECV]" TRACE_IPC_SEND]
  show ?thesis
    by (simp add: c l trace_row_def)
qed

end
