(* ===== verification/Sage_Sched.thy ===== *)
theory Sage_Sched
  imports Sage_Cap Sage_Alloc Sage_Log
begin

text \<open>
  The scheduler of \<^verbatim>\<open>kernel/core/scheduler.c\<close> with the thread hooks of
  \<^verbatim>\<open>kernel/core/scheduler_ipc_ext.c\<close>. A pointer to a thread is its index in \<^verbatim>\<open>g_tasks\<close>, \<open>None\<close> being
  \<^verbatim>\<open>NULL\<close>. The state is a record that the IPC subsystem extends; it holds the thread table, the
  parallel table of IPC extensions, the kernel heap and the trace buffer. The machine context that
  \<^verbatim>\<open>thread_switch\<close> saves is not modelled, and neither are the fields of \<^verbatim>\<open>thread_t\<close> that no code of the
  kernel reads. What \<^verbatim>\<open>timer_idle_poll\<close> does while nothing is runnable is an argument of the
  scheduler, \<open>None\<close> when it does not return; waiting in that loop for ever is \<open>None\<close> as well.

  Shown: the thread chosen is the next runnable one in cyclic order, a ready thread runs after at
  most 127 other choices, at most the current thread is marked running, when the creation of a thread
  succeeds and with what stack, thread identifiers are fresh until the counter wraps, and what threads whose identifiers agree modulo 64 do to each other.
\<close>

section \<open>Threads\<close>

definition MAX_TASKS :: nat where "MAX_TASKS = 128"
definition WATCHDOG_TIMEOUT_TICKS :: u64 where "WATCHDOG_TIMEOUT_TICKS = 500"
definition SCHED_MAX_THREADS :: nat where "SCHED_MAX_THREADS = 64"
definition SCHED_STACK_SIZE :: u64 where "SCHED_STACK_SIZE = 65536"
definition MAX_FD :: nat where "MAX_FD = 32"

datatype thread_state =
    THREAD_STATE_UNUSED | THREAD_STATE_READY | THREAD_STATE_RUNNING | THREAD_STATE_SLEEPING
  | THREAD_STATE_BLOCKED | THREAD_STATE_TERMINATED

datatype thread_priority =
    THREAD_PRIORITY_LOW | THREAD_PRIORITY_NORMAL | THREAD_PRIORITY_HIGH | THREAD_PRIORITY_CRITICAL

record fd_entry =
  valid :: bool
  vfs_handle :: int
  fd_path :: string
  fd_flags :: u32
  offset :: i64

record thread =
  tid :: u32
  state :: thread_state
  priority :: thread_priority
  stack_base :: "nat option"
  wait_next :: "nat option"
  entry :: u64
  arg :: u64
  name :: string
  fd_table :: "fd_entry list"
  heap_end :: u64
  heap_base :: u64
  heap_limit :: u64
  parent :: "nat option"
  cwd :: string
  elf_base :: u64
  elf_size :: u64
  saved_elf_data :: "nat option"
  exit_code :: i64
  permissions :: u32

definition zero_fd :: fd_entry where
  "zero_fd = \<lparr>valid = False, vfs_handle = 0, fd_path = [], fd_flags = 0, offset = 0\<rparr>"

definition zero_thread :: thread where
  "zero_thread = \<lparr>tid = 0, state = THREAD_STATE_UNUSED, priority = THREAD_PRIORITY_LOW,
    stack_base = None, wait_next = None, entry = 0, arg = 0, name = [],
    fd_table = replicate MAX_FD zero_fd, heap_end = 0, heap_base = 0, heap_limit = 0,
    parent = None, cwd = [], elf_base = 0, elf_size = 0, saved_elf_data = None, exit_code = 0,
    permissions = 0\<rparr>"

record thread_ipc_ext =
  cap_table :: ipc_cap_table
  rpc_reply_cap :: u32
  rpc_timeout_tick :: u32
  signal_pending :: u64
  signal_mask :: u64

record sched =
  g_tasks :: "thread list"
  g_current_task :: "nat option"
  g_sched_inited :: bool
  in_sched :: bool
  g_next_pid :: u32
  g_watchdog_counter :: u64
  last_counter :: u64
  ticks_since_update :: u64
  g_thread_ipc_ext :: "thread_ipc_ext list"
  kheap :: heap
  ktrace :: telemetry
  timer_ticks :: u64

section \<open>Access to the state\<close>

definition upd_task :: "nat \<Rightarrow> (thread \<Rightarrow> thread) \<Rightarrow> 'a sched_scheme \<Rightarrow> 'a sched_scheme" where
  "upd_task i f s = s\<lparr>g_tasks := (g_tasks s)[i := f (g_tasks s ! i)]\<rparr>"

definition ext_index :: "thread \<Rightarrow> nat" where
  "ext_index t = unat (tid t) mod SCHED_MAX_THREADS"

definition task_ipc_cap_table :: "thread \<Rightarrow> 'a sched_scheme \<Rightarrow> ipc_cap_table" where
  "task_ipc_cap_table t s = cap_table (g_thread_ipc_ext s ! ext_index t)"

definition upd_cap_table :: "thread \<Rightarrow> (ipc_cap_table \<Rightarrow> ipc_cap_table) \<Rightarrow> 'a sched_scheme \<Rightarrow> 'a sched_scheme" where
  "upd_cap_table t f s =
    s\<lparr>g_thread_ipc_ext := (g_thread_ipc_ext s)[ext_index t :=
        (g_thread_ipc_ext s ! ext_index t)\<lparr>cap_table := f (task_ipc_cap_table t s)\<rparr>]\<rparr>"

definition current_id :: "'a sched_scheme \<Rightarrow> u32 option" where
  "current_id s = map_option (\<lambda>i. tid (g_tasks s ! i)) (g_current_task s)"

definition klog :: "trace_event_t \<Rightarrow> u64 \<Rightarrow> u64 \<Rightarrow> 'a sched_scheme \<Rightarrow> 'a sched_scheme" where
  "klog ev a1 a2 s = s\<lparr>ktrace := trace_log (timer_ticks s) 0 (current_id s) ev a1 a2 (ktrace s)\<rparr>"

fun log_alloc :: "alloc_event \<Rightarrow> 'a sched_scheme \<Rightarrow> 'a sched_scheme" where
  "log_alloc (Alloc_malloc n p) s = klog TRACE_ALLOC_MALLOC n (of_nat p) s"
| "log_alloc (Alloc_free p) s = klog TRACE_ALLOC_FREE (of_nat p) 0 s"

text \<open>The heap of the kernel, with the events it emits written to the trace.\<close>
definition set_heap :: "heap \<Rightarrow> 'a sched_scheme \<Rightarrow> 'a sched_scheme" where
  "set_heap h s = fold log_alloc (emitted h) (s\<lparr>kheap := h\<lparr>emitted := []\<rparr>\<rparr>)"

definition kmalloc :: "u64 \<Rightarrow> u32 \<Rightarrow> 'a sched_scheme \<Rightarrow> (nat option \<times> 'a sched_scheme) option" where
  "kmalloc n tag s = map_option (\<lambda>(p, h). (p, set_heap h s)) (sage_malloc_tagged n tag (kheap s))"

definition kfree :: "nat option \<Rightarrow> 'a sched_scheme \<Rightarrow> 'a sched_scheme option" where
  "kfree p s = map_option (\<lambda>h. set_heap h s) (sage_free p (kheap s))"

section \<open>Operations\<close>

definition sched_ipc_init_thread :: "thread \<Rightarrow> 'a sched_scheme \<Rightarrow> 'a sched_scheme" where
  "sched_ipc_init_thread t s =
    s\<lparr>g_thread_ipc_ext := (g_thread_ipc_ext s)[ext_index t :=
        \<lparr>cap_table = initial_cap_table, rpc_reply_cap = - 1, rpc_timeout_tick = 0,
          signal_pending = 0, signal_mask = NOT 0\<rparr>]\<rparr>"

definition sched_watchdog_update :: "'a sched_scheme \<Rightarrow> 'a sched_scheme" where
  "sched_watchdog_update s = s\<lparr>g_watchdog_counter := g_watchdog_counter s + 1\<rparr>"

definition sched_init :: "'a sched_scheme \<Rightarrow> 'a sched_scheme" where
  "sched_init s =
    (let idle = zero_thread\<lparr>state := THREAD_STATE_RUNNING, priority := THREAD_PRIORITY_LOW,
           name := ''idle'', cwd := ''/''\<rparr>;
         s1 = s\<lparr>g_tasks := idle # replicate (MAX_TASKS - 1) zero_thread\<rparr>;
         s2 = sched_ipc_init_thread idle s1
     in s2\<lparr>g_current_task := Some 0, g_sched_inited := True\<rparr>)"

definition sched_current_thread :: "'a sched_scheme \<Rightarrow> nat option \<times> 'a sched_scheme" where
  "sched_current_thread s =
    (let s' = (if \<not> g_sched_inited s then sched_init s else s) in (g_current_task s', s'))"

definition new_thread :: "u32 \<Rightarrow> string \<Rightarrow> u64 \<Rightarrow> u64 \<Rightarrow> thread_priority \<Rightarrow> thread" where
  "new_thread pid nm ent a prio =
    zero_thread\<lparr>tid := pid, state := THREAD_STATE_READY, priority := prio, entry := ent, arg := a,
      name := take 31 nm, cwd := ''/''\<rparr>"

definition alloc_thread :: "thread \<Rightarrow> thread list \<Rightarrow> (nat \<times> thread list) option" where
  "alloc_thread t ts =
    (case first_index (\<lambda>x. state x = THREAD_STATE_UNUSED) ts of
       None \<Rightarrow> None
     | Some i \<Rightarrow> Some (i, ts[i := t]))"

text \<open>
  The result of \<^verbatim>\<open>sage_malloc\<close> is not tested: when there is no memory for the stack, the first frame is stored
  through a pointer 64 KiB above null.
\<close>
definition sched_create_thread ::
  "string \<Rightarrow> u64 \<Rightarrow> u64 \<Rightarrow> thread_priority \<Rightarrow> 'a sched_scheme \<Rightarrow> (nat option \<times> 'a sched_scheme) option" where
  "sched_create_thread nm ent a prio s =
    (let t = new_thread (g_next_pid s) nm ent a prio in
     case alloc_thread t (g_tasks s) of
       None \<Rightarrow> Some (None, s)
     | Some (i, ts) \<Rightarrow>
         (let s1 = sched_ipc_init_thread t (s\<lparr>g_tasks := ts, g_next_pid := g_next_pid s + 1\<rparr>) in
          do {
            (stack, s2) \<leftarrow> kmalloc SCHED_STACK_SIZE ALLOC_TAG_KERNEL s1;
            if stack = None then None else Some (Some i, upd_task i (stack_base_update (\<lambda>_. stack)) s2)
          }))"

definition runnable :: "thread \<Rightarrow> bool" where
  "runnable t \<longleftrightarrow> state t = THREAD_STATE_READY \<or> state t = THREAD_STATE_RUNNING"

text \<open>One pass of the round-robin search from the thread after \<open>cur\<close> around to \<open>cur\<close> itself.\<close>
definition find_runnable :: "nat \<Rightarrow> thread list \<Rightarrow> nat option" where
  "find_runnable cur ts =
    map_option (\<lambda>k. (cur + Suc k) mod MAX_TASKS)
      (first_index (\<lambda>k. runnable (ts ! ((cur + Suc k) mod MAX_TASKS))) [0..<MAX_TASKS])"

partial_function (option) wait_runnable ::
  "('a sched_scheme \<Rightarrow> 'a sched_scheme option) \<Rightarrow> nat \<Rightarrow> 'a sched_scheme \<Rightarrow> (nat \<times> 'a sched_scheme) option" where
  "wait_runnable poll cur s =
    (case find_runnable cur (g_tasks s) of
       Some n \<Rightarrow> Some (n, s)
     | None \<Rightarrow> do { s' \<leftarrow> poll (sched_watchdog_update s); wait_runnable poll cur s' })"

definition switch_to :: "nat option \<Rightarrow> nat \<Rightarrow> 'a sched_scheme \<Rightarrow> 'a sched_scheme" where
  "switch_to prev n s =
    (let s1 = klog TRACE_SCHED_SWITCH (case prev of None \<Rightarrow> 0 | Some p \<Rightarrow> ucast (tid (g_tasks s ! p)))
                (ucast (tid (g_tasks s ! n))) s;
         s2 = (case prev of
                 None \<Rightarrow> s1
               | Some p \<Rightarrow> if state (g_tasks s1 ! p) = THREAD_STATE_RUNNING
                           then upd_task p (state_update (\<lambda>_. THREAD_STATE_READY)) s1 else s1)
     in (upd_task n (state_update (\<lambda>_. THREAD_STATE_RUNNING)) s2)\<lparr>g_current_task := Some n\<rparr>)"

definition sched_schedule :: "('a sched_scheme \<Rightarrow> 'a sched_scheme option) \<Rightarrow> 'a sched_scheme \<Rightarrow> 'a sched_scheme option" where
  "sched_schedule poll s =
    (if \<not> g_sched_inited s \<or> in_sched s then Some s
     else
       let prev = g_current_task s;
           cur = (case prev of Some p \<Rightarrow> if p < MAX_TASKS then p else 0 | None \<Rightarrow> 0)
       in do {
         (n, s') \<leftarrow> wait_runnable poll cur (s\<lparr>in_sched := True\<rparr>);
         if prev = Some n then Some (s'\<lparr>in_sched := False\<rparr>)
         else case prev of
             None \<Rightarrow> None
           | Some _ \<Rightarrow> Some ((switch_to prev n s')\<lparr>in_sched := False\<rparr>)
       })"

definition sched_yield :: "('a sched_scheme \<Rightarrow> 'a sched_scheme option) \<Rightarrow> 'a sched_scheme \<Rightarrow> 'a sched_scheme option" where
  "sched_yield poll s = sched_schedule poll s"

definition sched_block :: "('a sched_scheme \<Rightarrow> 'a sched_scheme option) \<Rightarrow> 'a sched_scheme \<Rightarrow> 'a sched_scheme option" where
  "sched_block poll s =
    (case g_current_task s of
       None \<Rightarrow> Some s
     | Some c \<Rightarrow> sched_schedule poll (upd_task c (state_update (\<lambda>_. THREAD_STATE_BLOCKED)) s))"

definition sched_unblock :: "nat option \<Rightarrow> 'a sched_scheme \<Rightarrow> 'a sched_scheme" where
  "sched_unblock thr s =
    (case thr of
       None \<Rightarrow> s
     | Some i \<Rightarrow> if state (g_tasks s ! i) = THREAD_STATE_BLOCKED
                 then upd_task i (state_update (\<lambda>_. THREAD_STATE_READY)) s else s)"

text \<open>\<^verbatim>\<open>sched_exit\<close> up to the switch to another thread; it wakes every blocked thread.\<close>
definition sched_exit :: "('a sched_scheme \<Rightarrow> 'a sched_scheme option) \<Rightarrow> 'a sched_scheme \<Rightarrow> 'a sched_scheme option" where
  "sched_exit poll s =
    (case g_current_task s of
       None \<Rightarrow> None
     | Some c \<Rightarrow>
         (let s1 = upd_task c (state_update (\<lambda>_. THREAD_STATE_TERMINATED)) s;
              s2 = s1\<lparr>g_tasks := map (\<lambda>t. if state t = THREAD_STATE_BLOCKED
                        then t\<lparr>state := THREAD_STATE_READY\<rparr> else t) (g_tasks s1)\<rparr>
          in sched_schedule poll s2))"

definition sched_get_thread_by_id :: "u32 \<Rightarrow> 'a sched_scheme \<Rightarrow> nat option" where
  "sched_get_thread_by_id i s =
    first_index (\<lambda>t. tid t = i \<and> state t \<noteq> THREAD_STATE_UNUSED) (g_tasks s)"

definition sched_get_thread_info :: "u32 \<Rightarrow> 'a sched_scheme \<Rightarrow> (string \<times> thread_state \<times> u32) option" where
  "sched_get_thread_info index s =
    (if unat index < MAX_TASKS \<and> state (g_tasks s ! unat index) \<noteq> THREAD_STATE_UNUSED
     then Some (take 31 (name (g_tasks s ! unat index)), state (g_tasks s ! unat index), 0)
     else None)"

text \<open>The timer interrupt: \<open>Inl ()\<close> is the halt of \<^verbatim>\<open>kernel_panic\<close>.\<close>
definition sched_timer_tick ::
  "('a sched_scheme \<Rightarrow> 'a sched_scheme option) \<Rightarrow> 'a sched_scheme \<Rightarrow> (unit + 'a sched_scheme) option" where
  "sched_timer_tick poll s =
    (if g_watchdog_counter s = last_counter s
     then
       let s1 = s\<lparr>ticks_since_update := ticks_since_update s + 1\<rparr> in
       if ticks_since_update s1 > WATCHDOG_TIMEOUT_TICKS then Some (Inl ())
       else map_option Inr (sched_yield poll s1)
     else map_option Inr (sched_yield poll
       (s\<lparr>last_counter := g_watchdog_counter s, ticks_since_update := 0\<rparr>)))"

section \<open>The round-robin choice\<close>

lemma find_runnable_Some:
  "find_runnable cur ts = Some n \<longleftrightarrow>
    (\<exists>k<MAX_TASKS. n = (cur + Suc k) mod MAX_TASKS \<and> runnable (ts ! n) \<and>
      (\<forall>j<k. \<not> runnable (ts ! ((cur + Suc j) mod MAX_TASKS))))"
  by (auto simp: find_runnable_def first_index_Some_iff)

lemma find_runnable_None: "find_runnable cur ts = None \<longleftrightarrow> (\<forall>i<MAX_TASKS. \<not> runnable (ts ! i))"
proof -
  have cover: "\<exists>k<MAX_TASKS. i = (cur + Suc k) mod MAX_TASKS" if "i < MAX_TASKS" for i
  proof (intro exI conjI)
    let ?k = "(i + MAX_TASKS * Suc cur - Suc cur) mod MAX_TASKS"
    show "?k < MAX_TASKS" by (simp add: MAX_TASKS_def)
    have "Suc cur \<le> MAX_TASKS * Suc cur" by (simp add: MAX_TASKS_def)
    then have eq: "Suc cur + (i + MAX_TASKS * Suc cur - Suc cur) = i + MAX_TASKS * Suc cur" by simp
    have "(Suc cur + ?k) mod MAX_TASKS = (i + MAX_TASKS * Suc cur) mod MAX_TASKS"
      unfolding mod_add_right_eq eq ..
    also have "\<dots> = i" using that by (simp del: mult_Suc_right)
    finally show "i = (cur + Suc ?k) mod MAX_TASKS" by simp
  qed
  have "0 < MAX_TASKS" by (simp add: MAX_TASKS_def)
  show ?thesis
  proof
    assume "find_runnable cur ts = None"
    then have "\<not> runnable (ts ! ((cur + Suc k) mod MAX_TASKS))" if "k < MAX_TASKS" for k
      using that by (simp add: find_runnable_def)
    then show "\<forall>i<MAX_TASKS. \<not> runnable (ts ! i)" using cover by metis
  qed (simp add: find_runnable_def \<open>0 < MAX_TASKS\<close>)
qed

lemma find_runnable_bound: "find_runnable cur ts = Some n \<Longrightarrow> n < MAX_TASKS"
  by (auto simp: find_runnable_Some MAX_TASKS_def)

text \<open>The number of threads the search looks at before it reaches \<open>k\<close>.\<close>
definition rr_dist :: "nat \<Rightarrow> nat \<Rightarrow> nat" where
  "rr_dist cur k = (k + MAX_TASKS - Suc cur) mod MAX_TASKS"

lemma rr_dist_bound: "rr_dist cur k < MAX_TASKS"
  by (simp add: rr_dist_def MAX_TASKS_def)

lemma rr_dist_reaches:
  assumes "cur < MAX_TASKS" "k < MAX_TASKS"
  shows "(cur + Suc (rr_dist cur k)) mod MAX_TASKS = k"
proof -
  have eq: "Suc cur + (k + MAX_TASKS - Suc cur) = k + MAX_TASKS" using assms by simp
  have "(Suc cur + rr_dist cur k) mod MAX_TASKS = (k + MAX_TASKS) mod MAX_TASKS"
    unfolding rr_dist_def mod_add_right_eq eq ..
  with assms(2) show ?thesis by simp
qed

lemma rr_dist_unique:
  assumes "cur < MAX_TASKS" "d < MAX_TASKS" "k = (cur + Suc d) mod MAX_TASKS"
  shows "rr_dist cur k = d"
proof (cases "cur + Suc d < MAX_TASKS")
  case True
  then show ?thesis using assms by (simp add: rr_dist_def)
next
  case False
  then have "k = cur + Suc d - MAX_TASKS" using assms by (simp add: mod_if)
  then show ?thesis using assms False by (simp add: rr_dist_def)
qed

lemma rr_dist_decreases:
  assumes "cur < MAX_TASKS" "k < MAX_TASKS" "runnable (ts ! k)" "find_runnable cur ts = Some n" "n \<noteq> k"
  shows "Suc (rr_dist n k) \<le> rr_dist cur k"
proof -
  let ?d = "rr_dist cur k"
  obtain e where e: "e < MAX_TASKS" "n = (cur + Suc e) mod MAX_TASKS"
    "\<forall>j<e. \<not> runnable (ts ! ((cur + Suc j) mod MAX_TASKS))"
    using assms(4) by (auto simp: find_runnable_Some)
  have "\<not> ?d < e" using e(3) rr_dist_reaches[OF assms(1,2)] assms(3) by metis
  moreover have "?d \<noteq> e" using e(2) rr_dist_reaches[OF assms(1,2)] assms(5) by metis
  ultimately have lt: "e < ?d" by simp
  have "k = (cur + Suc ?d) mod MAX_TASKS" using rr_dist_reaches[OF assms(1,2)] by simp
  also have "\<dots> = (n + Suc (?d - Suc e)) mod MAX_TASKS"
    unfolding e(2) mod_add_left_eq using lt by simp
  finally have "rr_dist n k = ?d - Suc e"
    using e(2) rr_dist_bound[of cur k] by (intro rr_dist_unique) (auto simp: MAX_TASKS_def)
  with lt show ?thesis by simp
qed

lemma finds_runnable:
  assumes "cur < MAX_TASKS" "k < MAX_TASKS" "runnable (ts ! k)"
  obtains n where "find_runnable cur ts = Some n"
  using assms find_runnable_None[of cur ts] by (cases "find_runnable cur ts") auto

lemma wait_runnable_now: "find_runnable cur (g_tasks s) = Some n \<Longrightarrow> wait_runnable poll cur s = Some (n, s)"
  by (subst wait_runnable.simps) simp

section \<open>A scheduling decision\<close>

lemma klog_fields [simp]:
  "g_tasks (klog ev a b s) = g_tasks s" "g_current_task (klog ev a b s) = g_current_task s"
  "g_sched_inited (klog ev a b s) = g_sched_inited s" "in_sched (klog ev a b s) = in_sched s"
  "g_next_pid (klog ev a b s) = g_next_pid s" "g_thread_ipc_ext (klog ev a b s) = g_thread_ipc_ext s"
  "kheap (klog ev a b s) = kheap s"
  by (simp_all add: klog_def)

lemma upd_task_fields [simp]:
  "g_tasks (upd_task i f s) = (g_tasks s)[i := f (g_tasks s ! i)]"
  "g_current_task (upd_task i f s) = g_current_task s"
  "g_sched_inited (upd_task i f s) = g_sched_inited s" "in_sched (upd_task i f s) = in_sched s"
  "g_next_pid (upd_task i f s) = g_next_pid s" "g_thread_ipc_ext (upd_task i f s) = g_thread_ipc_ext s"
  "kheap (upd_task i f s) = kheap s"
  by (simp_all add: upd_task_def)

text \<open>The scheduler is running a thread and no other thread is marked as running.\<close>
definition sched_ok :: "'a sched_scheme \<Rightarrow> bool" where
  "sched_ok s \<longleftrightarrow> length (g_tasks s) = MAX_TASKS \<and> length (g_thread_ipc_ext s) = SCHED_MAX_THREADS \<and>
    g_sched_inited s \<and> \<not> in_sched s \<and>
    (\<exists>c<MAX_TASKS. g_current_task s = Some c \<and>
      (\<forall>i<MAX_TASKS. i \<noteq> c \<longrightarrow> state (g_tasks s ! i) \<noteq> THREAD_STATE_RUNNING))"

lemma schedule_found:
  assumes "g_sched_inited s" "\<not> in_sched s" "g_current_task s = Some c" "c < MAX_TASKS"
    "find_runnable c (g_tasks s) = Some n"
  shows "sched_schedule poll s = Some (if n = c then s else (switch_to (Some c) n (s\<lparr>in_sched := True\<rparr>))\<lparr>in_sched := False\<rparr>)"
  using assms wait_runnable_now[of c "s\<lparr>in_sched := True\<rparr>" n poll]
  by (simp add: sched_schedule_def Let_def)

lemma switch_to_fields:
  assumes "c < length (g_tasks s)" "n < length (g_tasks s)" "n \<noteq> c"
  shows "g_current_task (switch_to (Some c) n s) = Some n"
    "length (g_tasks (switch_to (Some c) n s)) = length (g_tasks s)"
    "g_tasks (switch_to (Some c) n s) ! i =
      (if i = n then (g_tasks s ! n)\<lparr>state := THREAD_STATE_RUNNING\<rparr>
       else if i = c \<and> state (g_tasks s ! c) = THREAD_STATE_RUNNING
       then (g_tasks s ! c)\<lparr>state := THREAD_STATE_READY\<rparr> else g_tasks s ! i)"
    "g_sched_inited (switch_to (Some c) n s) = g_sched_inited s"
    "g_thread_ipc_ext (switch_to (Some c) n s) = g_thread_ipc_ext s"
    "kheap (switch_to (Some c) n s) = kheap s" "g_next_pid (switch_to (Some c) n s) = g_next_pid s"
  using assms by (auto simp: switch_to_def Let_def nth_list_update)

text \<open>Scheduling decisions, none of which picks \<open>k\<close>, with arbitrary steps of the running thread in between.\<close>
inductive passed_over :: "('a sched_scheme \<Rightarrow> 'a sched_scheme option) \<Rightarrow> nat \<Rightarrow> nat \<Rightarrow> 'a sched_scheme \<Rightarrow> 'a sched_scheme \<Rightarrow> bool"
  for poll k where
  none: "passed_over poll k 0 s s"
| pass: "\<lbrakk>passed_over poll k m s s'; g_current_task u = g_current_task s'; g_sched_inited u; \<not> in_sched u;
    length (g_tasks u) = MAX_TASKS; state (g_tasks u ! k) = THREAD_STATE_READY;
    sched_schedule poll u = Some s''; g_current_task s'' \<noteq> Some k\<rbrakk>
    \<Longrightarrow> passed_over poll k (Suc m) s s''"

lemma passed_over_measure:
  assumes "passed_over poll k m s s'" "g_current_task s = Some c" "c < MAX_TASKS" "k < MAX_TASKS"
  shows "\<exists>c'<MAX_TASKS. g_current_task s' = Some c' \<and> m + rr_dist c' k \<le> rr_dist c k"
  using assms
proof (induction rule: passed_over.induct)
  case (none s)
  then show ?case by auto
next
  case (pass m s s' u s'')
  then obtain c' where c': "c' < MAX_TASKS" "g_current_task u = Some c'" "m + rr_dist c' k \<le> rr_dist c k"
    by auto
  have r: "runnable (g_tasks u ! k)" using pass.hyps(6) by (simp add: runnable_def)
  obtain n where n: "find_runnable c' (g_tasks u) = Some n"
    using finds_runnable[OF c'(1) pass.prems(3) r] .
  have s'': "s'' = (if n = c' then u else (switch_to (Some c') n (u\<lparr>in_sched := True\<rparr>))\<lparr>in_sched := False\<rparr>)"
    using schedule_found[OF pass.hyps(3,4) c'(2,1) n, of poll] pass.hyps(7) by simp
  have nlt: "n < MAX_TASKS" using find_runnable_bound[OF n] .
  have cur: "g_current_task s'' = Some n"
    using s'' c' nlt pass.hyps(5) switch_to_fields(1)[of c' "u\<lparr>in_sched := True\<rparr>" n] by auto
  then have "n \<noteq> k" using pass.hyps(8) by auto
  then show ?case
    using rr_dist_decreases[OF c'(1) pass.prems(3) r n] c'(3) cur nlt by auto
qed

section \<open>Creation of threads\<close>

interpretation thread_pool: claiming_pool "\<lambda>x. state x = THREAD_STATE_UNUSED"
  "\<lambda>i x. new_thread pid nm ent a prio" "alloc_thread (new_thread pid nm ent a prio)"
  for pid nm ent a prio
  by unfold_locales (auto simp: alloc_thread_def new_thread_def simp del: first_index_None
      split: option.splits)

lemma set_heap_fields [simp]:
  "g_tasks (set_heap h s) = g_tasks s" "g_current_task (set_heap h s) = g_current_task s"
  "g_sched_inited (set_heap h s) = g_sched_inited s" "in_sched (set_heap h s) = in_sched s"
  "g_next_pid (set_heap h s) = g_next_pid s" "g_thread_ipc_ext (set_heap h s) = g_thread_ipc_ext s"
  "kheap (set_heap h s) = h\<lparr>emitted := []\<rparr>"
proof -
  have log [simp]: "g_tasks (log_alloc e t) = g_tasks t" "g_current_task (log_alloc e t) = g_current_task t"
    "g_sched_inited (log_alloc e t) = g_sched_inited t" "in_sched (log_alloc e t) = in_sched t"
    "g_next_pid (log_alloc e t) = g_next_pid t" "g_thread_ipc_ext (log_alloc e t) = g_thread_ipc_ext t"
    "kheap (log_alloc e t) = kheap t" for e and t :: "'a sched_scheme"
    by (cases e; simp)+
  have "g_tasks (fold log_alloc es t) = g_tasks t \<and> g_current_task (fold log_alloc es t) = g_current_task t
    \<and> g_sched_inited (fold log_alloc es t) = g_sched_inited t \<and> in_sched (fold log_alloc es t) = in_sched t
    \<and> g_next_pid (fold log_alloc es t) = g_next_pid t \<and> g_thread_ipc_ext (fold log_alloc es t) = g_thread_ipc_ext t
    \<and> kheap (fold log_alloc es t) = kheap t" for es and t :: "'a sched_scheme"
    by (induction es arbitrary: t) simp_all
  then show "g_tasks (set_heap h s) = g_tasks s" "g_current_task (set_heap h s) = g_current_task s"
    "g_sched_inited (set_heap h s) = g_sched_inited s" "in_sched (set_heap h s) = in_sched s"
    "g_next_pid (set_heap h s) = g_next_pid s" "g_thread_ipc_ext (set_heap h s) = g_thread_ipc_ext s"
    "kheap (set_heap h s) = h\<lparr>emitted := []\<rparr>"
    by (simp_all add: set_heap_def)
qed

lemma heap_inv_emitted [simp]: "heap_inv (h\<lparr>emitted := es\<rparr>) = heap_inv h"
  by (simp add: heap_inv_def)

lemma kmalloc_returns:
  assumes "heap_inv (kheap s)" "unat n + SAGE_ARENA_SIZE + 32 < 2 ^ 64"
  obtains p h where "kmalloc n tag s = Some (p, set_heap h s)" "heap_inv h"
proof -
  obtain p h where "sage_malloc_tagged n tag (kheap s) = Some (p, h)"
    using malloc_returns[OF assms, of tag] by blast
  with malloc_inv[OF assms(1) this] that show ?thesis by (simp add: kmalloc_def)
qed

text \<open>Used threads have distinct identifiers, all issued before the next one.\<close>
definition pids_ok :: "'a sched_scheme \<Rightarrow> bool" where
  "pids_ok s \<longleftrightarrow>
    (\<forall>t\<in>set (g_tasks s). state t \<noteq> THREAD_STATE_UNUSED \<longrightarrow> tid t < g_next_pid s) \<and>
    (\<forall>i<length (g_tasks s). \<forall>j<length (g_tasks s).
      state (g_tasks s ! i) \<noteq> THREAD_STATE_UNUSED \<longrightarrow> state (g_tasks s ! j) \<noteq> THREAD_STATE_UNUSED \<longrightarrow>
      tid (g_tasks s ! i) = tid (g_tasks s ! j) \<longrightarrow> i = j)"

lemma kmalloc_grants:
  assumes "heap_inv (kheap s)" "unat n + SAGE_ARENA_SIZE + 32 < 2 ^ 64" "n \<noteq> 0"
  obtains s' where "\<not> malloc_fits n (kheap s)" "kmalloc n tag s = Some (None, s')"
    | p h u where "malloc_fits n (kheap s)" "kmalloc n tag s = Some (Some p, set_heap h s)" "heap_inv h"
      "headers h (p - ALLOC_HEADER_SIZE) = Some (u, tag)" "unat n \<le> unat u"
proof -
  obtain r h where m: "sage_malloc_tagged n tag (kheap s) = Some (r, h)" "r \<noteq> None \<longleftrightarrow> malloc_fits n (kheap s)"
    using malloc_returns[OF assms(1,2), of tag] assms(3) by (auto simp: malloc_fits_def list_ex_iff)
  show ?thesis
  proof (cases r)
    case None
    then show ?thesis using m that(1) by (simp add: kmalloc_def)
  next
    case (Some p)
    have "sage_malloc_tagged n tag (kheap s) = Some (Some p, h)" using m(1) Some by simp
    from malloc_block_facts[OF assms(1) this] assms(2)
    obtain u where "headers h (p - ALLOC_HEADER_SIZE) = Some (u, tag)" "unat n \<le> unat u" by auto
    with m Some malloc_inv[OF assms(1) m(1)] show ?thesis by (intro that(2)) (simp_all add: kmalloc_def)
  qed
qed

lemma create_thread_cases:
  assumes "heap_inv (kheap s)" "length (g_thread_ipc_ext s) = SCHED_MAX_THREADS"
  obtains "sched_create_thread nm ent a prio s = Some (None, s)"
      "\<forall>t\<in>set (g_tasks s). state t \<noteq> THREAD_STATE_UNUSED"
  | i p h where "alloc_thread (new_thread (g_next_pid s) nm ent a prio) (g_tasks s)
        = Some (i, (g_tasks s)[i := new_thread (g_next_pid s) nm ent a prio])"
      "i < length (g_tasks s)" "state (g_tasks s ! i) = THREAD_STATE_UNUSED" "heap_inv h"
      "sched_create_thread nm ent a prio s = Some (Some i,
        upd_task i (stack_base_update (\<lambda>_. Some p)) (set_heap h (sched_ipc_init_thread
          (new_thread (g_next_pid s) nm ent a prio)
          (s\<lparr>g_tasks := (g_tasks s)[i := new_thread (g_next_pid s) nm ent a prio],
             g_next_pid := g_next_pid s + 1\<rparr>))))"
      "malloc_fits SCHED_STACK_SIZE (kheap s)"
      "\<exists>u. headers h (p - ALLOC_HEADER_SIZE) = Some (u, ALLOC_TAG_KERNEL) \<and> unat SCHED_STACK_SIZE \<le> unat u"
  | i where "alloc_thread (new_thread (g_next_pid s) nm ent a prio) (g_tasks s)
        = Some (i, (g_tasks s)[i := new_thread (g_next_pid s) nm ent a prio])"
      "sched_create_thread nm ent a prio s = None" "\<not> malloc_fits SCHED_STACK_SIZE (kheap s)"
proof (cases "alloc_thread (new_thread (g_next_pid s) nm ent a prio) (g_tasks s)")
  case None
  then show ?thesis
    using that(1) thread_pool.alloc_fails_iff[of "g_next_pid s" nm ent a prio "g_tasks s"]
    by (simp add: sched_create_thread_def)
next
  case (Some r)
  let ?t = "new_thread (g_next_pid s) nm ent a prio"
  obtain i ts where r: "alloc_thread ?t (g_tasks s) = Some (i, ts)" using Some by (cases r) simp
  have ts: "ts = (g_tasks s)[i := ?t]" using thread_pool.alloc_Some[OF r] by simp
  let ?s1 = "sched_ipc_init_thread ?t (s\<lparr>g_tasks := ts, g_next_pid := g_next_pid s + 1\<rparr>)"
  have k: "kheap ?s1 = kheap s" by (simp add: sched_ipc_init_thread_def)
  have size: "unat SCHED_STACK_SIZE + SAGE_ARENA_SIZE + 32 < 2 ^ 64" "SCHED_STACK_SIZE \<noteq> 0"
    by (simp_all add: SCHED_STACK_SIZE_def SAGE_ARENA_SIZE_def)
  show ?thesis
  proof (rule kmalloc_grants[OF _ size, of ?s1 ALLOC_TAG_KERNEL])
    fix s' assume "\<not> malloc_fits SCHED_STACK_SIZE (kheap ?s1)"
      "kmalloc SCHED_STACK_SIZE ALLOC_TAG_KERNEL ?s1 = Some (None, s')"
    then show ?thesis using that(3)[of i] r ts k by (simp add: sched_create_thread_def Let_def)
  next
    fix p h u assume m: "malloc_fits SCHED_STACK_SIZE (kheap ?s1)"
      "kmalloc SCHED_STACK_SIZE ALLOC_TAG_KERNEL ?s1 = Some (Some p, set_heap h ?s1)" "heap_inv h"
      "headers h (p - ALLOC_HEADER_SIZE) = Some (u, ALLOC_TAG_KERNEL)" "unat SCHED_STACK_SIZE \<le> unat u"
    then have "sched_create_thread nm ent a prio s
        = Some (Some i, upd_task i (stack_base_update (\<lambda>_. Some p)) (set_heap h ?s1))"
      using r by (simp add: sched_create_thread_def Let_def)
    then show ?thesis
      using that(2)[of i h p] r thread_pool.alloc_was_free[OF r] m k by (simp add: ts)
  qed (use assms(1) k in simp)
qed

lemma nth_ext_init:
  assumes "length (g_thread_ipc_ext s) = SCHED_MAX_THREADS" "ext_index u = ext_index t"
  shows "task_ipc_cap_table u (sched_ipc_init_thread t s) = initial_cap_table"
proof -
  have "ext_index t < length (g_thread_ipc_ext s)"
    using assms(1) by (simp add: ext_index_def SCHED_MAX_THREADS_def)
  then show ?thesis using assms(2) by (simp add: task_ipc_cap_table_def sched_ipc_init_thread_def)
qed

section \<open>Properties\<close>

text \<open>A scheduler with the idle thread running and the given other threads after it.\<close>
definition demo_sched :: "thread list \<Rightarrow> u32 \<Rightarrow> sched" where
  "demo_sched ts pid =
    \<lparr>g_tasks = zero_thread\<lparr>state := THREAD_STATE_RUNNING\<rparr> # ts @ replicate (127 - length ts) zero_thread,
     g_current_task = Some 0, g_sched_inited = True, in_sched = False, g_next_pid = pid,
     g_watchdog_counter = 0, last_counter = 0, ticks_since_update = 0,
     g_thread_ipc_ext = replicate 64 \<lparr>cap_table = \<lparr>caps = replicate 64 zero_cap, next_free = 0\<rparr>,
       rpc_reply_cap = 0, rpc_timeout_tick = 0, signal_pending = 0, signal_mask = 0\<rparr>,
     kheap = heap0, ktrace = \<lparr>g_trace_buffer = [], g_trace_head = 0, g_trace_count = 0\<rparr>, timer_ticks = 0\<rparr>"

lemma demo_sched_fields [simp]:
  "g_current_task (demo_sched ts p) = Some 0" "g_sched_inited (demo_sched ts p)"
  "\<not> in_sched (demo_sched ts p)" "g_next_pid (demo_sched ts p) = p" "kheap (demo_sched ts p) = heap0"
  "length (g_thread_ipc_ext (demo_sched ts p)) = 64"
  "length ts \<le> 127 \<Longrightarrow> length (g_tasks (demo_sched ts p)) = 128"
  "g_tasks (demo_sched ts p) ! 0 = zero_thread\<lparr>state := THREAD_STATE_RUNNING\<rparr>"
  by (simp_all add: demo_sched_def)

lemma demo_sched_unused:
  assumes "0 < i" "i < 128"
  shows "g_tasks (demo_sched [] p) ! i = zero_thread"
  using assms by (cases i) (simp_all add: demo_sched_def)

lemma demo_sched_ok: "sched_ok (demo_sched [] p)"
proof -
  have "state (g_tasks (demo_sched [] p) ! i) \<noteq> THREAD_STATE_RUNNING" if "i < MAX_TASKS" "i \<noteq> 0" for i
    using that demo_sched_unused[of i p] by (simp add: zero_thread_def MAX_TASKS_def)
  then show ?thesis
    by (simp add: sched_ok_def MAX_TASKS_def SCHED_MAX_THREADS_def)
qed

text \<open>
  C11. Whenever some thread is runnable, \<^verbatim>\<open>sched_schedule\<close> returns and makes current the first
  runnable thread in cyclic order after the current one. It changes no more than the states of the two
  threads of the switch: the new thread is marked running and the old one ready if it was running (a
  blocked or terminated thread stays so), so again at most the current thread is marked running. The
  choice is the code's simple round robin; the priorities that the design documents promise play no
  part in it.
\<close>
theorem sched_schedule_round_robin:
  assumes "sched_ok s" "g_current_task s = Some c" "i < MAX_TASKS" "runnable (g_tasks s ! i)"
  shows "\<exists>n s'. sched_schedule poll s = Some s' \<and> sched_ok s' \<and> g_current_task s' = Some n \<and>
    runnable (g_tasks s ! n) \<and>
    (\<forall>d<rr_dist c n. \<not> runnable (g_tasks s ! ((c + Suc d) mod MAX_TASKS))) \<and>
    (\<forall>j. g_tasks s' ! j =
      (if n = c then g_tasks s ! j
       else if j = n then (g_tasks s ! j)\<lparr>state := THREAD_STATE_RUNNING\<rparr>
       else if j = c \<and> state (g_tasks s ! c) = THREAD_STATE_RUNNING
       then (g_tasks s ! j)\<lparr>state := THREAD_STATE_READY\<rparr> else g_tasks s ! j))"
proof -
  have c: "c < MAX_TASKS" "g_sched_inited s" "\<not> in_sched s" "length (g_tasks s) = MAX_TASKS"
    "length (g_thread_ipc_ext s) = SCHED_MAX_THREADS"
    "\<forall>i<MAX_TASKS. i \<noteq> c \<longrightarrow> state (g_tasks s ! i) \<noteq> THREAD_STATE_RUNNING"
    using assms(1,2) by (auto simp: sched_ok_def)
  obtain n where n: "find_runnable c (g_tasks s) = Some n" using finds_runnable[OF c(1) assms(3,4)] .
  then obtain k where k: "k < MAX_TASKS" "n = (c + Suc k) mod MAX_TASKS" "runnable (g_tasks s ! n)"
      "\<forall>j<k. \<not> runnable (g_tasks s ! ((c + Suc j) mod MAX_TASKS))" by (auto simp: find_runnable_Some)
  have nlt: "n < MAX_TASKS" using find_runnable_bound[OF n] .
  have dist: "rr_dist c n = k" using rr_dist_unique[OF c(1) k(1,2)] .
  note sch = schedule_found[OF c(2,3) assms(2) c(1) n, of poll]
  show ?thesis
  proof (cases "n = c")
    case True
    with sch assms(1,2) k dist show ?thesis by auto
  next
    case False
    let ?u = "s\<lparr>in_sched := True\<rparr>" and ?s' = "(switch_to (Some c) n (s\<lparr>in_sched := True\<rparr>))\<lparr>in_sched := False\<rparr>"
    have f: "g_tasks ?s' ! j =
      (if j = n then (g_tasks s ! n)\<lparr>state := THREAD_STATE_RUNNING\<rparr>
       else if j = c \<and> state (g_tasks s ! c) = THREAD_STATE_RUNNING
       then (g_tasks s ! c)\<lparr>state := THREAD_STATE_READY\<rparr> else g_tasks s ! j)" for j
      using switch_to_fields(3)[of c ?u n j] c(1,4) nlt False by simp
    have "sched_ok ?s'"
      using switch_to_fields[of c ?u n] c nlt False f by (auto simp: sched_ok_def)
    moreover have "g_current_task ?s' = Some n" using switch_to_fields(1)[of c ?u n] c nlt False by simp
    ultimately show ?thesis using sch False k(3,4) dist f by (intro exI[of _ n] exI[of _ ?s']) simp
  qed
qed

theorem sched_schedule_round_robin_witness:
  "\<exists>n s'. sched_schedule Some (demo_sched [] 1) = Some s' \<and> sched_ok s' \<and> g_current_task s' = Some n"
  using sched_schedule_round_robin[OF demo_sched_ok, of 1 0 0 Some]
  by (auto simp: MAX_TASKS_def runnable_def)

text \<open>
  C12. Bounded waiting: however the running threads behave between scheduling decisions, a thread
  that is ready is passed over by at most 127 decisions in a row.
\<close>
theorem sched_bounded_waiting:
  assumes "passed_over poll k m s s'" "g_current_task s = Some c" "c < MAX_TASKS" "k < MAX_TASKS"
  shows "m < MAX_TASKS"
  using passed_over_measure[OF assms] rr_dist_bound[of c k] by auto

text \<open>One decision among three threads passes over the last.\<close>
theorem sched_bounded_waiting_witness:
  "let r = zero_thread\<lparr>state := THREAD_STATE_READY\<rparr>; s = demo_sched [r, r] 3 in
    \<exists>s'. passed_over Some 2 1 s s' \<and> 1 < MAX_TASKS"
proof -
  let ?r = "zero_thread\<lparr>state := THREAD_STATE_READY\<rparr>"
  let ?s = "demo_sched [?r, ?r] 3"
  have t: "g_tasks ?s ! 1 = ?r" "g_tasks ?s ! 2 = ?r" by (simp_all add: demo_sched_def nth_Cons')
  have "find_runnable 0 (g_tasks ?s) = Some 1"
    using t by (auto simp: find_runnable_Some MAX_TASKS_def runnable_def intro: exI[of _ 0])
  then have sch: "sched_schedule Some ?s
      = Some ((switch_to (Some 0) 1 (?s\<lparr>in_sched := True\<rparr>))\<lparr>in_sched := False\<rparr>)" (is "_ = Some ?s'")
    using schedule_found[of ?s 0 1 Some] by (simp add: MAX_TASKS_def)
  have "g_current_task ?s' \<noteq> Some 2" by (simp add: switch_to_def Let_def)
  then have p: "passed_over Some 2 (Suc 0) ?s ?s'"
    by (intro passed_over.pass[OF passed_over.none, where u = ?s] sch) (simp_all add: MAX_TASKS_def t)
  have "Suc 0 < MAX_TASKS"
    using sched_bounded_waiting[OF p, of 0] by (simp add: MAX_TASKS_def)
  with p show ?thesis by (auto simp: Let_def)
qed


lemma get_thread_by_id_fresh:
  assumes "pids_ok s"
  shows "sched_get_thread_by_id (g_next_pid s) s = None"
  using assms by (auto simp: sched_get_thread_by_id_def pids_ok_def)

lemma pids_ok_create:
  assumes ok: "pids_ok s" and i: "i < length (g_tasks s)" and wrap: "unat (g_next_pid s) + 1 < 2 ^ 32"
    and t: "tid t = g_next_pid s"
    and s': "g_tasks s' = (g_tasks s)[i := t]" "g_next_pid s' = g_next_pid s + 1"
  shows "pids_ok s'"
proof -
  have up: "g_next_pid s < g_next_pid s + 1"
    using wrap by (simp add: word_less_nat_alt unat_word_ariths)
  have old: "tid x < g_next_pid s + 1 \<and> tid x \<noteq> g_next_pid s"
    if "x \<in> set (g_tasks s)" "state x \<noteq> THREAD_STATE_UNUSED" for x
    using ok that up by (force simp: pids_ok_def)
  have "tid x < g_next_pid s'" if x: "x \<in> set (g_tasks s')" "state x \<noteq> THREAD_STATE_UNUSED" for x
  proof (cases "x = t")
    case False
    then have "x \<in> set (g_tasks s)" using x(1) set_update_subset_insert[of "g_tasks s" i t] by (auto simp: s'(1))
    with old x(2) show ?thesis by (simp add: s'(2))
  qed (simp add: t s'(2) up)
  moreover have new: "tid (g_tasks s' ! k) \<noteq> g_next_pid s"
    if "k < length (g_tasks s')" "k \<noteq> i" "state (g_tasks s' ! k) \<noteq> THREAD_STATE_UNUSED" for k
    using old[of "g_tasks s ! k"] that by (simp add: s'(1))
  have it: "tid (g_tasks s' ! i) = g_next_pid s" using i t by (simp add: s'(1))
  moreover have "k = j" if k: "k < length (g_tasks s')" "j < length (g_tasks s')"
      "state (g_tasks s' ! k) \<noteq> THREAD_STATE_UNUSED" "state (g_tasks s' ! j) \<noteq> THREAD_STATE_UNUSED"
      "tid (g_tasks s' ! k) = tid (g_tasks s' ! j)" for k j
  proof (cases "k = i \<or> j = i")
    case True
    then show ?thesis using k new[of k] new[of j] it by metis
  next
    case False
    then show ?thesis using k ok by (simp add: s'(1) pids_ok_def)
  qed
  ultimately show ?thesis unfolding pids_ok_def by blast
qed

text \<open>
  C26. \<^verbatim>\<open>sched_create_thread\<close> fails with nothing changed exactly when all 128 slots are in use. Otherwise,
  when the heap has room for a 64 KiB stack, it returns the first free slot: the new thread is ready,
  has a live heap block of that size as its stack, has an identifier no thread in use has (as long as
  the 32-bit counter has not wrapped), is the one found under that identifier, and leaves every other
  thread as it was; identifiers stay distinct. When there is no room it stores outside the heap.
\<close>
theorem sched_create_thread_fresh_id:
  assumes "sched_ok s" "pids_ok s" "heap_inv (kheap s)" "unat (g_next_pid s) + 1 < 2 ^ 32"
  shows "case first_index (\<lambda>t. state t = THREAD_STATE_UNUSED) (g_tasks s) of
      None \<Rightarrow> sched_create_thread nm ent a prio s = Some (None, s)
    | Some i \<Rightarrow>
        if malloc_fits SCHED_STACK_SIZE (kheap s)
        then \<exists>s' p u tag. sched_create_thread nm ent a prio s = Some (Some i, s') \<and>
          pids_ok s' \<and> heap_inv (kheap s') \<and> state (g_tasks s' ! i) = THREAD_STATE_READY \<and>
          stack_base (g_tasks s' ! i) = Some p \<and> headers (kheap s') (p - ALLOC_HEADER_SIZE) = Some (u, tag) \<and>
          unat SCHED_STACK_SIZE \<le> unat u \<and>
          sched_get_thread_by_id (g_next_pid s) s = None \<and>
          sched_get_thread_by_id (g_next_pid s) s' = Some i \<and>
          (\<forall>j. j \<noteq> i \<longrightarrow> g_tasks s' ! j = g_tasks s ! j)
        else sched_create_thread nm ent a prio s = None"
proof -
  have len: "length (g_thread_ipc_ext s) = SCHED_MAX_THREADS" using assms(1) by (simp add: sched_ok_def)
  show ?thesis
    using assms(3) len
  proof (cases rule: create_thread_cases[where nm = nm and ent = ent and a = a and prio = prio])
    case 1
    then have "first_index (\<lambda>t. state t = THREAD_STATE_UNUSED) (g_tasks s) = None" by simp
    then show ?thesis using 1(1) by (simp only: option.case)
  next
    case (2 i p h)
    let ?t = "new_thread (g_next_pid s) nm ent a prio"
    let ?s' = "upd_task i (stack_base_update (\<lambda>_. Some p)) (set_heap h (sched_ipc_init_thread ?t
      (s\<lparr>g_tasks := (g_tasks s)[i := ?t], g_next_pid := g_next_pid s + 1\<rparr>)))"
    let ?t' = "?t\<lparr>stack_base := Some p\<rparr>"
    have ts: "g_tasks ?s' = (g_tasks s)[i := ?t']" "g_next_pid ?s' = g_next_pid s + 1"
      using 2(2) by (simp_all add: sched_ipc_init_thread_def)
    have ids: "tid ?t' = g_next_pid s" "state ?t' = THREAD_STATE_READY" by (simp_all add: new_thread_def)
    have q: "pids_ok ?s'" using pids_ok_create[OF assms(2) 2(2) assms(4) ids(1) ts] .
    have none: "sched_get_thread_by_id (g_next_pid s) s = None" using get_thread_by_id_fresh[OF assms(2)] .
    then have "tid (g_tasks s ! j) = g_next_pid s \<Longrightarrow> state (g_tasks s ! j) = THREAD_STATE_UNUSED"
      if "j < length (g_tasks s)" for j
      using that by (auto simp: sched_get_thread_by_id_def)
    then have "sched_get_thread_by_id (g_next_pid s) ?s' = Some i"
      unfolding sched_get_thread_by_id_def ts using 2(2) ids
      by (intro first_index_eqI) (auto simp: nth_list_update)
    moreover have "first_index (\<lambda>t. state t = THREAD_STATE_UNUSED) (g_tasks s) = Some i"
      using thread_pool.alloc_Some[OF 2(1)] by simp
    moreover obtain u where "headers h (p - ALLOC_HEADER_SIZE) = Some (u, ALLOC_TAG_KERNEL)"
      "unat SCHED_STACK_SIZE \<le> unat u" using 2(7) by blast
    ultimately show ?thesis using 2(2-6) q none ts ids by auto
  next
    case (3 i)
    moreover have "first_index (\<lambda>t. state t = THREAD_STATE_UNUSED) (g_tasks s) = Some i"
      using thread_pool.alloc_Some[OF 3(1)] by simp
    ultimately show ?thesis by simp
  qed
qed

text \<open>The first request for a stack, on an empty heap.\<close>
lemma heap0_fits: "malloc_fits SCHED_STACK_SIZE heap0"
  by (simp add: malloc_fits_def heap0_def block_need_def unat_ALIGN_wrapped SCHED_STACK_SIZE_def alloc_consts)

theorem sched_create_thread_fresh_id_witness:
  "\<exists>s'. sched_create_thread ''sh'' 0 0 THREAD_PRIORITY_NORMAL (demo_sched [] 1) = Some (Some 1, s') \<and>
    sched_get_thread_by_id 1 s' = Some 1 \<and> state (g_tasks s' ! 1) = THREAD_STATE_READY \<and> pids_ok s'"
proof -
  have "tid t = 0" if "t \<in> set (g_tasks (demo_sched [] 1))" for t
    using that by (auto simp: demo_sched_def zero_thread_def)
  moreover have "i = 0" if "i < 128" "state (g_tasks (demo_sched [] 1) ! i) \<noteq> THREAD_STATE_UNUSED" for i
    using that demo_sched_unused[of i 1] by (cases "i = 0") (simp_all add: zero_thread_def)
  ultimately have pids: "pids_ok (demo_sched [] 1)"
    unfolding pids_ok_def by auto
  have "first_index (\<lambda>t. state t = THREAD_STATE_UNUSED) (g_tasks (demo_sched [] 1)) = Some 1"
    using demo_sched_unused[of 1 1] by (intro first_index_eqI) (simp_all add: zero_thread_def)
  then show ?thesis
    using sched_create_thread_fresh_id[OF demo_sched_ok pids, of "''sh''" 0 0 THREAD_PRIORITY_NORMAL]
      heap0_inv heap0_fits by auto
qed

text \<open>
  The IPC extensions are 64 for 128 threads and are found by the identifier modulo 64, so the
  creation of a thread overwrites the capability table of any thread whose identifier agrees with the
  new one modulo 64: all its capabilities are gone and it holds the initial table.
\<close>
theorem sched_create_thread_clobbers_caps:
  assumes "sched_ok s" "heap_inv (kheap s)"
    "unat (tid t) mod SCHED_MAX_THREADS = unat (g_next_pid s) mod SCHED_MAX_THREADS"
    "sched_create_thread nm ent a prio s = Some (Some i, s')"
  shows "task_ipc_cap_table t s' = initial_cap_table"
proof -
  have len: "length (g_thread_ipc_ext s) = SCHED_MAX_THREADS" using assms(1) by (simp add: sched_ok_def)
  show ?thesis
    using assms(2) len
  proof (cases rule: create_thread_cases[where nm = nm and ent = ent and a = a and prio = prio])
    case 1
    then show ?thesis using assms(4) by simp
  next
    case (2 j p h)
    have idx: "ext_index t = ext_index (new_thread (g_next_pid s) nm ent a prio)"
      using assms(3) by (simp add: ext_index_def new_thread_def)
    show ?thesis
      using nth_ext_init[OF _ idx, of "s\<lparr>g_tasks := (g_tasks s)[j := new_thread (g_next_pid s) nm ent a prio],
        g_next_pid := g_next_pid s + 1\<rparr>"] len 2(5) assms(4)
      by (auto simp: task_ipc_cap_table_def)
  qed (use assms(4) in simp)
qed

theorem sched_create_thread_clobbers_caps_witness:
  "\<exists>i s'. sched_create_thread ''sh'' 0 0 THREAD_PRIORITY_NORMAL (demo_sched [] 64) = Some (Some i, s') \<and>
    task_ipc_cap_table zero_thread s' = initial_cap_table \<and>
    task_ipc_cap_table zero_thread (demo_sched [] 64) \<noteq> initial_cap_table"
proof -
  obtain i s' where c: "sched_create_thread ''sh'' 0 0 THREAD_PRIORITY_NORMAL (demo_sched [] 64) = Some (Some i, s')"
  proof (rule create_thread_cases[of "demo_sched [] 64" "''sh''" 0 0 THREAD_PRIORITY_NORMAL])
    assume "\<forall>t\<in>set (g_tasks (demo_sched [] 64)). state t \<noteq> THREAD_STATE_UNUSED"
    then show thesis by (simp add: demo_sched_def zero_thread_def)
  qed (auto simp: heap0_inv heap0_fits SCHED_MAX_THREADS_def intro: that)
  moreover have "task_ipc_cap_table zero_thread s' = initial_cap_table"
    using sched_create_thread_clobbers_caps[OF demo_sched_ok _ _ c, of zero_thread] heap0_inv
    by (simp add: zero_thread_def SCHED_MAX_THREADS_def)
  moreover have "next_free (task_ipc_cap_table zero_thread (demo_sched [] 64)) \<noteq> next_free initial_cap_table"
    by (simp add: task_ipc_cap_table_def demo_sched_def ext_index_def zero_thread_def
        initial_cap_table_def SCHED_MAX_THREADS_def)
  ultimately show ?thesis by metis
qed

end
