(* ===== verification/Sage_Timer.thy ===== *)
theory Sage_Timer
  imports Sage_Sched
begin

text \<open>
  The timer of \<^verbatim>\<open>kernel/core/sagelang/timer_bridge.c\<close>. The hardware is the sequence of values that
  successive reads of the counter (\<^verbatim>\<open>cntvct_el0\<close>, \<^verbatim>\<open>rdtime\<close> or \<^verbatim>\<open>rdtsc\<close>) and of the control register
  return; writes to the device are left out. \<^verbatim>\<open>ata_timer_tick\<close> and \<^verbatim>\<open>console_periodic_flip\<close> have empty
  bodies. The interrupt handler is split at \<^verbatim>\<open>sched_timer_tick\<close>, which may switch threads: what follows
  it belongs to the interrupted thread. Inside the scheduler's waiting loop the nested
  \<^verbatim>\<open>sched_schedule\<close> returns at once, so there the two halves run in sequence; that is
  \<open>timer_idle_poll\<close> here, the argument of the scheduler's functions.

  Shown: polling the timer makes no thread runnable, so a scheduler with no runnable thread never
  returns, and its watchdog never fires.
\<close>

unbundle bit_operations_syntax

datatype timer_arch = TIMER_ARCH_X86 | TIMER_ARCH_ARM64 | TIMER_ARCH_RV64

record timer = sched +
  g_timer_freq :: u64
  g_timer_interval :: u64
  g_flip_counter :: u32
  g_next_tick_time :: u64
  g_boot_timer_count :: u64
  cpu_seed :: u32
  hw_count :: "nat \<Rightarrow> u64"
  hw_ctl :: "nat \<Rightarrow> u64"
  hw_reads :: nat

definition PIT_HZ :: u64 where "PIT_HZ = 100"
definition PIT_BASE_HZ :: u64 where "PIT_BASE_HZ = 1193182"
definition CNTV_ISTATUS :: u64 where "CNTV_ISTATUS = 4"
definition ALLOC_TAG_PARSER :: u32 where "ALLOC_TAG_PARSER = 4"

text \<open>One read of the hardware counter.\<close>
definition arch_timer_count :: "'a timer_scheme \<Rightarrow> u64 \<times> 'a timer_scheme" where
  "arch_timer_count s = (hw_count s (hw_reads s), s\<lparr>hw_reads := Suc (hw_reads s)\<rparr>)"

definition arch_timer_ctl_read :: "'a timer_scheme \<Rightarrow> u64 \<times> 'a timer_scheme" where
  "arch_timer_ctl_read s = (hw_ctl s (hw_reads s), s\<lparr>hw_reads := Suc (hw_reads s)\<rparr>)"

text \<open>The frequency register reads \<open>f\<close> on ARM64 and is a constant elsewhere.\<close>
fun arch_timer_freq :: "timer_arch \<Rightarrow> u64 \<Rightarrow> u64" where
  "arch_timer_freq TIMER_ARCH_ARM64 f = (if f \<noteq> 0 then f else 62500000)"
| "arch_timer_freq TIMER_ARCH_RV64 f = 10000000"
| "arch_timer_freq TIMER_ARCH_X86 f = 1193182"

text \<open>The boot count is set from the hardware unless it is set already.\<close>
definition init_boot_count :: "'a timer_scheme \<Rightarrow> 'a timer_scheme" where
  "init_boot_count s =
    (if g_boot_timer_count s = 0
     then let (c, s') = arch_timer_count s in s'\<lparr>g_boot_timer_count := c\<rparr> else s)"

fun timer_init :: "timer_arch \<Rightarrow> u64 \<Rightarrow> 'a timer_scheme \<Rightarrow> 'a timer_scheme" where
  "timer_init TIMER_ARCH_X86 f s =
    (let s1 = init_boot_count (s\<lparr>timer_ticks := 0, g_flip_counter := 0\<rparr>) in
     s1\<lparr>g_next_tick_time := g_boot_timer_count s1 + 20000000, g_timer_freq := PIT_BASE_HZ, g_timer_interval := 0\<rparr>)"
| "timer_init TIMER_ARCH_ARM64 f s =
    (let fr = arch_timer_freq TIMER_ARCH_ARM64 f;
         s1 = init_boot_count (s\<lparr>timer_ticks := 0, g_flip_counter := 0, g_timer_freq := if fr = 0 then 62500000 else fr\<rparr>)
     in s1\<lparr>g_timer_interval := g_timer_freq s1 div PIT_HZ\<rparr>)"
| "timer_init TIMER_ARCH_RV64 f s =
    (let fr = arch_timer_freq TIMER_ARCH_RV64 f;
         s1 = init_boot_count (s\<lparr>timer_ticks := 0, g_flip_counter := 0, g_timer_freq := if fr = 0 then 10000000 else fr\<rparr>);
         s2 = s1\<lparr>g_timer_interval := g_timer_freq s1 div PIT_HZ\<rparr>
     in s2\<lparr>g_next_tick_time := g_boot_timer_count s2 + g_timer_interval s2\<rparr>)"

text \<open>\<^verbatim>\<open>timer_irq\<close> up to the call of \<^verbatim>\<open>sched_timer_tick\<close>: the next comparison value is programmed.\<close>
fun timer_irq_enter :: "timer_arch \<Rightarrow> 'a timer_scheme \<Rightarrow> 'a timer_scheme" where
  "timer_irq_enter TIMER_ARCH_X86 s = s\<lparr>timer_ticks := timer_ticks s + 1\<rparr>"
| "timer_irq_enter TIMER_ARCH_ARM64 s = snd (arch_timer_count (s\<lparr>timer_ticks := timer_ticks s + 1\<rparr>))"
| "timer_irq_enter TIMER_ARCH_RV64 s =
    (let (c, s') = arch_timer_count (s\<lparr>timer_ticks := timer_ticks s + 1\<rparr>) in
     s'\<lparr>g_next_tick_time := c + g_timer_interval s'\<rparr>)"

text \<open>\<^verbatim>\<open>timer_irq\<close> after that call.\<close>
definition timer_irq_leave :: "'a timer_scheme \<Rightarrow> 'a timer_scheme" where
  "timer_irq_leave s =
    (let s1 = (if timer_ticks s mod 100 = 0
               then let st = sage_alloc_stats ALLOC_TAG_PARSER (kheap s) in
                 klog TRACE_ALLOC_STATS (alloc_count st) (bytes_total st)
                   (klog TRACE_TIMER_TICK (timer_ticks s) 0 s)
               else s)
     in s1\<lparr>g_flip_counter := if g_flip_counter s1 + 1 \<ge> 5 then 0 else g_flip_counter s1 + 1\<rparr>)"

text \<open>Whether \<^verbatim>\<open>timer_poll\<close> finds that the interval has elapsed.\<close>
fun timer_due :: "timer_arch \<Rightarrow> 'a timer_scheme \<Rightarrow> bool \<times> 'a timer_scheme" where
  "timer_due TIMER_ARCH_ARM64 s = (let (v, s') = arch_timer_ctl_read s in (v AND CNTV_ISTATUS \<noteq> 0, s'))"
| "timer_due TIMER_ARCH_RV64 s = (let (c, s') = arch_timer_count s in (c \<ge> g_next_tick_time s', s'))"
| "timer_due TIMER_ARCH_X86 s =
    (let (c, s') = arch_timer_count s in
     if c \<ge> g_next_tick_time s' then (True, s'\<lparr>g_next_tick_time := c + 20000000\<rparr>) else (False, s'))"

text \<open>
  \<^verbatim>\<open>timer_poll\<close> with the scheduler's loop running: \<^verbatim>\<open>sched_timer_tick\<close> switches no thread, whatever
  the argument of the scheduler, and \<open>Inl\<close> is the halt of the watchdog.
\<close>
definition timer_poll :: "timer_arch \<Rightarrow> 'a timer_scheme \<Rightarrow> 'a timer_scheme option" where
  "timer_poll arch s =
    (case timer_due arch s of
       (False, s') \<Rightarrow> Some s'
     | (True, s') \<Rightarrow>
         (case sched_timer_tick (\<lambda>_. None) (timer_irq_enter arch s') of
            Some (Inr s'') \<Rightarrow> Some (timer_irq_leave s'')
          | _ \<Rightarrow> None))"

definition timer_idle_poll :: "timer_arch \<Rightarrow> 'a timer_scheme \<Rightarrow> 'a timer_scheme option" where
  "timer_idle_poll arch s = timer_poll arch s"

definition timer_seconds :: "'a timer_scheme \<Rightarrow> u64" where
  "timer_seconds s = timer_ticks s div PIT_HZ"

definition timer_elapsed_centiseconds :: "timer_arch \<Rightarrow> u64 \<Rightarrow> 'a timer_scheme \<Rightarrow> u64 \<times> 'a timer_scheme" where
  "timer_elapsed_centiseconds arch f s =
    (let (c, s1) = arch_timer_count s in
     if g_timer_freq s1 = 0
     then let fr = arch_timer_freq arch f;
              s2 = s1\<lparr>g_timer_freq := fr\<rparr>
          in (0, if g_boot_timer_count s2 = 0 then s2\<lparr>g_boot_timer_count := c\<rparr> else s2)
     else if c < g_boot_timer_count s1 then (0, s1)
     else (((c - g_boot_timer_count s1) * 100) div g_timer_freq s1, s1))"

definition timer_cpu_percent :: "'a timer_scheme \<Rightarrow> u32 \<times> 'a timer_scheme" where
  "timer_cpu_percent s =
    (let seed = (cpu_seed s * 1103515245 + 12345) AND 0x7FFFFFFF
     in (10 + seed mod 20, s\<lparr>cpu_seed := seed\<rparr>))"

section \<open>What a poll changes\<close>

lemma arch_timer_count_eq [simp]:
  "arch_timer_count s = (hw_count s (hw_reads s), s\<lparr>hw_reads := Suc (hw_reads s)\<rparr>)"
  by (rule arch_timer_count_def)

lemma timer_due_frame:
  "\<exists>b nt. timer_due arch s = (b, s\<lparr>g_next_tick_time := nt, hw_reads := Suc (hw_reads s)\<rparr>)"
proof (cases "arch = TIMER_ARCH_X86 \<and> hw_count s (hw_reads s) \<ge> g_next_tick_time s")
  case True
  then have "timer_due arch s = (True, s\<lparr>g_next_tick_time := hw_count s (hw_reads s) + 20000000, hw_reads := Suc (hw_reads s)\<rparr>)"
    by (simp add: Let_def)
  then show ?thesis by blast
next
  case False
  then have "snd (timer_due arch s) = s\<lparr>g_next_tick_time := g_next_tick_time s, hw_reads := Suc (hw_reads s)\<rparr>"
    by (cases arch) (auto simp: arch_timer_ctl_read_def Let_def)
  then show ?thesis by (metis prod.collapse)
qed

lemma timer_irq_enter_frame:
  "\<exists>nt r. timer_irq_enter arch s = s\<lparr>timer_ticks := timer_ticks s + 1, g_next_tick_time := nt, hw_reads := r\<rparr>"
proof (cases arch)
  case TIMER_ARCH_X86
  then have "timer_irq_enter arch s = s\<lparr>timer_ticks := timer_ticks s + 1, g_next_tick_time := g_next_tick_time s, hw_reads := hw_reads s\<rparr>"
    by simp
  then show ?thesis by blast
next
  case TIMER_ARCH_ARM64
  then have "timer_irq_enter arch s = s\<lparr>timer_ticks := timer_ticks s + 1, g_next_tick_time := g_next_tick_time s, hw_reads := Suc (hw_reads s)\<rparr>"
    by simp
  then show ?thesis by blast
next
  case TIMER_ARCH_RV64
  then have "timer_irq_enter arch s = s\<lparr>timer_ticks := timer_ticks s + 1,
      g_next_tick_time := hw_count s (hw_reads s) + g_timer_interval s, hw_reads := Suc (hw_reads s)\<rparr>"
    by simp
  then show ?thesis by blast
qed

lemma timer_irq_leave_frame: "\<exists>tr fl. timer_irq_leave s = s\<lparr>ktrace := tr, g_flip_counter := fl\<rparr>"
proof -
  have "timer_irq_leave s = s\<lparr>ktrace := ktrace (timer_irq_leave s), g_flip_counter := g_flip_counter (timer_irq_leave s)\<rparr>"
    by (simp add: timer_irq_leave_def Let_def klog_def)
  then show ?thesis by blast
qed

text \<open>While the scheduler is running, a poll changes the clock, the watchdog's memory and the trace only.\<close>
lemma timer_idle_poll_frame:
  assumes "in_sched s" "timer_idle_poll arch s = Some s'"
  obtains tk lc su tr nt fl r where "s' = s\<lparr>timer_ticks := tk, last_counter := lc, ticks_since_update := su,
    ktrace := tr, g_next_tick_time := nt, g_flip_counter := fl, hw_reads := r\<rparr>"
proof -
  obtain b nt where due: "timer_due arch s = (b, s\<lparr>g_next_tick_time := nt, hw_reads := Suc (hw_reads s)\<rparr>)" (is "_ = (b, ?s1)")
    using timer_due_frame by blast
  obtain nt' r where ent: "timer_irq_enter arch ?s1 = ?s1\<lparr>timer_ticks := timer_ticks ?s1 + 1, g_next_tick_time := nt', hw_reads := r\<rparr>" (is "_ = ?s2")
    using timer_irq_enter_frame by blast
  show thesis
  proof (cases b)
    case False
    have "s' = s\<lparr>timer_ticks := timer_ticks s, last_counter := last_counter s, ticks_since_update := ticks_since_update s,
        ktrace := ktrace s, g_next_tick_time := nt, g_flip_counter := g_flip_counter s, hw_reads := Suc (hw_reads s)\<rparr>"
      using assms(2) due False by (simp add: timer_idle_poll_def timer_poll_def)
    then show thesis by (rule that)
  next
    case True
    obtain s3 where s3: "sched_timer_tick (\<lambda>_. None) ?s2 = Some (Inr s3)" "s' = timer_irq_leave s3"
      using assms(2) due True ent by (auto simp: timer_idle_poll_def timer_poll_def split: option.splits sum.splits)
    have s3': "s3 = ?s2\<lparr>last_counter := last_counter s3, ticks_since_update := ticks_since_update s3\<rparr>"
      using s3(1) assms(1) by (auto simp: sched_timer_tick_def sched_yield_def sched_schedule_def Let_def split: if_splits)
    obtain tr fl where "s' = s3\<lparr>ktrace := tr, g_flip_counter := fl\<rparr>"
      using timer_irq_leave_frame[of s3] s3(2) by blast
    then have "s' = s\<lparr>timer_ticks := timer_ticks s + 1, last_counter := last_counter s3,
        ticks_since_update := ticks_since_update s3, ktrace := tr, g_next_tick_time := nt', g_flip_counter := fl, hw_reads := r\<rparr>"
      by (subst (asm) s3') simp
    then show thesis by (rule that)
  qed
qed

lemma wait_runnable_stuck:
  fixes s :: "'a timer_scheme"
  assumes "wait_runnable (timer_idle_poll arch) cur s = Some y" "in_sched s"
  shows "\<exists>i<MAX_TASKS. runnable (g_tasks s ! i)"
proof -
  define P where "P = (\<lambda>(poll :: 'a timer_scheme \<Rightarrow> 'a timer_scheme option) (cur :: nat) (s :: 'a timer_scheme) (y :: nat \<times> 'a timer_scheme).
    poll = timer_idle_poll arch \<longrightarrow> in_sched s \<longrightarrow> (\<exists>i<MAX_TASKS. runnable (g_tasks s ! i)))"
  have "P (timer_idle_poll arch) cur s y"
  proof (rule wait_runnable.raw_induct[OF _ assms(1)])
    fix rec :: "('a timer_scheme \<Rightarrow> 'a timer_scheme option) \<Rightarrow> nat \<Rightarrow> 'a timer_scheme \<Rightarrow> (nat \<times> 'a timer_scheme) option"
      and poll cur s y
    assume ih: "\<And>poll cur s y. rec poll cur s = Some y \<Longrightarrow>
        P poll cur s y"
      and step: "(case find_runnable cur (g_tasks s) of None \<Rightarrow> poll (sched_watchdog_update s) \<bind> rec poll cur
        | Some n \<Rightarrow> Some (n, s)) = Some y"
    have "\<exists>i<MAX_TASKS. runnable (g_tasks s ! i)" if poll: "poll = timer_idle_poll arch" and ins: "in_sched s"
    proof (cases "find_runnable cur (g_tasks s)")
      case None
      then obtain s' where s': "timer_idle_poll arch (sched_watchdog_update s) = Some s'" "rec poll cur s' = Some y"
        using step poll by (auto simp: bind_eq_Some_conv)
      have "in_sched (sched_watchdog_update s)" using ins by (simp add: sched_watchdog_update_def)
      from timer_idle_poll_frame[OF this s'(1)] have "g_tasks s' = g_tasks s" "in_sched s'"
        using ins by (force simp: sched_watchdog_update_def)+
      then show ?thesis using ih[OF s'(2)] poll by (simp add: P_def)
    next
      case (Some n)
      then show ?thesis using find_runnable_bound[OF Some] find_runnable_Some by auto
    qed
    then show "P poll cur s y" by (simp add: P_def)
  qed
  then show ?thesis using assms(2) by (simp add: P_def)
qed

text \<open>
  C31. Deadlock: the timer never makes a thread runnable, so \<^verbatim>\<open>sched_schedule\<close> called when no thread is
  ready or running does not return.
\<close>
theorem sched_schedule_deadlock:
  assumes "g_sched_inited s" "\<not> in_sched s" "\<forall>i<MAX_TASKS. \<not> runnable (g_tasks s ! i)"
  shows "sched_schedule (timer_idle_poll arch) s = None"
proof -
  have "wait_runnable (timer_idle_poll arch) cur (s\<lparr>in_sched := True\<rparr>) = None" for cur
    using wait_runnable_stuck[of arch cur "s\<lparr>in_sched := True\<rparr>"] assms(3)
    by (cases "wait_runnable (timer_idle_poll arch) cur (s\<lparr>in_sched := True\<rparr>)") auto
  then show ?thesis using assms(1,2) by (simp add: sched_schedule_def Let_def)
qed

text \<open>A kernel in which every thread is blocked.\<close>
definition all_blocked :: timer where
  "all_blocked = sched.extend
    ((demo_sched [] 1)\<lparr>g_tasks := replicate MAX_TASKS (zero_thread\<lparr>state := THREAD_STATE_BLOCKED\<rparr>)\<rparr>)
    (timer.fields 0 0 0 0 0 42 (\<lambda>_. 0) (\<lambda>_. 0) 0)"

lemma all_blocked_fields:
  "g_sched_inited all_blocked" "\<not> in_sched all_blocked" "\<forall>i<MAX_TASKS. \<not> runnable (g_tasks all_blocked ! i)"
  "last_counter all_blocked = 0" "g_watchdog_counter all_blocked = 0"
  by (simp_all add: all_blocked_def sched.defs timer.defs demo_sched_def runnable_def)

theorem sched_schedule_deadlock_witness:
  "sched_schedule (timer_idle_poll TIMER_ARCH_ARM64) all_blocked = None"
  by (rule sched_schedule_deadlock[OF all_blocked_fields(1-3)])

text \<open>The iterations of the scheduler's waiting loop.\<close>
primrec spin :: "timer_arch \<Rightarrow> nat \<Rightarrow> 'a timer_scheme \<Rightarrow> 'a timer_scheme option" where
  "spin arch 0 s = Some s"
| "spin arch (Suc n) s = do { s' \<leftarrow> timer_idle_poll arch (sched_watchdog_update s); spin arch n s' }"

text \<open>With the counter just incremented past its remembered value, a poll does not halt.\<close>
lemma poll_not_halted:
  assumes "in_sched s" "last_counter s \<noteq> g_watchdog_counter s"
  shows "\<exists>s'. timer_idle_poll arch s = Some s' \<and>
    (last_counter s' = last_counter s \<or> last_counter s' = g_watchdog_counter s)"
proof -
  obtain b s1 where due: "timer_due arch s = (b, s1)" by (cases "timer_due arch s")
  then have s1: "in_sched s1" "last_counter s1 = last_counter s" "g_watchdog_counter s1 = g_watchdog_counter s"
    using timer_due_frame[of arch s] assms(1) by auto
  define s2 where "s2 = timer_irq_enter arch s1"
  have s2: "in_sched s2" "last_counter s2 = last_counter s" "g_watchdog_counter s2 = g_watchdog_counter s"
    using timer_irq_enter_frame[of arch s1] s1 by (auto simp: s2_def)
  define s3 where "s3 = s2\<lparr>last_counter := g_watchdog_counter s, ticks_since_update := 0\<rparr>"
  have tick: "sched_timer_tick (\<lambda>_. None) s2 = Some (Inr s3)"
    using assms s2 by (simp add: sched_timer_tick_def sched_yield_def sched_schedule_def s3_def)
  have "last_counter (timer_irq_leave s3) = g_watchdog_counter s"
    using timer_irq_leave_frame[of s3] by (auto simp: s3_def)
  then show ?thesis
    using s1(2) by (cases b) (simp_all add: timer_idle_poll_def timer_poll_def due s2_def[symmetric] tick)
qed

text \<open>
  The watchdog does not see that deadlock: the waiting loop counts as progress, so it can go round
  any number of times below \<open>2^64\<close> without the panic of the watchdog, and still no thread is runnable.
\<close>
theorem sched_wait_never_panics:
  assumes "in_sched s" "\<forall>i<MAX_TASKS. \<not> runnable (g_tasks s ! i)"
    "last_counter s \<le> g_watchdog_counter s" "unat (g_watchdog_counter s) + n < 2 ^ 64"
  shows "\<exists>s'. spin arch n s = Some s' \<and> (\<forall>i<MAX_TASKS. \<not> runnable (g_tasks s' ! i))"
  using assms
proof (induction n arbitrary: s)
  case (Suc n)
  let ?u = "sched_watchdog_update s"
  have cnt: "unat (g_watchdog_counter ?u) = unat (g_watchdog_counter s) + 1"
    using Suc.prems(4) by (simp add: sched_watchdog_update_def unat_word_ariths)
  have le: "last_counter ?u < g_watchdog_counter ?u"
    using Suc.prems(3) cnt by (simp add: word_less_nat_alt word_le_nat_alt sched_watchdog_update_def)
  obtain s' where s': "timer_idle_poll arch ?u = Some s'"
      "last_counter s' = last_counter ?u \<or> last_counter s' = g_watchdog_counter ?u"
    using poll_not_halted[of ?u arch] Suc.prems(1) le by (fastforce simp: sched_watchdog_update_def)
  have "in_sched ?u" using Suc.prems(1) by (simp add: sched_watchdog_update_def)
  from timer_idle_poll_frame[OF this s'(1)]
  have f: "g_tasks s' = g_tasks s" "in_sched s'" "g_watchdog_counter s' = g_watchdog_counter ?u"
    using Suc.prems(1) by (force simp: sched_watchdog_update_def)+
  have "last_counter s' \<le> g_watchdog_counter s'" using s'(2) f(3) le by auto
  with Suc.IH[of s'] f Suc.prems cnt show ?case by (simp add: s'(1))
qed simp

theorem sched_wait_never_panics_witness:
  "\<exists>s'. spin TIMER_ARCH_RV64 1000 (all_blocked\<lparr>in_sched := True\<rparr>) = Some s' \<and>
     (\<forall>i<MAX_TASKS. \<not> runnable (g_tasks s' ! i))"
  using sched_wait_never_panics[of "all_blocked\<lparr>in_sched := True\<rparr>" 1000 TIMER_ARCH_RV64]
  by (simp add: all_blocked_fields)

end
