(* ===== verification/Sage_NS.thy ===== *)
theory Sage_NS
  imports Sage_Prelude
begin

text \<open>
  The service namespace of \<^verbatim>\<open>kernel/core/ipc.c\<close>: \<^verbatim>\<open>strtok\<close>, \<^verbatim>\<open>ipc_ns_find\<close> and \<^verbatim>\<open>ipc_ns_insert\<close>. The
  namespace is a tree of entries in a fixed table, linked by child and sibling pointers; a pointer
  is an index into the table. The walk along siblings is defined by \<open>partial_function (option)\<close>, so
  a cyclic chain would be \<open>None\<close>; the invariant that a sibling is always an older entry shows
  that it never is. The two functions call \<^verbatim>\<open>strtok\<close> on a private copy of the name, so they are
  stated over the list of tokens it produces.

  Shown: the tokens of a name are its non-empty parts between dots; every operation keeps the
  invariant and returns; a name that was registered is found with its capability, and the names
  found before are still found. The first registration allocates the entry that already is the root.
\<close>

section \<open>Tokens\<close>

text \<open>One call of \<^verbatim>\<open>strtok(NULL, ".")\<close> on the saved pointer: the token, and the pointer saved.\<close>
definition strtok :: "string option \<Rightarrow> string option \<times> string option" where
  "strtok ptr =
    (case ptr of
       None \<Rightarrow> (None, None)
     | Some str \<Rightarrow>
         (let start = dropWhile (\<lambda>c. c = CHR ''.'') str in
          if start = [] then (None, None)
          else
            let tok = takeWhile (\<lambda>c. c \<noteq> CHR ''.'') start;
                rest = dropWhile (\<lambda>c. c \<noteq> CHR ''.'') start
            in (Some tok, if rest = [] then None else Some (tl rest))))"

lemma strtok_shorter:
  assumes "strtok ptr = (Some tok, Some r)"
  shows "\<exists>str. ptr = Some str \<and> length r < length str"
proof (cases ptr)
  case None
  with assms show ?thesis by (simp add: strtok_def)
next
  case (Some str)
  note str = Some
  define start where "start = dropWhile (\<lambda>c. c = CHR ''.'') str"
  define rest where "rest = dropWhile (\<lambda>c. c \<noteq> CHR ''.'') start"
  have "rest \<noteq> [] \<and> r = tl rest"
    using assms by (simp add: strtok_def str Let_def start_def[symmetric] rest_def[symmetric] split: if_splits)
  then have "length r < length rest" by simp
  also have "\<dots> \<le> length start" unfolding rest_def by (rule length_dropWhile_le)
  also have "\<dots> \<le> length str" unfolding start_def by (rule length_dropWhile_le)
  finally show ?thesis using str by blast
qed

lemma strtok_decreases:
  assumes "(Some tok, p) = strtok ptr"
  shows "(case p of None \<Rightarrow> 0 | Some r \<Rightarrow> Suc (length r)) < (case ptr of None \<Rightarrow> 0 | Some str \<Rightarrow> Suc (length str))"
proof (cases p)
  case None
  with assms show ?thesis by (cases ptr) (simp_all add: strtok_def)
next
  case (Some r)
  with strtok_shorter[of ptr tok r] assms show ?thesis by auto
qed

text \<open>The tokens seen by a loop that calls \<^verbatim>\<open>strtok\<close> until it returns \<^verbatim>\<open>NULL\<close>.\<close>
function strtok_all :: "string option \<Rightarrow> string list" where
  "strtok_all ptr = (case strtok ptr of (None, _) \<Rightarrow> [] | (Some tok, ptr') \<Rightarrow> tok # strtok_all ptr')"
  by pat_completeness auto
termination
  by (relation "measure (\<lambda>p. case p of None \<Rightarrow> 0 | Some str \<Rightarrow> Suc (length str))")
    (simp_all only: in_measure wf_measure strtok_decreases)

declare strtok_all.simps [simp del]

section \<open>Entries\<close>

definition IPC_MAX_NS_ENTRIES :: nat where "IPC_MAX_NS_ENTRIES = 256"
definition IPC_NS_MAX_NAME_LEN :: nat where "IPC_NS_MAX_NAME_LEN = 64"

record ns_entry =
  ns_name :: string
  cap_handle :: u32
  owner_task_id :: u32
  child :: "nat option"
  sibling :: "nat option"

definition zero_ns_entry :: ns_entry where
  "zero_ns_entry = \<lparr>ns_name = [], cap_handle = 0, owner_task_id = 0, child = None, sibling = None\<rparr>"

record ipc_namespace =
  ns_entries :: "ns_entry list"
  ns_root :: "nat option"
  ns_count :: nat

text \<open>The tokens of a name, after its copy into a buffer of 64 characters.\<close>
definition ns_tokens :: "string \<Rightarrow> string list" where
  "ns_tokens nm = strtok_all (Some (take (IPC_NS_MAX_NAME_LEN - 1) (takeWhile (\<lambda>c. c \<noteq> CHR 0x00) nm)))"

partial_function (option) find_sibling :: "ns_entry list \<Rightarrow> nat option \<Rightarrow> string \<Rightarrow> nat option option" where
  "find_sibling es c tok =
    (case c of
       None \<Rightarrow> Some None
     | Some i \<Rightarrow> if ns_name (es ! i) = tok then Some (Some i) else find_sibling es (sibling (es ! i)) tok)"

declare find_sibling.simps [code]

definition find_child :: "ns_entry list \<Rightarrow> nat \<Rightarrow> string \<Rightarrow> nat option option" where
  "find_child es cur tok = find_sibling es (child (es ! cur)) tok"

text \<open>The loop of \<^verbatim>\<open>ipc_ns_find\<close> below the entry \<open>cur\<close>.\<close>
fun find_path :: "ns_entry list \<Rightarrow> nat \<Rightarrow> string list \<Rightarrow> nat option option" where
  "find_path es cur [] = Some (Some cur)"
| "find_path es cur (tok # toks) =
    (case find_child es cur tok of
       None \<Rightarrow> None
     | Some None \<Rightarrow> Some None
     | Some (Some c) \<Rightarrow> find_path es c toks)"

definition ipc_ns_find :: "string \<Rightarrow> ipc_namespace \<Rightarrow> nat option option" where
  "ipc_ns_find nm ns =
    (case ns_root ns of
       None \<Rightarrow> Some None
     | Some r \<Rightarrow> find_path (ns_entries ns) r (ns_tokens nm))"

text \<open>The new entry \<open>n\<close> is cleared and named before it is linked in, also when it is \<open>cur\<close> itself.\<close>
definition add_entry :: "ns_entry list \<Rightarrow> nat \<Rightarrow> nat \<Rightarrow> string \<Rightarrow> ns_entry list" where
  "add_entry es n cur tok =
    (let es1 = es[n := zero_ns_entry\<lparr>ns_name := take (IPC_NS_MAX_NAME_LEN - 1) tok\<rparr>];
         es2 = es1[n := (es1 ! n)\<lparr>sibling := child (es1 ! cur)\<rparr>]
     in es2[cur := (es2 ! cur)\<lparr>child := Some n\<rparr>])"

text \<open>The loop of \<^verbatim>\<open>ipc_ns_insert\<close>: the entry reached, or \<open>None\<close> when the table is full.\<close>
fun insert_path :: "ns_entry list \<Rightarrow> nat \<Rightarrow> nat \<Rightarrow> string list \<Rightarrow> (nat option \<times> ns_entry list \<times> nat) option" where
  "insert_path es n cur [] = Some (Some cur, es, n)"
| "insert_path es n cur (tok # toks) =
    (case find_child es cur tok of
       None \<Rightarrow> None
     | Some (Some c) \<Rightarrow> insert_path es n c toks
     | Some None \<Rightarrow>
         if n \<ge> IPC_MAX_NS_ENTRIES then Some (None, es, n)
         else insert_path (add_entry es n cur tok) (Suc n) n toks)"

definition ipc_ns_insert :: "string \<Rightarrow> u32 \<Rightarrow> u32 \<Rightarrow> ipc_namespace \<Rightarrow> (i64 \<times> ipc_namespace) option" where
  "ipc_ns_insert nm handle owner ns =
    (let ns0 = (case ns_root ns of
           None \<Rightarrow> ns\<lparr>ns_root := Some 0, ns_entries := (ns_entries ns)[0 := zero_ns_entry]\<rparr>
         | Some _ \<Rightarrow> ns)
     in case insert_path (ns_entries ns0) (ns_count ns0) (the (ns_root ns0)) (ns_tokens nm) of
          None \<Rightarrow> None
        | Some (None, es, n) \<Rightarrow> Some (-1, ns0\<lparr>ns_entries := es, ns_count := n\<rparr>)
        | Some (Some cur, es, n) \<Rightarrow>
            Some (0, ns0\<lparr>ns_entries := es[cur := (es ! cur)\<lparr>cap_handle := handle, owner_task_id := owner\<rparr>],
                       ns_count := n\<rparr>))"

section \<open>What the tokens are\<close>

fun split_dots :: "string \<Rightarrow> string list" where
  "split_dots [] = [[]]"
| "split_dots (c # cs) =
    (if c = CHR ''.'' then [] # split_dots cs
     else case split_dots cs of p # ps \<Rightarrow> (c # p) # ps | [] \<Rightarrow> [[c]])"

lemma split_dots_unfold:
  "split_dots s = takeWhile (\<lambda>c. c \<noteq> CHR ''.'') s #
    (case dropWhile (\<lambda>c. c \<noteq> CHR ''.'') s of [] \<Rightarrow> [] | _ # r \<Rightarrow> split_dots r)"
  by (induction s) auto

lemma strtok_all_split:
  "strtok_all (Some str) = filter (\<lambda>p. p \<noteq> []) (split_dots str)"
proof (induction "length str" arbitrary: str rule: less_induct)
  case less
  show ?case
  proof (cases str)
    case Nil
    then show ?thesis by (simp add: strtok_all.simps strtok_def)
  next
    case (Cons c cs)
    show ?thesis
    proof (cases "c = CHR ''.''")
      case True
      then have "strtok (Some str) = strtok (Some cs)" by (simp add: Cons strtok_def)
      then have "strtok_all (Some str) = strtok_all (Some cs)" by (simp add: strtok_all.simps)
      then show ?thesis using less[of cs] True by (simp add: Cons)
    next
      case False
      let ?tok = "c # takeWhile (\<lambda>c. c \<noteq> CHR ''.'') cs"
      let ?rest = "dropWhile (\<lambda>c. c \<noteq> CHR ''.'') cs"
      have step: "strtok (Some str) = (Some ?tok, if ?rest = [] then None else Some (tl ?rest))"
        using False by (simp add: Cons strtok_def)
      have none: "strtok_all None = []" by (simp add: strtok_all.simps strtok_def)
      have len: "length (tl ?rest) < length str" if "?rest \<noteq> []"
        using length_dropWhile_le[of "\<lambda>c. c \<noteq> CHR ''.''" cs] by (simp add: Cons)
      have "split_dots str = ?tok # (case ?rest of [] \<Rightarrow> [] | _ # r \<Rightarrow> split_dots r)"
        using False by (subst split_dots_unfold) (simp add: Cons)
      with step none less[OF len] show ?thesis
        by (cases ?rest) (simp_all add: strtok_all.simps[of "Some str"])
    qed
  qed
qed

lemma split_dots_length: "p \<in> set (split_dots str) \<Longrightarrow> length p \<le> length str"
  by (induction str arbitrary: p) (auto split: if_splits list.splits intro: le_SucI)

lemma ns_tokens_length: "tok \<in> set (ns_tokens nm) \<Longrightarrow> length tok \<le> IPC_NS_MAX_NAME_LEN - 1"
proof -
  assume "tok \<in> set (ns_tokens nm)"
  then have "tok \<in> set (split_dots (take (IPC_NS_MAX_NAME_LEN - 1) (takeWhile (\<lambda>c. c \<noteq> CHR 0x00) nm)))"
    by (simp add: ns_tokens_def strtok_all_split)
  then show ?thesis using split_dots_length by fastforce
qed

section \<open>The invariant of the tree\<close>

text \<open>Among the first \<open>n\<close> entries, a sibling is older than the entry and children are in use.\<close>
definition links_ok :: "ns_entry list \<Rightarrow> nat \<Rightarrow> bool" where
  "links_ok es n \<longleftrightarrow> n \<le> length es \<and>
    (\<forall>i<n. (\<forall>j. sibling (es ! i) = Some j \<longrightarrow> j < i) \<and> (\<forall>j. child (es ! i) = Some j \<longrightarrow> j < n))"

lemma find_sibling_Some [simp]:
  "find_sibling es (Some i) tok =
    (if ns_name (es ! i) = tok then Some (Some i) else find_sibling es (sibling (es ! i)) tok)"
  by (subst find_sibling.simps) simp

lemma find_sibling_None [simp]: "find_sibling es None tok = Some None"
  by (subst find_sibling.simps) simp

lemma find_sibling_returns:
  assumes "links_ok es n" "i < n"
  shows "\<exists>r. find_sibling es (Some i) tok = Some r \<and> (\<forall>c. r = Some c \<longrightarrow> c < n)"
  using assms(2)
proof (induction i rule: less_induct)
  case (less i)
  show ?case
  proof (cases "ns_name (es ! i) = tok")
    case False
    show ?thesis
    proof (cases "sibling (es ! i)")
      case (Some j)
      then have "j < i" using assms(1) less.prems by (simp add: links_ok_def)
      with less.IH[OF this] less.prems Some False show ?thesis by auto
    qed (use False in simp)
  qed (use less.prems in simp)
qed

lemma find_child_returns:
  assumes "links_ok es n" "cur < n"
  shows "\<exists>r. find_child es cur tok = Some r \<and> (\<forall>c. r = Some c \<longrightarrow> c < n)"
proof (cases "child (es ! cur)")
  case (Some j)
  then have "j < n" using assms by (simp add: links_ok_def)
  then show ?thesis using find_sibling_returns[OF assms(1)] Some by (simp add: find_child_def)
qed (simp add: find_child_def)

lemma find_sibling_cong:
  assumes "links_ok es n" "i < n"
    "\<And>j. j < n \<Longrightarrow> ns_name (es' ! j) = ns_name (es ! j) \<and> sibling (es' ! j) = sibling (es ! j)"
  shows "find_sibling es' (Some i) tok = find_sibling es (Some i) tok"
  using assms(2)
proof (induction i rule: less_induct)
  case (less i)
  show ?case
  proof (cases "sibling (es ! i)")
    case (Some j)
    then have "j < i" using assms(1) less.prems by (simp add: links_ok_def)
    with less.IH[OF this] less.prems Some assms(3)[of i] show ?thesis by simp
  qed (use assms(3)[OF less.prems] in simp)
qed

text \<open>Every name found below an entry of \<open>es\<close> is found at the same place in \<open>es'\<close>.\<close>
definition extends :: "ns_entry list \<Rightarrow> nat \<Rightarrow> ns_entry list \<Rightarrow> bool" where
  "extends es n es' \<longleftrightarrow> length es' = length es \<and>
    (\<forall>k<n. \<forall>t c. find_child es k t = Some (Some c) \<longrightarrow> find_child es' k t = Some (Some c)) \<and>
    (\<forall>k<n. cap_handle (es' ! k) = cap_handle (es ! k) \<and> owner_task_id (es' ! k) = owner_task_id (es ! k))"

lemma extends_refl: "extends es n es"
  by (simp add: extends_def)

lemma extends_trans: "\<lbrakk>extends es n es'; extends es' m es''; n \<le> m\<rbrakk> \<Longrightarrow> extends es n es''"
  by (simp add: extends_def)

lemma find_path_extends:
  assumes "extends es n es'" "links_ok es n" "cur < n" "find_path es cur toks = Some (Some e)"
  shows "find_path es' cur toks = Some (Some e)" "e < n"
proof -
  have "find_path es' cur toks = Some (Some e) \<and> e < n"
    using assms(3,4)
  proof (induction toks arbitrary: cur)
    case (Cons t toks)
    obtain c where c: "find_child es cur t = Some (Some c)" "find_path es c toks = Some (Some e)"
      using Cons.prems(2) by (auto split: option.splits)
    have "c < n" using find_child_returns[OF assms(2) Cons.prems(1), of t] c(1) by simp
    moreover have "find_child es' cur t = Some (Some c)" using assms(1) Cons.prems(1) c(1) by (simp add: extends_def)
    ultimately show ?case using Cons.IH[OF _ c(2)] by simp
  qed simp
  then show "find_path es' cur toks = Some (Some e)" "e < n" by auto
qed

lemma add_entry_ok:
  assumes ok: "links_ok es n" and cur: "cur < n" and n: "n < length es" and tok: "length tok \<le> IPC_NS_MAX_NAME_LEN - 1"
    and new: "find_child es cur tok = Some None"
  shows "links_ok (add_entry es n cur tok) (Suc n)" "extends es n (add_entry es n cur tok)"
    "find_child (add_entry es n cur tok) cur tok = Some (Some n)"
proof -
  let ?es = "add_entry es n cur tok"
  have len: "length ?es = length es" by (simp add: add_entry_def Let_def)
  have at_n: "?es ! n = zero_ns_entry\<lparr>ns_name := tok, sibling := child (es ! cur)\<rparr>"
    using cur n tok by (simp add: add_entry_def Let_def zero_ns_entry_def)
  have old: "?es ! i = (if i = cur then (es ! cur)\<lparr>child := Some n\<rparr> else es ! i)" if "i \<noteq> n" for i
    using that cur n by (simp add: add_entry_def Let_def nth_list_update)
  have same: "ns_name (?es ! j) = ns_name (es ! j) \<and> sibling (?es ! j) = sibling (es ! j)" if "j < n" for j
    using old[of j] that by simp
  have cc: "find_sibling ?es (child (es ! k)) t = find_child es k t" if "k < n" for k t
  proof (cases "child (es ! k)")
    case (Some j)
    then have "j < n" using ok that by (simp add: links_ok_def)
    then show ?thesis using find_sibling_cong[OF ok _ same] Some by (simp add: find_child_def)
  qed (simp add: find_child_def)
  have fc: "find_child ?es k t = (if k = cur \<and> t = tok then Some (Some n) else find_child es k t)" if "k < n" for k t
    using that cc[of k t] old[of k] by (auto simp: find_child_def[of ?es] at_n zero_ns_entry_def)
  then show "find_child ?es cur tok = Some (Some n)" using cur by simp
  show "extends es n ?es" using fc new old len by (auto simp: extends_def)
  show "links_ok ?es (Suc n)"
    unfolding links_ok_def
  proof (intro conjI allI impI)
    fix i j assume i: "i < Suc n"
    show "sibling (?es ! i) = Some j \<Longrightarrow> j < i"
      using i ok cur old[of i] by (cases "i = n"; cases "i = cur") (auto simp: at_n links_ok_def zero_ns_entry_def)
    show "child (?es ! i) = Some j \<Longrightarrow> j < Suc n"
      using i ok cur old[of i] by (cases "i = n"; cases "i = cur") (auto simp: at_n links_ok_def zero_ns_entry_def less_Suc_eq)
  qed (use n len in simp)
qed

lemma insert_path_ok:
  assumes "links_ok es n" "cur < n" "length es = IPC_MAX_NS_ENTRIES"
    "\<forall>tok\<in>set toks. length tok \<le> IPC_NS_MAX_NAME_LEN - 1"
  shows "\<exists>r es' n'. insert_path es n cur toks = Some (r, es', n') \<and> links_ok es' n' \<and> n \<le> n' \<and>
    extends es n es' \<and> (\<forall>e. r = Some e \<longrightarrow> e < n' \<and> find_path es' cur toks = Some (Some e))"
  using assms
proof (induction toks arbitrary: es n cur)
  case Nil
  then show ?case by (auto simp: extends_refl)
next
  case (Cons t toks)
  have short: "\<forall>tok\<in>set toks. length tok \<le> IPC_NS_MAX_NAME_LEN - 1" using Cons.prems(4) by simp
  obtain r where r: "find_child es cur t = Some r" "\<forall>c. r = Some c \<longrightarrow> c < n"
    using find_child_returns[OF Cons.prems(1,2)] by blast
  show ?case
  proof (cases r)
    case (Some c)
    have "c < n" using r(2) Some by simp
    then obtain r' es' n' where ih: "insert_path es n c toks = Some (r', es', n')" "links_ok es' n'" "n \<le> n'"
        "extends es n es'" "\<forall>e. r' = Some e \<longrightarrow> e < n' \<and> find_path es' c toks = Some (Some e)"
      using Cons.IH[OF Cons.prems(1) _ Cons.prems(3) short] by blast
    have "find_child es' cur t = Some (Some c)"
      using ih(4) r(1) Some Cons.prems(2) by (simp add: extends_def)
    with ih r(1) Some show ?thesis by auto
  next
    case None
    show ?thesis
    proof (cases "n \<ge> IPC_MAX_NS_ENTRIES")
      case True
      then show ?thesis using r(1) None Cons.prems(1) by (auto simp: extends_refl)
    next
      case False
      let ?es = "add_entry es n cur t"
      note a = add_entry_ok[OF Cons.prems(1,2), of t]
      have a': "links_ok ?es (Suc n)" "extends es n ?es" "find_child ?es cur t = Some (Some n)"
        using a False Cons.prems r(1) None by auto
      have len: "length ?es = IPC_MAX_NS_ENTRIES" using a'(2) Cons.prems(3) by (simp add: extends_def)
      obtain r' es' n' where ih: "insert_path ?es (Suc n) n toks = Some (r', es', n')" "links_ok es' n'"
          "Suc n \<le> n'" "extends ?es (Suc n) es'"
          "\<forall>e. r' = Some e \<longrightarrow> e < n' \<and> find_path es' n toks = Some (Some e)"
        using Cons.IH[OF a'(1) lessI len short] by blast
      have "find_child es' cur t = Some (Some n)"
        using ih(4) a'(3) Cons.prems(2) by (simp add: extends_def)
      moreover have "extends es n es'" using extends_trans[OF a'(2) ih(4)] by simp
      ultimately show ?thesis using ih r(1) None False by auto
    qed
  qed
qed

lemma find_path_returns:
  assumes "links_ok es n" "cur < n"
  shows "\<exists>r. find_path es cur toks = Some r"
  using assms(2)
proof (induction toks arbitrary: cur)
  case (Cons t toks)
  obtain r where r: "find_child es cur t = Some r" "\<forall>c. r = Some c \<longrightarrow> c < n"
    using find_child_returns[OF assms(1) Cons.prems] by blast
  show ?case
  proof (cases r)
    case (Some c)
    then show ?thesis using r Cons.IH[of c] by simp
  qed (simp add: r(1))
qed simp

text \<open>Setting the capability of an entry changes no link.\<close>
lemma set_cap_links:
  assumes "links_ok es n"
  shows "links_ok (es[e := (es ! e)\<lparr>cap_handle := h, owner_task_id := own\<rparr>]) n"
    "cur < n \<Longrightarrow> find_path (es[e := (es ! e)\<lparr>cap_handle := h, owner_task_id := own\<rparr>]) cur toks = find_path es cur toks"
proof -
  let ?es = "es[e := (es ! e)\<lparr>cap_handle := h, owner_task_id := own\<rparr>]"
  have upd: "?es ! j = es ! j \<or> ?es ! j = (es ! j)\<lparr>cap_handle := h, owner_task_id := own\<rparr>" for j
    by (metis list_update_beyond not_le nth_list_update_eq nth_list_update_neq)
  have same: "ns_name (?es ! j) = ns_name (es ! j) \<and> sibling (?es ! j) = sibling (es ! j)"
    "child (?es ! j) = child (es ! j)" for j
    using upd[of j] by (elim disjE; simp)+
  show "links_ok ?es n" using assms by (simp add: links_ok_def same)
  have fc: "find_child ?es k t = find_child es k t" if "k < n" for k t
  proof (cases "child (es ! k)")
    case (Some j)
    then have "j < n" using assms that by (simp add: links_ok_def)
    then show ?thesis using find_sibling_cong[OF assms _ same(1)] Some same(2) by (simp add: find_child_def)
  qed (simp add: find_child_def same(2))
  show "find_path ?es cur toks = find_path es cur toks" if "cur < n"
    using that
  proof (induction toks arbitrary: cur)
    case (Cons t toks)
    obtain r where r: "find_child es cur t = Some r" "\<forall>c. r = Some c \<longrightarrow> c < n"
      using find_child_returns[OF assms Cons.prems] by blast
    show ?case
    proof (cases r)
      case (Some c)
      then show ?thesis using r Cons.IH[of c] by (simp add: fc[OF Cons.prems])
    qed (simp add: r(1) fc[OF Cons.prems])
  qed simp
qed

definition ns_ok :: "ipc_namespace \<Rightarrow> bool" where
  "ns_ok ns \<longleftrightarrow> length (ns_entries ns) = IPC_MAX_NS_ENTRIES \<and>
    (case ns_root ns of
       None \<Rightarrow> ns_count ns = 0
     | Some r \<Rightarrow> r = 0 \<and> (if ns_count ns = 0 then child (ns_entries ns ! 0) = None
                        else links_ok (ns_entries ns) (ns_count ns)))"

text \<open>The first entry allocated is the root: it is renamed and becomes its own child.\<close>
lemma first_entry:
  assumes "length es = IPC_MAX_NS_ENTRIES" "length t \<le> IPC_NS_MAX_NAME_LEN - 1"
  shows "links_ok (add_entry es 0 0 t) 1" "find_child (add_entry es 0 0 t) 0 t = Some (Some 0)"
    "length (add_entry es 0 0 t) = IPC_MAX_NS_ENTRIES" "cap_handle (add_entry es 0 0 t ! 0) = 0"
    "owner_task_id (add_entry es 0 0 t ! 0) = 0"
proof -
  have "0 < length es" using assms(1) by (simp add: IPC_MAX_NS_ENTRIES_def)
  then have e: "add_entry es 0 0 t ! 0 = zero_ns_entry\<lparr>ns_name := t, child := Some 0\<rparr>"
    using assms(2) by (simp add: add_entry_def Let_def zero_ns_entry_def)
  show "length (add_entry es 0 0 t) = IPC_MAX_NS_ENTRIES"
    using assms(1) by (simp add: add_entry_def Let_def)
  then show "links_ok (add_entry es 0 0 t) 1" "find_child (add_entry es 0 0 t) 0 t = Some (Some 0)"
    "cap_handle (add_entry es 0 0 t ! 0) = 0" "owner_task_id (add_entry es 0 0 t ! 0) = 0"
    by (simp_all add: links_ok_def find_child_def e zero_ns_entry_def IPC_MAX_NS_ENTRIES_def)
qed

lemma first_insert:
  assumes "length es = IPC_MAX_NS_ENTRIES" "child (es ! 0) = None"
    "\<forall>tok\<in>set (t # toks). length tok \<le> IPC_NS_MAX_NAME_LEN - 1"
  shows "\<exists>r es' n'. insert_path es 0 0 (t # toks) = Some (r, es', n') \<and> links_ok es' n' \<and> 0 < n' \<and>
    extends (add_entry es 0 0 t) 1 es' \<and> find_child es' 0 t = Some (Some 0) \<and>
    (\<forall>e. r = Some e \<longrightarrow> e < n' \<and> find_path es' 0 toks = Some (Some e))"
proof -
  note f = first_entry[OF assms(1), of t]
  have t: "length t \<le> IPC_NS_MAX_NAME_LEN - 1" "\<forall>tok\<in>set toks. length tok \<le> IPC_NS_MAX_NAME_LEN - 1"
    using assms(3) by auto
  obtain r es' n' where ih: "insert_path (add_entry es 0 0 t) 1 0 toks = Some (r, es', n')" "links_ok es' n'"
      "1 \<le> n'" "extends (add_entry es 0 0 t) 1 es'"
      "\<forall>e. r = Some e \<longrightarrow> e < n' \<and> find_path es' 0 toks = Some (Some e)"
    using insert_path_ok[OF f(1)[OF t(1)] zero_less_one f(3)[OF t(1)] t(2)] by blast
  have "insert_path es 0 0 (t # toks) = insert_path (add_entry es 0 0 t) 1 0 toks"
    using assms(2) by (simp add: find_child_def IPC_MAX_NS_ENTRIES_def)
  moreover have "find_child es' 0 t = Some (Some 0)" using ih(4) f(2)[OF t(1)] by (simp add: extends_def)
  ultimately show ?thesis using ih by auto
qed

text \<open>The table an insertion works on: with a root, cleared if there was none.\<close>
definition with_root :: "ipc_namespace \<Rightarrow> ipc_namespace" where
  "with_root ns = (case ns_root ns of
     None \<Rightarrow> ns\<lparr>ns_root := Some 0, ns_entries := (ns_entries ns)[0 := zero_ns_entry]\<rparr>
   | Some _ \<Rightarrow> ns)"

lemma with_root_ok:
  assumes "ns_ok ns"
  shows "ns_root (with_root ns) = Some 0" "ns_count (with_root ns) = ns_count ns"
    "length (ns_entries (with_root ns)) = IPC_MAX_NS_ENTRIES"
    "ns_count ns = 0 \<Longrightarrow> child (ns_entries (with_root ns) ! 0) = None"
    "0 < ns_count ns \<Longrightarrow> with_root ns = ns \<and> links_ok (ns_entries ns) (ns_count ns)"
  using assms
  by (auto simp: with_root_def ns_ok_def zero_ns_entry_def IPC_MAX_NS_ENTRIES_def split: option.splits if_splits)

lemma ns_insert_alt:
  assumes "ns_ok ns"
  shows "ipc_ns_insert nm h own ns =
    (case insert_path (ns_entries (with_root ns)) (ns_count ns) 0 (ns_tokens nm) of
       None \<Rightarrow> None
     | Some (None, es, n) \<Rightarrow> Some (-1, (with_root ns)\<lparr>ns_entries := es, ns_count := n\<rparr>)
     | Some (Some cur, es, n) \<Rightarrow>
         Some (0, (with_root ns)\<lparr>ns_entries := es[cur := (es ! cur)\<lparr>cap_handle := h, owner_task_id := own\<rparr>],
                    ns_count := n\<rparr>))"
  using with_root_ok(1,2)[OF assms] unfolding ipc_ns_insert_def with_root_def[symmetric] by (simp add: Let_def)

lemma insert_tokens:
  assumes "ns_ok ns"
  shows "\<exists>r es n. insert_path (ns_entries (with_root ns)) (ns_count ns) 0 (ns_tokens nm) = Some (r, es, n) \<and>
    length es = IPC_MAX_NS_ENTRIES \<and> ns_count ns \<le> n \<and>
    (if n = 0 then r = Some 0 \<and> child (es ! 0) = None \<and> ns_tokens nm = []
     else links_ok es n \<and> (\<forall>e. r = Some e \<longrightarrow> e < n \<and> find_path es 0 (ns_tokens nm) = Some (Some e))) \<and>
    (0 < ns_count ns \<longrightarrow> extends (ns_entries ns) (ns_count ns) es)"
proof (cases "ns_count ns = 0")
  case False
  note w = with_root_ok[OF assms]
  have ok: "with_root ns = ns" "links_ok (ns_entries ns) (ns_count ns)" using w(5) False by auto
  then obtain r es n where i: "insert_path (ns_entries ns) (ns_count ns) 0 (ns_tokens nm) = Some (r, es, n)"
      "links_ok es n" "ns_count ns \<le> n" "extends (ns_entries ns) (ns_count ns) es"
      "\<forall>e. r = Some e \<longrightarrow> e < n \<and> find_path es 0 (ns_tokens nm) = Some (Some e)"
    using insert_path_ok[OF ok(2), of 0 "ns_tokens nm"] False w(3) ns_tokens_length by auto
  have "length es = IPC_MAX_NS_ENTRIES" using i(4) w(3) ok(1) by (simp add: extends_def)
  with i ok(1) False show ?thesis by auto
next
  case True
  note w = with_root_ok[OF assms]
  show ?thesis
  proof (cases "ns_tokens nm")
    case Nil
    then show ?thesis using True w by simp
  next
    case (Cons t toks)
    have short: "\<forall>tok\<in>set (t # toks). length tok \<le> IPC_NS_MAX_NAME_LEN - 1"
      using ns_tokens_length Cons by metis
    obtain r es n where i: "insert_path (ns_entries (with_root ns)) 0 0 (t # toks) = Some (r, es, n)"
        "links_ok es n" "0 < n" "extends (add_entry (ns_entries (with_root ns)) 0 0 t) 1 es"
        "find_child es 0 t = Some (Some 0)"
        "\<forall>e. r = Some e \<longrightarrow> e < n \<and> find_path es 0 toks = Some (Some e)"
      using first_insert[OF w(3) w(4)[OF True] short] by blast
    have "length es = IPC_MAX_NS_ENTRIES"
      using i(4) first_entry(3)[OF w(3), of t] short by (simp add: extends_def)
    with i Cons True show ?thesis by auto
  qed
qed

lemma ns_find_returns:
  assumes "ns_ok ns"
  shows "\<exists>r. ipc_ns_find nm ns = Some r"
proof (cases "ns_count ns = 0")
  case True
  have "\<exists>r. find_path es 0 toks = Some r" if "child (es ! 0) = None" for es toks
    using that by (cases toks) (simp_all add: find_child_def)
  then show ?thesis using assms True by (auto simp: ns_ok_def ipc_ns_find_def split: option.splits)
next
  case False
  then show ?thesis
    using assms find_path_returns[of "ns_entries ns" "ns_count ns" 0 "ns_tokens nm"]
    by (auto simp: ns_ok_def ipc_ns_find_def split: option.splits)
qed

text \<open>An insertion in terms of the table it leaves.\<close>
lemma ns_insert_cases:
  assumes "ns_ok ns"
  obtains r es n ns' where "ipc_ns_insert nm h own ns = Some (if r = None then -1 else 0, ns')" "ns_ok ns'"
    "ns_root ns' = Some 0" "ns_count ns' = n" "n \<ge> ns_count ns"
    "ns_entries ns' = (case r of None \<Rightarrow> es | Some e \<Rightarrow> es[e := (es ! e)\<lparr>cap_handle := h, owner_task_id := own\<rparr>])"
    "length es = IPC_MAX_NS_ENTRIES"
    "insert_path (ns_entries (with_root ns)) (ns_count ns) 0 (ns_tokens nm) = Some (r, es, n)"
    "\<And>e. r = Some e \<Longrightarrow> e < IPC_MAX_NS_ENTRIES \<and> ipc_ns_find nm ns' = Some (Some e)"
    "0 < n \<Longrightarrow> links_ok es n \<and> (\<forall>toks. find_path (ns_entries ns') 0 toks = find_path es 0 toks)"
    "0 < ns_count ns \<longrightarrow> extends (ns_entries ns) (ns_count ns) es"
proof -
  note w = with_root_ok[OF assms]
  obtain r es n where i: "insert_path (ns_entries (with_root ns)) (ns_count ns) 0 (ns_tokens nm) = Some (r, es, n)"
    "length es = IPC_MAX_NS_ENTRIES" "ns_count ns \<le> n"
    "if n = 0 then r = Some 0 \<and> child (es ! 0) = None \<and> ns_tokens nm = []
     else links_ok es n \<and> (\<forall>e. r = Some e \<longrightarrow> e < n \<and> find_path es 0 (ns_tokens nm) = Some (Some e))"
    "0 < ns_count ns \<longrightarrow> extends (ns_entries ns) (ns_count ns) es"
    using insert_tokens[OF assms, of nm] by (elim exE conjE) (rule that)
  define es' where "es' = (case r of None \<Rightarrow> es | Some e \<Rightarrow> es[e := (es ! e)\<lparr>cap_handle := h, owner_task_id := own\<rparr>])"
  define ns' where "ns' = (with_root ns)\<lparr>ns_entries := es', ns_count := n\<rparr>"
  have ins: "ipc_ns_insert nm h own ns = Some (if r = None then -1 else 0, ns')"
    by (cases r) (simp_all add: ns_insert_alt[OF assms] i(1) ns'_def es'_def)
  have len: "length es' = IPC_MAX_NS_ENTRIES" using i(2) by (simp add: es'_def split: option.splits)
  have links: "links_ok es' n" "find_path es' 0 toks = find_path es 0 toks" if "0 < n" for toks
    using set_cap_links[of es n] i(4) that by (auto simp: es'_def split: option.splits)
  have zero: "child (es' ! 0) = None \<and> ns_tokens nm = [] \<and> r = Some 0" if "n = 0"
    using i(2,4) that by (simp add: es'_def IPC_MAX_NS_ENTRIES_def)
  have ok: "ns_ok ns'" using len links(1) zero w(1) by (simp add: ns_ok_def ns'_def)
  have root: "ns_root ns' = Some 0" "ns_entries ns' = es'" "ns_count ns' = n" using w(1) by (simp_all add: ns'_def)
  have fnd: "e < IPC_MAX_NS_ENTRIES \<and> ipc_ns_find nm ns' = Some (Some e)" if "r = Some e" for e
  proof (cases "n = 0")
    case True
    then show ?thesis using that zero by (simp add: ipc_ns_find_def root IPC_MAX_NS_ENTRIES_def)
  next
    case False
    moreover have "n \<le> IPC_MAX_NS_ENTRIES" using i(2,4) False by (simp add: links_ok_def)
    ultimately show ?thesis using i(4) that links(2) by (auto simp: ipc_ns_find_def root)
  qed
  show thesis
    by (rule that[OF ins ok root(1,3) i(3) root(2)[unfolded es'_def] i(2,1) fnd _ i(5)])
      (use i(4) links(2) root(2) in auto)
qed

section \<open>Properties\<close>

text \<open>The static namespace before the first registration.\<close>
definition initial_namespace :: ipc_namespace where
  "initial_namespace = \<lparr>ns_entries = replicate IPC_MAX_NS_ENTRIES zero_ns_entry, ns_root = None, ns_count = 0\<rparr>"

lemma initial_namespace_ok: "ns_ok initial_namespace"
  by (simp add: ns_ok_def initial_namespace_def)

text \<open>
  The parts of a name: calling \<^verbatim>\<open>strtok\<close> with the delimiter \<^verbatim>\<open>"."\<close> until it returns \<^verbatim>\<open>NULL\<close>
  yields exactly the non-empty parts between the dots, in order.
\<close>
theorem strtok_splits_at_dots:
  "strtok_all (Some str) = filter (\<lambda>p. p \<noteq> []) (split_dots str)"
  by (rule strtok_all_split)

text \<open>
  C27. Registration terminates and round-trips. From a well-formed namespace \<^verbatim>\<open>ipc_ns_insert\<close> returns 0
  or -1 and leaves a well-formed namespace in which every lookup terminates; when it returns 0 the
  name is found, at an entry holding the handle and the owner that were registered.
\<close>
theorem ns_insert_then_find:
  assumes "ns_ok ns"
  shows "\<exists>ret ns'. ipc_ns_insert nm h own ns = Some (ret, ns') \<and> (ret = 0 \<or> ret = -1) \<and> ns_ok ns' \<and>
    (\<forall>nm'. \<exists>r. ipc_ns_find nm' ns' = Some r) \<and>
    (ret = 0 \<longrightarrow> (\<exists>e. ipc_ns_find nm ns' = Some (Some e) \<and>
       cap_handle (ns_entries ns' ! e) = h \<and> owner_task_id (ns_entries ns' ! e) = own))"
proof -
  obtain r es n ns' where i: "ipc_ns_insert nm h own ns = Some (if r = None then -1 else 0, ns')" "ns_ok ns'"
    "ns_entries ns' = (case r of None \<Rightarrow> es | Some e \<Rightarrow> es[e := (es ! e)\<lparr>cap_handle := h, owner_task_id := own\<rparr>])"
    "length es = IPC_MAX_NS_ENTRIES"
    "\<And>e. r = Some e \<Longrightarrow> e < IPC_MAX_NS_ENTRIES \<and> ipc_ns_find nm ns' = Some (Some e)"
    by (rule ns_insert_cases[OF assms, of nm h own]) (rule that; assumption)
  show ?thesis
  proof (cases r)
    case None
    then show ?thesis using i(1,2) ns_find_returns[OF i(2)] by auto
  next
    case (Some e)
    then show ?thesis using i ns_find_returns[OF i(2)] by auto
  qed
qed

theorem ns_insert_then_find_witness:
  "\<exists>ret ns'. ipc_ns_insert ''sage.fs'' 7 2 initial_namespace = Some (ret, ns') \<and> ns_ok ns'"
  using ns_insert_then_find[OF initial_namespace_ok, of "''sage.fs''" 7 2] by blast

text \<open>
  C28. Frame: once the namespace has an entry, a registration moves no name. A name found before is
  found at the same entry afterwards, and the capability there is unchanged unless it is the entry
  just registered.
\<close>
theorem ns_insert_keeps_others:
  assumes "ns_ok ns" "0 < ns_count ns" "ipc_ns_find nm' ns = Some (Some e)"
    "ipc_ns_insert nm h own ns = Some (ret, ns')"
  shows "ipc_ns_find nm' ns' = Some (Some e) \<and>
    (cap_handle (ns_entries ns' ! e) = cap_handle (ns_entries ns ! e) \<and>
     owner_task_id (ns_entries ns' ! e) = owner_task_id (ns_entries ns ! e) \<or>
     ret = 0 \<and> ipc_ns_find nm ns' = Some (Some e))"
proof -
  obtain r es n nsx where x: "ipc_ns_insert nm h own ns = Some (if r = None then -1 else 0, nsx)"
    "ns_root nsx = Some 0" "n \<ge> ns_count ns"
    "ns_entries nsx = (case r of None \<Rightarrow> es | Some e \<Rightarrow> es[e := (es ! e)\<lparr>cap_handle := h, owner_task_id := own\<rparr>])"
    "\<And>e. r = Some e \<Longrightarrow> e < IPC_MAX_NS_ENTRIES \<and> ipc_ns_find nm nsx = Some (Some e)"
    "0 < n \<Longrightarrow> links_ok es n \<and> (\<forall>toks. find_path (ns_entries nsx) 0 toks = find_path es 0 toks)"
    "0 < ns_count ns \<longrightarrow> extends (ns_entries ns) (ns_count ns) es"
    by (rule ns_insert_cases[OF assms(1), of nm h own]) (rule that; assumption)
  have "ns' = nsx" "ret = (if r = None then -1 else 0)" using x(1) assms(4) by simp_all
  note i = this(2) x(2-6)[folded this(1)] x(7)[rule_format, OF assms(2)]
  have root: "ns_root ns = Some 0" "links_ok (ns_entries ns) (ns_count ns)"
    using assms(1,2) by (auto simp: ns_ok_def split: option.splits)
  have p: "find_path (ns_entries ns) 0 (ns_tokens nm') = Some (Some e)"
    using assms(3) root(1) by (simp add: ipc_ns_find_def)
  note f = find_path_extends[OF i(7) root(2) assms(2) p]
  have "ipc_ns_find nm' ns' = Some (Some e)" using f(1) i(2,3,6) assms(2) by (simp add: ipc_ns_find_def)
  moreover have "ns_entries ns' ! e = es ! e \<or> r = Some e"
    using i(4) by (cases r) (auto simp: nth_list_update_neq)
  moreover have "cap_handle (es ! e) = cap_handle (ns_entries ns ! e) \<and> owner_task_id (es ! e) = owner_task_id (ns_entries ns ! e)"
    using i(7) f(2) by (simp add: extends_def)
  ultimately show ?thesis using i(1,5) by auto
qed

definition one_name :: ipc_namespace where
  "one_name = snd (the (ipc_ns_insert ''dev.tty'' 5 1 initial_namespace))"

theorem ns_insert_keeps_others_witness:
  "0 < ns_count one_name \<and> ipc_ns_find ''dev.tty'' one_name = Some (Some 1) \<and>
   (\<exists>ret ns'. ipc_ns_insert ''sage.fs'' 6 2 one_name = Some (ret, ns') \<and> ipc_ns_find ''dev.tty'' ns' = Some (Some 1))"
proof -
  obtain ret ns1 where ins: "ipc_ns_insert ''dev.tty'' 5 1 initial_namespace = Some (ret, ns1)" "ns_ok ns1"
    by (rule ns_insert_cases[OF initial_namespace_ok, of "''dev.tty''" 5 1]) (rule that; assumption)
  then have ok: "ns_ok one_name" by (simp add: one_name_def)
  have f: "0 < ns_count one_name" "ipc_ns_find ''dev.tty'' one_name = Some (Some 1)" by code_simp+
  obtain ret' ns2 where ins2: "ipc_ns_insert ''sage.fs'' 6 2 one_name = Some (ret', ns2)"
    by (rule ns_insert_cases[OF ok, of "''sage.fs''" 6 2]) (rule that; assumption)
  from ns_insert_keeps_others[OF ok f ins2] f ins2 show ?thesis by blast
qed

text \<open>
  The first name registered is ambiguous. The root of the tree is entry 0 of the table, and the
  first entry allocated is entry 0 as well, so the root becomes its own child: after a first
  registration of \<open>t.toks\<close>, the names \<open>toks\<close> and \<open>t.t.toks\<close> are found at the entry of \<open>t.toks\<close>.
\<close>
theorem ns_first_name_aliases:
  assumes "ns_ok ns" "ns_count ns = 0" "ns_tokens nm = t # toks"
    "ipc_ns_insert nm h own ns = Some (0, ns')"
    "ns_tokens nm' = toks \<or> ns_tokens nm' = t # t # toks"
  shows "\<exists>e. ipc_ns_find nm ns' = Some (Some e) \<and> ipc_ns_find nm' ns' = Some (Some e) \<and>
    cap_handle (ns_entries ns' ! e) = h"
proof -
  obtain r es n nsx where x: "ipc_ns_insert nm h own ns = Some (if r = None then -1 else 0, nsx)"
    "ns_root nsx = Some 0"
    "ns_entries nsx = (case r of None \<Rightarrow> es | Some e \<Rightarrow> es[e := (es ! e)\<lparr>cap_handle := h, owner_task_id := own\<rparr>])"
    "length es = IPC_MAX_NS_ENTRIES"
    "insert_path (ns_entries (with_root ns)) (ns_count ns) 0 (ns_tokens nm) = Some (r, es, n)"
    "\<And>e. r = Some e \<Longrightarrow> e < IPC_MAX_NS_ENTRIES \<and> ipc_ns_find nm nsx = Some (Some e)"
    "0 < n \<Longrightarrow> links_ok es n \<and> (\<forall>toks. find_path (ns_entries nsx) 0 toks = find_path es 0 toks)"
    by (rule ns_insert_cases[OF assms(1), of nm h own]) (rule that; assumption)
  have "ns' = nsx" "r \<noteq> None" using x(1) assms(4) by (auto split: if_splits)
  then obtain e where e: "r = Some e" by auto
  note y = x(2-7)[folded \<open>ns' = nsx\<close>]
  note w = with_root_ok[OF assms(1)]
  have short: "\<forall>tok\<in>set (t # toks). length tok \<le> IPC_NS_MAX_NAME_LEN - 1"
    using ns_tokens_length assms(3) by metis
  have f: "0 < n" "find_child es 0 t = Some (Some 0)" "find_path es 0 toks = Some (Some e)"
    using first_insert[OF w(3) w(4)[OF assms(2)] short] y(4) e assms(2,3) by auto
  then have "find_path es 0 (t # t # toks) = Some (Some e)" by simp
  then have "ipc_ns_find nm' ns' = Some (Some e)"
    using assms(5) f y(1,6) by (auto simp: ipc_ns_find_def)
  moreover have "cap_handle (ns_entries ns' ! e) = h" using y(2,3,5) e by simp
  ultimately show ?thesis using y(5)[OF e] by blast
qed

theorem ns_first_name_aliases_witness:
  "\<exists>e ns'. ipc_ns_insert ''dev.tty'' 5 1 initial_namespace = Some (0, ns') \<and>
    ipc_ns_find ''dev.tty'' ns' = Some (Some e) \<and> ipc_ns_find ''tty'' ns' = Some (Some e)"
proof -
  have t: "ns_tokens ''dev.tty'' = ''dev'' # [''tty'']" "ns_tokens ''tty'' = [''tty'']" by code_simp+
  have r: "fst (the (ipc_ns_insert ''dev.tty'' 5 1 initial_namespace)) = 0" by code_simp
  obtain ret ns1 where ins: "ipc_ns_insert ''dev.tty'' 5 1 initial_namespace = Some (ret, ns1)"
    by (rule ns_insert_cases[OF initial_namespace_ok, of "''dev.tty''" 5 1]) (rule that; assumption)
  have "ret = 0" using r ins by simp
  with ns_first_name_aliases[OF initial_namespace_ok _ t(1) _ disjI1[OF t(2)], of 5 1 ns1] ins
  show ?thesis by (auto simp: initial_namespace_def)
qed

end
