(* ===== verification/Sage_IPC.thy ===== *)
theory Sage_IPC
  imports Sage_Timer Sage_NS Sage_Rings
begin

text \<open>
  The IPC system calls of \<^verbatim>\<open>kernel/core/ipc.c\<close>, with the clean-up and boot hooks of
  \<^verbatim>\<open>kernel/core/scheduler_ipc_ext.c\<close>. The state extends the scheduler's by the object pools and the
  namespace. A pointer into a pool or into the thread table is an index, \<open>None\<close> being \<^verbatim>\<open>NULL\<close>. A
  system call returns \<open>None\<close> when the code dereferences a null pointer, leaves the bounds of a pool,
  or waits for ever inside the scheduler; otherwise its result is either \<open>Done\<close> with the returned
  value and what is stored through the user's pointers, or \<open>Wait\<close> with the rest of the call, which
  \<open>ipc_resume\<close> runs when the thread is scheduled again. The addresses that the caller passes are
  arguments, and reading or storing through a null one is \<open>None\<close>, as the code does not test them. A message ring is the block \<^verbatim>\<open>msg_ring\<close> points to,
  read as an array of messages. The spin locks make each operation atomic and are left out. The
  wait queue of a port overlays the bytes of its first pending request and is kept apart, since
  pending requests are never read or written.
\<close>

unbundle bit_operations_syntax

section \<open>Declarations\<close>

definition IPC_MAX_ENDPOINTS :: nat where "IPC_MAX_ENDPOINTS = 128"
definition IPC_MAX_PORTS :: nat where "IPC_MAX_PORTS = 32"
definition IPC_MAX_SHM :: nat where "IPC_MAX_SHM = 32"
definition IPC_MSG_MAX_BYTES :: u32 where "IPC_MSG_MAX_BYTES = 4096"
definition IPC_MSG_MAX_CAPS :: u32 where "IPC_MSG_MAX_CAPS = 8"
definition IPC_MSG_MAGIC :: u32 where "IPC_MSG_MAGIC = 0x49504321"
definition IPC_MSGF_NOBLOCK :: u32 where "IPC_MSGF_NOBLOCK = 1"
definition IPC_MSGF_CAP_TRANSFER :: u32 where "IPC_MSGF_CAP_TRANSFER = 4"
definition ALLOC_TAG_IPC :: u32 where "ALLOC_TAG_IPC = 3"

text \<open>Seven header words, 4096 bytes of payload and eight handles.\<close>
definition sizeof_ipc_msg :: u64 where "sizeof_ipc_msg = 4156"

datatype ipc_lifecycle_state =
    IPC_STATE_CONSTRUCTED | IPC_STATE_ACTIVE | IPC_STATE_PAUSED | IPC_STATE_DRAINING | IPC_STATE_DEAD

record ipc_msg =
  magic :: u32
  msg_type :: u32
  sender_task :: u32
  sender_cap :: u32
  msg_flags :: u32
  payload_len :: u32
  cap_count :: u32
  payload :: "u8 list"
  msg_caps :: "u32 list"

definition zero_msg :: ipc_msg where
  "zero_msg = \<lparr>magic = 0, msg_type = 0, sender_task = 0, sender_cap = 0, msg_flags = 0, payload_len = 0,
    cap_count = 0, payload = replicate 4096 0, msg_caps = replicate 8 0\<rparr>"

record ipc_endpoint =
  ep_id :: u32
  ep_type :: ipc_obj_type
  ep_state :: ipc_lifecycle_state
  msg_ring :: "nat option"
  ring_mem :: "ipc_msg list"
  ring_size :: u32
  ep_head :: u32
  ep_tail :: u32
  msg_count :: u32
  peer_cap :: u32
  bound_task :: u32
  wait_head :: "nat option"
  wait_tail :: "nat option"
  msgs_sent :: u64
  msgs_recv :: u64
  bytes_moved :: u64
  drops :: u64

definition zero_endpoint :: ipc_endpoint where
  "zero_endpoint = \<lparr>ep_id = 0, ep_type = IPC_OBJ_NONE, ep_state = IPC_STATE_CONSTRUCTED, msg_ring = None,
    ring_mem = [], ring_size = 0, ep_head = 0, ep_tail = 0, msg_count = 0, peer_cap = 0, bound_task = 0,
    wait_head = None, wait_tail = None, msgs_sent = 0, msgs_recv = 0, bytes_moved = 0, drops = 0\<rparr>"

record ipc_shared_mem =
  shm_id :: u32
  shm_type :: ipc_obj_type
  shm_state :: ipc_lifecycle_state
  kernel_vaddr :: u64
  user_vaddr :: u64
  shm_size :: u64
  shm_owner :: u32
  map_count :: u32
  prot :: u32
  shm_flags :: u32

definition zero_shm :: ipc_shared_mem where
  "zero_shm = \<lparr>shm_id = 0, shm_type = IPC_OBJ_NONE, shm_state = IPC_STATE_CONSTRUCTED, kernel_vaddr = 0,
    user_vaddr = 0, shm_size = 0, shm_owner = 0, map_count = 0, prot = 0, shm_flags = 0\<rparr>"

record ipc_port =
  port_id :: u32
  port_type :: ipc_obj_type
  port_state :: ipc_lifecycle_state
  port_owner :: u32
  backlog :: u32
  pending_count :: u32
  accept_head :: "nat option"
  accept_tail :: "nat option"

definition zero_port :: ipc_port where
  "zero_port = \<lparr>port_id = 0, port_type = IPC_OBJ_NONE, port_state = IPC_STATE_CONSTRUCTED, port_owner = 0,
    backlog = 0, pending_count = 0, accept_head = None, accept_tail = None\<rparr>"

record ipc = timer +
  g_endpoints :: "ipc_endpoint list"
  g_shm :: "ipc_shared_mem list"
  g_ports :: "ipc_port list"
  g_namespace :: ipc_namespace

text \<open>What a system call stores through the pointers of its caller.\<close>
datatype ipc_out = Out_none | Out_handle u32 | Out_pair u32 u32 | Out_msg ipc_msg

text \<open>
  Where a blocked call goes on: after \<^verbatim>\<open>sched_block\<close>, after \<^verbatim>\<open>sched_schedule\<close>, or in the drain loop. The last argument
  is the caller's address for the result.
\<close>
datatype ipc_cont =
    Recv_blocked nat u64 | Recv_retry nat u64
  | Accept_blocked nat nat u64 | Accept_retry nat nat u64
  | Drain_wait nat

datatype ipc_result = Done int ipc_out | Wait ipc_cont

type_synonym 's ipc_call_result = "(ipc_result \<times> 's) option"

definition ret :: "int \<Rightarrow> 's \<Rightarrow> 's ipc_call_result" where
  "ret r s = Some (Done r Out_none, s)"

section \<open>Pools and tables\<close>

definition upd_endpoint :: "nat \<Rightarrow> (ipc_endpoint \<Rightarrow> ipc_endpoint) \<Rightarrow> 'a ipc_scheme \<Rightarrow> 'a ipc_scheme" where
  "upd_endpoint e f s = s\<lparr>g_endpoints := (g_endpoints s)[e := f (g_endpoints s ! e)]\<rparr>"

definition upd_port :: "nat \<Rightarrow> (ipc_port \<Rightarrow> ipc_port) \<Rightarrow> 'a ipc_scheme \<Rightarrow> 'a ipc_scheme" where
  "upd_port p f s = s\<lparr>g_ports := (g_ports s)[p := f (g_ports s ! p)]\<rparr>"

definition set_state :: "ipc_lifecycle_state \<Rightarrow> ipc_endpoint \<Rightarrow> ipc_endpoint" where
  "set_state st = ep_state_update (\<lambda>_. st)"

definition ipc_cap_resolve :: "thread \<Rightarrow> u32 \<Rightarrow> 'a sched_scheme \<Rightarrow> ipc_capability option" where
  "ipc_cap_resolve t handle s = ipc_cap_resolve_in (task_ipc_cap_table t s) handle"

definition pool_free :: "ipc_lifecycle_state \<Rightarrow> bool" where
  "pool_free st \<longleftrightarrow> st = IPC_STATE_DEAD \<or> st = IPC_STATE_CONSTRUCTED"

definition new_endpoint :: "nat \<Rightarrow> ipc_endpoint" where
  "new_endpoint i = zero_endpoint\<lparr>ep_id := of_nat i, ep_type := IPC_OBJ_ENDPOINT, ep_state := IPC_STATE_CONSTRUCTED\<rparr>"

definition ipc_alloc_endpoint :: "ipc_endpoint list \<Rightarrow> (nat \<times> ipc_endpoint list) option" where
  "ipc_alloc_endpoint es =
    map_option (\<lambda>i. (i, es[i := new_endpoint i])) (first_index (\<lambda>ep. pool_free (ep_state ep)) es)"

definition new_port :: "nat \<Rightarrow> ipc_port" where
  "new_port i = zero_port\<lparr>port_id := of_nat i, port_type := IPC_OBJ_PORT, port_state := IPC_STATE_CONSTRUCTED\<rparr>"

definition ipc_alloc_port :: "ipc_port list \<Rightarrow> (nat \<times> ipc_port list) option" where
  "ipc_alloc_port ps =
    map_option (\<lambda>i. (i, ps[i := new_port i])) (first_index (\<lambda>p. pool_free (port_state p)) ps)"

definition new_shm :: "nat \<Rightarrow> ipc_shared_mem" where
  "new_shm i = zero_shm\<lparr>shm_id := of_nat i, shm_type := IPC_OBJ_SHARED_MEM, shm_state := IPC_STATE_CONSTRUCTED\<rparr>"

definition ipc_alloc_shm :: "ipc_shared_mem list \<Rightarrow> (nat \<times> ipc_shared_mem list) option" where
  "ipc_alloc_shm ms =
    map_option (\<lambda>i. (i, ms[i := new_shm i])) (first_index (\<lambda>m. pool_free (shm_state m)) ms)"

section \<open>Lifecycle and message queue\<close>

text \<open>The state an endpoint must be in for the transition, \<open>None\<close> when there is no transition.\<close>
fun expected_state :: "ipc_lifecycle_state \<Rightarrow> ipc_lifecycle_state option" where
  "expected_state IPC_STATE_ACTIVE = Some IPC_STATE_CONSTRUCTED"
| "expected_state IPC_STATE_PAUSED = Some IPC_STATE_ACTIVE"
| "expected_state IPC_STATE_DRAINING = Some IPC_STATE_ACTIVE"
| "expected_state IPC_STATE_DEAD = Some IPC_STATE_PAUSED"
| "expected_state IPC_STATE_CONSTRUCTED = None"

definition ipc_lifecycle_transition :: "nat \<Rightarrow> ipc_lifecycle_state \<Rightarrow> 'a ipc_scheme \<Rightarrow> bool \<times> 'a ipc_scheme" where
  "ipc_lifecycle_transition e new_state s =
    (if expected_state new_state = Some (ep_state (g_endpoints s ! e))
     then (True, upd_endpoint e (set_state new_state) s) else (False, s))"

text \<open>The ring alone: \<open>None\<close> when it is full, or empty.\<close>
definition ring_push :: "ipc_msg \<Rightarrow> ipc_endpoint \<Rightarrow> ipc_endpoint option" where
  "ring_push msg ep =
    (if msg_count ep \<ge> ring_size ep then None
     else Some (ep\<lparr>ring_mem := (ring_mem ep)[unat (ep_head ep mod ring_size ep) := msg],
                   ep_head := (ep_head ep + 1) mod ring_size ep, msg_count := msg_count ep + 1\<rparr>))"

definition ring_pop :: "ipc_endpoint \<Rightarrow> (ipc_msg \<times> ipc_endpoint) option" where
  "ring_pop ep =
    (if msg_count ep = 0 then None
     else Some (ring_mem ep ! unat (ep_tail ep mod ring_size ep),
                ep\<lparr>ep_tail := (ep_tail ep + 1) mod ring_size ep, msg_count := msg_count ep - 1\<rparr>))"

definition ipc_msg_enqueue :: "nat \<Rightarrow> ipc_msg \<Rightarrow> 'a ipc_scheme \<Rightarrow> (int \<times> 'a ipc_scheme) option" where
  "ipc_msg_enqueue e msg s =
    (let ep = g_endpoints s ! e in
     if ep_state ep \<noteq> IPC_STATE_ACTIVE \<and> ep_state ep \<noteq> IPC_STATE_DRAINING then Some (-1, s)
     else case ring_push msg ep of
         None \<Rightarrow> Some (-1, upd_endpoint e (drops_update (\<lambda>d. d + 1)) s)
       | Some ep1 \<Rightarrow>
           if msg_ring ep = None then None
           else
             let s1 = upd_endpoint e (\<lambda>_. ep1\<lparr>msgs_sent := msgs_sent ep1 + 1,
                        bytes_moved := bytes_moved ep1 + ucast (payload_len msg)\<rparr>) s
             in case wait_head ep of
                  None \<Rightarrow> Some (0, s1)
                | Some w \<Rightarrow>
                    let nxt = wait_next (g_tasks s1 ! w) in
                    Some (0, sched_unblock (Some w) (upd_endpoint e (\<lambda>x. x\<lparr>wait_head := nxt,
                      wait_tail := if nxt = None then None else wait_tail x\<rparr>) s1)))"

definition ipc_msg_dequeue :: "nat \<Rightarrow> 'a ipc_scheme \<Rightarrow> ((int + ipc_msg) \<times> 'a ipc_scheme) option" where
  "ipc_msg_dequeue e s =
    (let ep = g_endpoints s ! e in
     case ring_pop ep of
       None \<Rightarrow>
         if ep_state ep = IPC_STATE_DRAINING \<or> ep_state ep = IPC_STATE_DEAD then Some (Inl (-1), s)
         else Some (Inl (-2), s)
     | Some (msg, ep1) \<Rightarrow>
         if msg_ring ep = None \<or> ring_size ep = 0 then None
         else Some (Inr msg, upd_endpoint e (\<lambda>_. ep1\<lparr>msgs_recv := msgs_recv ep1 + 1\<rparr>) s))"

text \<open>Appending a thread to a wait queue, given by its head and tail; the thread is marked blocked.\<close>
definition ipc_wait_enqueue ::
  "nat \<Rightarrow> nat option \<times> nat option \<Rightarrow> 'a sched_scheme \<Rightarrow> ((nat option \<times> nat option) \<times> 'a sched_scheme) option" where
  "ipc_wait_enqueue t q s =
    (let s1 = upd_task t (wait_next_update (\<lambda>_. None)) s in
     case q of
       (None, _) \<Rightarrow> Some ((Some t, Some t), upd_task t (state_update (\<lambda>_. THREAD_STATE_BLOCKED)) s1)
     | (Some h, None) \<Rightarrow> None
     | (Some h, Some l) \<Rightarrow>
         Some ((Some h, Some t), upd_task t (state_update (\<lambda>_. THREAD_STATE_BLOCKED))
           (upd_task l (wait_next_update (\<lambda>_. Some t)) s1)))"

section \<open>System calls\<close>

definition current_task :: "'a sched_scheme \<Rightarrow> nat option \<times> 'a sched_scheme" where
  "current_task s = sched_current_thread s"

text \<open>A capability for a new object.\<close>
definition mk_cap :: "u32 \<Rightarrow> ipc_obj_type \<Rightarrow> u32 \<Rightarrow> u32 \<Rightarrow> ipc_capability" where
  "mk_cap r ty obj owner = zero_cap\<lparr>rights := r, object_type := ty, object_id := obj, ref_count := 1, owner_task := owner\<rparr>"

text \<open>
  The stores of the channel pair \<open>i\<close>, \<open>j\<close> and of its two rings, and what happens when a ring is
  missing. The allocation of the second ring writes the field the first one wrote when \<open>i = j\<close>.
\<close>
definition alloc_rings :: "nat \<Rightarrow> nat \<Rightarrow> 'a ipc_scheme \<Rightarrow> 'a ipc_scheme option" where
  "alloc_rings i j s = do {
     let s1 = upd_endpoint j (ring_size_update (\<lambda>_. 16)) (upd_endpoint i (ring_size_update (\<lambda>_. 16)) s);
     (p, s2) \<leftarrow> kmalloc (sizeof_ipc_msg * 16) ALLOC_TAG_IPC s1;
     let s3 = upd_endpoint i (\<lambda>ep. ep\<lparr>msg_ring := p, ring_mem := replicate 16 zero_msg\<rparr>) s2;
     (q, s4) \<leftarrow> kmalloc (sizeof_ipc_msg * 16) ALLOC_TAG_IPC s3;
     Some (upd_endpoint j (\<lambda>ep. ep\<lparr>msg_ring := q, ring_mem := replicate 16 zero_msg\<rparr>) s4)
   }"

definition free_ring :: "nat \<Rightarrow> 'a ipc_scheme \<Rightarrow> 'a ipc_scheme option" where
  "free_ring e s = (if msg_ring (g_endpoints s ! e) = None then Some s else kfree (msg_ring (g_endpoints s ! e)) s)"

definition kill_pair :: "nat \<Rightarrow> nat \<Rightarrow> 'a ipc_scheme \<Rightarrow> 'a ipc_scheme" where
  "kill_pair i j s = upd_endpoint j (set_state IPC_STATE_DEAD) (upd_endpoint i (set_state IPC_STATE_DEAD) s)"

definition link_pair :: "nat \<Rightarrow> nat \<Rightarrow> u32 \<Rightarrow> 'a ipc_scheme \<Rightarrow> 'a ipc_scheme" where
  "link_pair i j owner s =
    (let s1 = upd_endpoint i (\<lambda>ep. ep\<lparr>peer_cap := ep_id (g_endpoints s ! j)\<rparr>) s;
         s2 = upd_endpoint j (\<lambda>ep. ep\<lparr>peer_cap := ep_id (g_endpoints s1 ! i)\<rparr>) s1;
         s3 = upd_endpoint j (bound_task_update (\<lambda>_. owner)) (upd_endpoint i (bound_task_update (\<lambda>_. owner)) s2)
     in upd_endpoint j (set_state IPC_STATE_ACTIVE) (upd_endpoint i (set_state IPC_STATE_ACTIVE) s3))"

text \<open>\<^verbatim>\<open>sys_ipc_endpoint_create\<close> up to the stores of the two handles.\<close>
definition create_endpoints :: "'a ipc_scheme \<Rightarrow> 'a ipc_scheme ipc_call_result" where
  "create_endpoints s =
    (case current_task s of
       (None, s0) \<Rightarrow> ret (-1) s0
     | (Some c, s0) \<Rightarrow>
         (let t = g_tasks s0 ! c in
          case ipc_alloc_endpoint (g_endpoints s0) of
            None \<Rightarrow> ret (-1) s0
          | Some (i, es1) \<Rightarrow>
              (case ipc_alloc_endpoint es1 of
                 None \<Rightarrow> ret (-1) (upd_endpoint i (set_state IPC_STATE_DEAD) (s0\<lparr>g_endpoints := es1\<rparr>))
               | Some (j, es2) \<Rightarrow> do {
                   s1 \<leftarrow> alloc_rings i j (s0\<lparr>g_endpoints := es2\<rparr>);
                   if msg_ring (g_endpoints s1 ! i) = None \<or> msg_ring (g_endpoints s1 ! j) = None
                   then do {
                     s2 \<leftarrow> free_ring i s1;
                     s3 \<leftarrow> free_ring j s2;
                     ret (-1) (kill_pair i j s3)
                   }
                   else
                     let s2 = link_pair i j (tid t) s1;
                         tab = task_ipc_cap_table t s2
                     in case (ipc_cap_alloc_slot tab, ipc_cap_alloc_slot tab) of
                          (Some hs, Some hr) \<Rightarrow>
                            (let scap = mk_cap (IPC_CAP_RIGHT_SEND OR IPC_CAP_RIGHT_CALL OR IPC_CAP_RIGHT_DUP)
                                          IPC_OBJ_ENDPOINT (ep_id (g_endpoints s2 ! i)) (tid t);
                                 rcap = mk_cap (IPC_CAP_RIGHT_RECV OR IPC_CAP_RIGHT_DUP)
                                          IPC_OBJ_ENDPOINT (ep_id (g_endpoints s2 ! j)) (tid t);
                                 s3 = upd_cap_table t (\<lambda>tb. set_cap hr rcap (set_cap hs scap tb)) s2
                             in Some (Done 0 (Out_pair (of_nat hs) (of_nat hr)), s3))
                        | _ \<Rightarrow> ret (-1) (kill_pair i j s2)
                 })))"

text \<open>The stores through the pointers of the caller, which only a call with a result makes; \<open>nonnull\<close> says that none is null.\<close>
fun user_store :: "bool \<Rightarrow> ipc_result \<times> 's \<Rightarrow> 's ipc_call_result" where
  "user_store nonnull (Done v out, s) = (if out = Out_none \<or> nonnull then Some (Done v out, s) else None)"
| "user_store nonnull (Wait c, s) = Some (Wait c, s)"

definition sys_ipc_endpoint_create :: "u64 \<Rightarrow> u64 \<Rightarrow> 'a ipc_scheme \<Rightarrow> 'a ipc_scheme ipc_call_result" where
  "sys_ipc_endpoint_create out_send out_recv s = create_endpoints s \<bind> user_store (out_send \<noteq> 0 \<and> out_recv \<noteq> 0)"

text \<open>The loop over the capabilities in a message: \<open>False\<close> when a handle does not resolve.\<close>
fun send_caps :: "thread \<Rightarrow> u32 \<Rightarrow> u32 list \<Rightarrow> 'a sched_scheme \<Rightarrow> bool \<times> 'a sched_scheme" where
  "send_caps t flags [] s = (True, s)"
| "send_caps t flags (h # hs) s =
    (case ipc_cap_resolve t h s of
       None \<Rightarrow> (False, s)
     | Some _ \<Rightarrow> send_caps t flags hs
         (if flags AND IPC_MSGF_CAP_TRANSFER \<noteq> 0 then upd_cap_table t (ipc_cap_free_slot h) s else s))"

text \<open>A message that the caller passes is \<open>None\<close> for a null pointer; the code reads through it without a test.\<close>
definition sys_ipc_send :: "u32 \<Rightarrow> ipc_msg option \<Rightarrow> u32 \<Rightarrow> 'a ipc_scheme \<Rightarrow> (int \<times> 'a ipc_scheme) option" where
  "sys_ipc_send handle user_ptr flags s =
    (case current_task s of
       (None, s0) \<Rightarrow> Some (-1, s0)
     | (Some c, s0) \<Rightarrow>
         (let t = g_tasks s0 ! c;
              s1 = klog TRACE_IPC_SEND (ucast handle) (ucast flags) s0
          in case ipc_cap_resolve t handle s1 of
               None \<Rightarrow> Some (-1, s1)
             | Some cap \<Rightarrow>
                 if \<not> ipc_cap_has_right cap IPC_CAP_RIGHT_SEND then Some (-1, s1)
                 else if object_type cap \<noteq> IPC_OBJ_ENDPOINT then Some (-1, s1)
                 else if unat (object_id cap) \<ge> IPC_MAX_ENDPOINTS then None
                 else
                   let e = unat (object_id cap); ep = g_endpoints s1 ! e in
                   if ep_state ep \<noteq> IPC_STATE_ACTIVE \<and> ep_state ep \<noteq> IPC_STATE_DRAINING then Some (-1, s1)
                   else case user_ptr of
                       None \<Rightarrow> None
                     | Some user_msg \<Rightarrow>
                         if magic user_msg \<noteq> IPC_MSG_MAGIC then Some (-1, s1)
                         else if payload_len user_msg > IPC_MSG_MAX_BYTES then Some (-1, s1)
                         else if cap_count user_msg > IPC_MSG_MAX_CAPS then Some (-1, s1)
                         else
                           let msg = user_msg\<lparr>sender_task := tid t, sender_cap := handle\<rparr>
                           in case send_caps t flags (take (unat (cap_count msg)) (msg_caps msg)) s1 of
                                (False, s2) \<Rightarrow> Some (-1, s2)
                              | (True, s2) \<Rightarrow> do {
                                  (r, s3) \<leftarrow> ipc_msg_enqueue e msg s2;
                                  if r < 0 \<and> flags AND IPC_MSGF_NOBLOCK \<noteq> 0 then Some (-1, s3) else Some (r, s3)
                                }))"

text \<open>The end of \<^verbatim>\<open>sys_ipc_recv\<close>: the message is copied to the caller's address.\<close>
definition recv_result :: "u64 \<Rightarrow> (int + ipc_msg) \<times> 's \<Rightarrow> 's ipc_call_result" where
  "recv_result user_msg r =
    (case r of (Inl e, s) \<Rightarrow> ret e s | (Inr msg, s) \<Rightarrow> user_store (user_msg \<noteq> 0) (Done 0 (Out_msg msg), s))"

definition sys_ipc_recv :: "timer_arch \<Rightarrow> u32 \<Rightarrow> u64 \<Rightarrow> u32 \<Rightarrow> 'a ipc_scheme \<Rightarrow> 'a ipc_scheme ipc_call_result" where
  "sys_ipc_recv arch handle user_msg flags s =
    (case current_task s of
       (None, s0) \<Rightarrow> ret (-1) s0
     | (Some c, s0) \<Rightarrow>
         (let t = g_tasks s0 ! c in
          case ipc_cap_resolve t handle s0 of
            None \<Rightarrow> ret (-1) s0
          | Some cap \<Rightarrow>
              if \<not> ipc_cap_has_right cap IPC_CAP_RIGHT_RECV then ret (-1) s0
              else if object_type cap \<noteq> IPC_OBJ_ENDPOINT then ret (-1) s0
              else if unat (object_id cap) \<ge> IPC_MAX_ENDPOINTS then None
              else do {
                let e = unat (object_id cap);
                (r, s1) \<leftarrow> ipc_msg_dequeue e s0;
                if r = Inl (-2) then
                  if flags AND IPC_MSGF_NOBLOCK \<noteq> 0 then ret (-1) s1
                  else do {
                    ((hd', tl'), s2) \<leftarrow> ipc_wait_enqueue c (wait_head (g_endpoints s1 ! e), wait_tail (g_endpoints s1 ! e)) s1;
                    s3 \<leftarrow> sched_block (timer_idle_poll arch) (upd_endpoint e (\<lambda>ep. ep\<lparr>wait_head := hd', wait_tail := tl'\<rparr>) s2);
                    Some (Wait (Recv_blocked e user_msg), s3)
                  }
                else recv_result user_msg (r, s1)
              }))"

text \<open>The handle of the first capability to receive on the endpoint with the given identifier.\<close>
definition find_reply_cap :: "u32 \<Rightarrow> ipc_cap_table \<Rightarrow> nat option" where
  "find_reply_cap obj tab =
    first_index (\<lambda>cap. object_id cap = obj \<and> object_type cap = IPC_OBJ_ENDPOINT \<and>
      rights cap AND IPC_CAP_RIGHT_RECV \<noteq> 0) (caps tab)"

definition sys_ipc_call :: "timer_arch \<Rightarrow> u32 \<Rightarrow> ipc_msg option \<Rightarrow> u64 \<Rightarrow> 'a ipc_scheme \<Rightarrow> 'a ipc_scheme ipc_call_result" where
  "sys_ipc_call arch handle req resp s =
    (case current_task s of
       (None, s0) \<Rightarrow> ret (-1) s0
     | (Some c, s0) \<Rightarrow>
         (let t = g_tasks s0 ! c in
          case ipc_cap_resolve t handle s0 of
            None \<Rightarrow> ret (-1) s0
          | Some cap \<Rightarrow>
              if \<not> ipc_cap_has_right cap IPC_CAP_RIGHT_CALL then ret (-1) s0
              else if object_type cap \<noteq> IPC_OBJ_ENDPOINT then ret (-1) s0
              else if unat (object_id cap) \<ge> IPC_MAX_ENDPOINTS then None
              else
                let ep = g_endpoints s0 ! unat (object_id cap) in
                if unat (peer_cap ep) \<ge> IPC_MAX_ENDPOINTS then ret (-1) s0
                else do {
                  (r, s1) \<leftarrow> sys_ipc_send handle req 0 s0;
                  if r < 0 then ret r s1
                  else
                    let reply_id = ep_id (g_endpoints s1 ! unat (peer_cap ep)) in
                    case find_reply_cap reply_id (task_ipc_cap_table t s1) of
                      None \<Rightarrow> ret (-1) s1
                    | Some i \<Rightarrow> sys_ipc_recv arch (of_nat i) resp 0 s1
                }))"

definition sys_ipc_port_create :: "u32 \<Rightarrow> u64 \<Rightarrow> 'a ipc_scheme \<Rightarrow> 'a ipc_scheme ipc_call_result" where
  "sys_ipc_port_create blog out_cap s =
    (case current_task s of
       (None, s0) \<Rightarrow> ret (-1) s0
     | (Some c, s0) \<Rightarrow>
         (let t = g_tasks s0 ! c in
          case ipc_alloc_port (g_ports s0) of
            None \<Rightarrow> ret (-1) s0
          | Some (p, ps) \<Rightarrow>
              (let s1 = upd_port p (\<lambda>pt. pt\<lparr>backlog := if blog > 16 then 16 else blog, port_owner := tid t,
                          port_state := IPC_STATE_ACTIVE\<rparr>) (s0\<lparr>g_ports := ps\<rparr>)
               in case ipc_cap_alloc_slot (task_ipc_cap_table t s1) of
                    None \<Rightarrow> ret (-1) (upd_port p (port_state_update (\<lambda>_. IPC_STATE_DEAD)) s1)
                  | Some h \<Rightarrow>
                      (let pcap = mk_cap (IPC_CAP_RIGHT_SEND OR IPC_CAP_RIGHT_RECV OR IPC_CAP_RIGHT_DUP)
                                    IPC_OBJ_PORT (port_id (g_ports s1 ! p)) (tid t)
                       in user_store (out_cap \<noteq> 0) (Done 0 (Out_handle (of_nat h)), upd_cap_table t (set_cap h pcap) s1)))))"

text \<open>The loop of \<^verbatim>\<open>sys_ipc_port_accept\<close> from the test of its condition on, run by thread \<open>c\<close>.\<close>
definition accept_loop :: "timer_arch \<Rightarrow> nat \<Rightarrow> nat \<Rightarrow> u64 \<Rightarrow> 'a ipc_scheme \<Rightarrow> 'a ipc_scheme ipc_call_result" where
  "accept_loop arch p c out_channel_cap s =
    (let port = g_ports s ! p in
     if pending_count port = 0 then
       if port_state port \<noteq> IPC_STATE_ACTIVE then ret (-1) s
       else do {
         ((hd', tl'), s1) \<leftarrow> ipc_wait_enqueue c (accept_head port, accept_tail port) s;
         s2 \<leftarrow> sched_block (timer_idle_poll arch) (upd_port p (\<lambda>pt. pt\<lparr>accept_head := hd', accept_tail := tl'\<rparr>) s1);
         Some (Wait (Accept_blocked p c out_channel_cap), s2)
       }
     else do {
       (r, s1) \<leftarrow> create_endpoints s;
       case r of
         Done v (Out_pair local peer) \<Rightarrow>
           if v < 0 then ret (-1) s1 else user_store (out_channel_cap \<noteq> 0) (Done 0 (Out_handle local), s1)
       | _ \<Rightarrow> ret (-1) s1
     })"

definition sys_ipc_port_accept :: "timer_arch \<Rightarrow> u32 \<Rightarrow> u64 \<Rightarrow> 'a ipc_scheme \<Rightarrow> 'a ipc_scheme ipc_call_result" where
  "sys_ipc_port_accept arch handle out_channel_cap s =
    (case current_task s of
       (None, s0) \<Rightarrow> ret (-1) s0
     | (Some c, s0) \<Rightarrow>
         (case ipc_cap_resolve (g_tasks s0 ! c) handle s0 of
            None \<Rightarrow> ret (-1) s0
          | Some cap \<Rightarrow>
              if object_type cap \<noteq> IPC_OBJ_PORT then ret (-1) s0
              else if unat (object_id cap) \<ge> IPC_MAX_PORTS then None
              else if port_state (g_ports s0 ! unat (object_id cap)) \<noteq> IPC_STATE_ACTIVE then ret (-1) s0
              else accept_loop arch (unat (object_id cap)) c out_channel_cap s0))"

text \<open>A name is \<open>None\<close> for a null pointer, through which it would be copied.\<close>
definition sys_ipc_ns_register :: "string option \<Rightarrow> u32 \<Rightarrow> 'a ipc_scheme \<Rightarrow> 'a ipc_scheme ipc_call_result" where
  "sys_ipc_ns_register name_ptr handle s =
    (case current_task s of
       (None, s0) \<Rightarrow> ret (-1) s0
     | (Some c, s0) \<Rightarrow>
         (let t = g_tasks s0 ! c in
          case ipc_cap_resolve t handle s0 of
            None \<Rightarrow> ret (-1) s0
          | Some cap \<Rightarrow> do {
              nm \<leftarrow> name_ptr;
              (r, ns) \<leftarrow> ipc_ns_insert nm handle (tid t) (g_namespace s0);
              ret r (s0\<lparr>g_namespace := ns\<rparr>)
            }))"

text \<open>The capability an entry of the namespace stands for: \<open>None\<close> when its owner is gone.\<close>
definition entry_cap :: "ns_entry \<Rightarrow> 'a ipc_scheme \<Rightarrow> ipc_capability option" where
  "entry_cap en s = do {
     o' \<leftarrow> sched_get_thread_by_id (owner_task_id en) s;
     if unat (cap_handle en) \<ge> IPC_CAP_MAX_PER_TASK then None
     else Some (caps (task_ipc_cap_table (g_tasks s ! o') s) ! unat (cap_handle en))
   }"

definition sys_ipc_ns_lookup :: "string option \<Rightarrow> u64 \<Rightarrow> 'a ipc_scheme \<Rightarrow> 'a ipc_scheme ipc_call_result" where
  "sys_ipc_ns_lookup name_ptr out_cap_handle s =
    (case current_task s of
       (None, s0) \<Rightarrow> ret (-1) s0
     | (Some c, s0) \<Rightarrow> do {
         let t = g_tasks s0 ! c;
         nm \<leftarrow> name_ptr;
         found \<leftarrow> ipc_ns_find nm (g_namespace s0);
         case found of
           None \<Rightarrow> ret (-1) s0
         | Some e \<Rightarrow>
             (case ipc_cap_alloc_slot (task_ipc_cap_table t s0) of
                None \<Rightarrow> ret (-1) s0
              | Some h \<Rightarrow> do {
                  src \<leftarrow> entry_cap (ns_entries (g_namespace s0) ! e) s0;
                  let cap = src\<lparr>rights := rights src AND NOT (IPC_CAP_RIGHT_REVOKE OR IPC_CAP_RIGHT_DUP),
                              ref_count := ref_count src + 1, owner_task := tid t\<rparr>;
                  user_store (out_cap_handle \<noteq> 0) (Done 0 (Out_handle (of_nat h)), upd_cap_table t (set_cap h cap) s0)
                })
       })"

text \<open>What \<^verbatim>\<open>sys_ipc_object_destroy\<close> does to the object of a capability.\<close>
definition destroy_object :: "ipc_capability \<Rightarrow> 'a ipc_scheme \<Rightarrow> 'a ipc_scheme option" where
  "destroy_object cap s =
    (let o' = unat (object_id cap) in
     case object_type cap of
       IPC_OBJ_PORT \<Rightarrow>
         if o' \<ge> IPC_MAX_PORTS then None else Some (upd_port o' (port_state_update (\<lambda>_. IPC_STATE_DEAD)) s)
     | IPC_OBJ_SHARED_MEM \<Rightarrow>
         if o' \<ge> IPC_MAX_SHM then None
         else Some (s\<lparr>g_shm := (g_shm s)[o' := (g_shm s ! o')\<lparr>shm_state := IPC_STATE_DEAD\<rparr>]\<rparr>)
     | ty \<Rightarrow>
         if ty = IPC_OBJ_ENDPOINT \<or> ty = IPC_OBJ_CHANNEL then
           if o' \<ge> IPC_MAX_ENDPOINTS then None
           else do {
             let s1 = upd_endpoint o' (set_state IPC_STATE_DEAD) s;
             s2 \<leftarrow> free_ring o' s1;
             Some (upd_endpoint o' (msg_ring_update (\<lambda>_. None)) s2)
           }
         else Some s)"

definition sys_ipc_object_destroy :: "u32 \<Rightarrow> 'a ipc_scheme \<Rightarrow> 'a ipc_scheme ipc_call_result" where
  "sys_ipc_object_destroy handle s =
    (case current_task s of
       (None, s0) \<Rightarrow> ret (-1) s0
     | (Some c, s0) \<Rightarrow>
         (let t = g_tasks s0 ! c in
          case ipc_cap_resolve t handle s0 of
            None \<Rightarrow> ret (-1) s0
          | Some cap \<Rightarrow>
              if \<not> ipc_cap_has_right cap IPC_CAP_RIGHT_REVOKE then ret (-1) s0
              else do {
                s1 \<leftarrow> destroy_object cap s0;
                ret 0 (upd_cap_table t (ipc_cap_free_slot handle) s1)
              }))"

definition is_endpoint :: "ipc_capability \<Rightarrow> bool" where
  "is_endpoint cap \<longleftrightarrow> object_type cap = IPC_OBJ_ENDPOINT \<or> object_type cap = IPC_OBJ_CHANNEL"

definition sys_ipc_object_pause :: "u32 \<Rightarrow> 'a ipc_scheme \<Rightarrow> 'a ipc_scheme ipc_call_result" where
  "sys_ipc_object_pause handle s =
    (case current_task s of
       (None, s0) \<Rightarrow> ret (-1) s0
     | (Some c, s0) \<Rightarrow>
         (case ipc_cap_resolve (g_tasks s0 ! c) handle s0 of
            None \<Rightarrow> ret (-1) s0
          | Some cap \<Rightarrow>
              if \<not> ipc_cap_has_right cap IPC_CAP_RIGHT_REVOKE then ret (-1) s0
              else if is_endpoint cap then
                if unat (object_id cap) \<ge> IPC_MAX_ENDPOINTS then None
                else case ipc_lifecycle_transition (unat (object_id cap)) IPC_STATE_PAUSED s0 of
                    (ok, s1) \<Rightarrow> ret (if ok then 0 else -1) s1
              else ret (-1) s0))"

definition sys_ipc_object_resume :: "u32 \<Rightarrow> 'a ipc_scheme \<Rightarrow> 'a ipc_scheme ipc_call_result" where
  "sys_ipc_object_resume handle s =
    (case current_task s of
       (None, s0) \<Rightarrow> ret (-1) s0
     | (Some c, s0) \<Rightarrow>
         (case ipc_cap_resolve (g_tasks s0 ! c) handle s0 of
            None \<Rightarrow> ret (-1) s0
          | Some cap \<Rightarrow>
              if is_endpoint cap then
                if unat (object_id cap) \<ge> IPC_MAX_ENDPOINTS then None
                else if ep_state (g_endpoints s0 ! unat (object_id cap)) = IPC_STATE_PAUSED
                then ret 0 (upd_endpoint (unat (object_id cap)) (set_state IPC_STATE_ACTIVE) s0)
                else ret (-1) s0
              else ret (-1) s0))"

text \<open>The waiting loop of \<^verbatim>\<open>sys_ipc_object_drain\<close> and the final exchange.\<close>
definition drain_loop :: "timer_arch \<Rightarrow> nat \<Rightarrow> 'a ipc_scheme \<Rightarrow> 'a ipc_scheme ipc_call_result" where
  "drain_loop arch e s =
    (if msg_count (g_endpoints s ! e) = 0
     then ret 0 (if ep_state (g_endpoints s ! e) = IPC_STATE_DRAINING
                 then upd_endpoint e (set_state IPC_STATE_DEAD) s else s)
     else do { s1 \<leftarrow> sched_yield (timer_idle_poll arch) s; Some (Wait (Drain_wait e), s1) })"

definition sys_ipc_object_drain :: "timer_arch \<Rightarrow> u32 \<Rightarrow> 'a ipc_scheme \<Rightarrow> 'a ipc_scheme ipc_call_result" where
  "sys_ipc_object_drain arch handle s =
    (case current_task s of
       (None, s0) \<Rightarrow> ret (-1) s0
     | (Some c, s0) \<Rightarrow>
         (case ipc_cap_resolve (g_tasks s0 ! c) handle s0 of
            None \<Rightarrow> ret (-1) s0
          | Some cap \<Rightarrow>
              if \<not> ipc_cap_has_right cap IPC_CAP_RIGHT_REVOKE then ret (-1) s0
              else if is_endpoint cap then
                if unat (object_id cap) \<ge> IPC_MAX_ENDPOINTS then None
                else case ipc_lifecycle_transition (unat (object_id cap)) IPC_STATE_DRAINING s0 of
                    (False, s1) \<Rightarrow> ret (-1) s1
                  | (True, s1) \<Rightarrow> drain_loop arch (unat (object_id cap)) s1
              else ret (-1) s0))"

definition sys_ipc_cap_narrow :: "u32 \<Rightarrow> u32 \<Rightarrow> 'a ipc_scheme \<Rightarrow> 'a ipc_scheme ipc_call_result" where
  "sys_ipc_cap_narrow handle new_rights s =
    (case current_task s of
       (None, s0) \<Rightarrow> ret (-1) s0
     | (Some c, s0) \<Rightarrow>
         (let t = g_tasks s0 ! c in
          if unat handle \<ge> IPC_CAP_MAX_PER_TASK then ret (-1) s0
          else
            let cap = caps (task_ipc_cap_table t s0) ! unat handle in
            if \<not> ipc_cap_is_valid cap then ret (-1) s0
            else if cap_flags cap AND IPC_CAPF_IMMUTABLE \<noteq> 0 then ret (-1) s0
            else ret 0 (upd_cap_table t (set_cap (unat handle)
                   (cap\<lparr>rights := rights cap AND (new_rights AND IPC_CAP_RIGHTS_ALL)\<rparr>)) s0)))"

definition sys_ipc_cap_revoke :: "u32 \<Rightarrow> 'a ipc_scheme \<Rightarrow> 'a ipc_scheme ipc_call_result" where
  "sys_ipc_cap_revoke handle s = sys_ipc_object_destroy handle s"

definition sys_ipc_cap_dup :: "u32 \<Rightarrow> u64 \<Rightarrow> 'a ipc_scheme \<Rightarrow> 'a ipc_scheme ipc_call_result" where
  "sys_ipc_cap_dup handle out_new_handle s =
    (case current_task s of
       (None, s0) \<Rightarrow> ret (-1) s0
     | (Some c, s0) \<Rightarrow>
         (let t = g_tasks s0 ! c in
          case ipc_cap_resolve t handle s0 of
            None \<Rightarrow> ret (-1) s0
          | Some src \<Rightarrow>
              if \<not> ipc_cap_has_right src IPC_CAP_RIGHT_DUP then ret (-1) s0
              else case ipc_cap_alloc_slot (task_ipc_cap_table t s0) of
                  None \<Rightarrow> ret (-1) s0
                | Some h \<Rightarrow> user_store (out_new_handle \<noteq> 0) (Done 0 (Out_handle (of_nat h)),
                    upd_cap_table t (set_cap h (src\<lparr>ref_count := ref_count src + 1\<rparr>)) s0)))"

definition user_at :: "(u64 \<Rightarrow> 'b) \<Rightarrow> u64 \<Rightarrow> 'b option" where
  "user_at mem a = (if a = 0 then None else Some (mem a))"

text \<open>
  \<^verbatim>\<open>ipc_syscall_dispatch\<close>, with the message and the string that user memory holds at an address. A
  32-bit argument is the low half of the register; an address that is not null is taken to be valid.
\<close>
definition ipc_syscall_dispatch ::
  "timer_arch \<Rightarrow> (u64 \<Rightarrow> ipc_msg) \<Rightarrow> (u64 \<Rightarrow> string) \<Rightarrow> int \<Rightarrow> u64 \<Rightarrow> u64 \<Rightarrow> u64 \<Rightarrow> 'a ipc_scheme \<Rightarrow> 'a ipc_scheme ipc_call_result" where
  "ipc_syscall_dispatch arch umsg ustr num a1 a2 a3 s =
    (if num = 201 then sys_ipc_cap_narrow (ucast a1) (ucast a2) s
     else if num = 202 then sys_ipc_cap_revoke (ucast a1) s
     else if num = 203 then sys_ipc_cap_dup (ucast a1) a2 s
     else if num = 210 then sys_ipc_endpoint_create a1 a2 s
     else if num = 220 then map_option (\<lambda>(r, s'). (Done r Out_none, s')) (sys_ipc_send (ucast a1) (user_at umsg a2) (ucast a3) s)
     else if num = 221 then sys_ipc_recv arch (ucast a1) a2 (ucast a3) s
     else if num = 222 then sys_ipc_call arch (ucast a1) (user_at umsg a2) a3 s
     else if num = 212 then sys_ipc_port_create (ucast a1) a2 s
     else if num = 224 then sys_ipc_port_accept arch (ucast a1) a2 s
     else if num = 230 then sys_ipc_ns_register (user_at ustr a1) (ucast a2) s
     else if num = 231 then sys_ipc_ns_lookup (user_at ustr a1) a2 s
     else if num = 214 then sys_ipc_object_destroy (ucast a1) s
     else if num = 240 then sys_ipc_object_pause (ucast a1) s
     else if num = 241 then sys_ipc_object_resume (ucast a1) s
     else if num = 242 then sys_ipc_object_drain arch (ucast a1) s
     else ret (-1) s)"

text \<open>The rest of a blocked call.\<close>
fun ipc_resume :: "timer_arch \<Rightarrow> ipc_cont \<Rightarrow> 'a ipc_scheme \<Rightarrow> 'a ipc_scheme ipc_call_result" where
  "ipc_resume arch (Recv_blocked e a) s =
    map_option (\<lambda>s'. (Wait (Recv_retry e a), s')) (sched_schedule (timer_idle_poll arch) s)"
| "ipc_resume arch (Recv_retry e a) s = ipc_msg_dequeue e s \<bind> recv_result a"
| "ipc_resume arch (Accept_blocked p c a) s =
    map_option (\<lambda>s'. (Wait (Accept_retry p c a), s')) (sched_schedule (timer_idle_poll arch) s)"
| "ipc_resume arch (Accept_retry p c a) s = accept_loop arch p c a s"
| "ipc_resume arch (Drain_wait e) s = drain_loop arch e s"

section \<open>Hooks\<close>

definition zero_cap_table :: ipc_cap_table where
  "zero_cap_table = \<lparr>caps = replicate IPC_CAP_MAX_PER_TASK zero_cap, next_free = 0\<rparr>"

definition zero_ext :: thread_ipc_ext where
  "zero_ext = \<lparr>cap_table = zero_cap_table, rpc_reply_cap = 0, rpc_timeout_tick = 0, signal_pending = 0, signal_mask = 0\<rparr>"

text \<open>
  The release of slot \<open>i\<close>. The call of \<^verbatim>\<open>sys_ipc_object_destroy\<close> resolves the handle in the table of
  the current thread.
\<close>
definition cleanup_slot :: "thread \<Rightarrow> nat \<Rightarrow> 'a ipc_scheme \<Rightarrow> 'a ipc_scheme option" where
  "cleanup_slot t i s =
    (let cap = caps (task_ipc_cap_table t s) ! i in
     if \<not> ipc_cap_is_valid cap then Some s
     else do {
       let cap1 = cap\<lparr>ref_count := ref_count cap - 1\<rparr>;
       let s1 = upd_cap_table t (set_cap i cap1) s;
       s2 \<leftarrow> (if ref_count cap1 = 0 \<and> rights cap1 AND IPC_CAP_RIGHT_REVOKE \<noteq> 0
              then map_option snd (sys_ipc_object_destroy (of_nat i) s1) else Some s1);
       let cap2 = (caps (task_ipc_cap_table t s2) ! i)\<lparr>object_type := IPC_OBJ_NONE\<rparr>;
       Some (upd_cap_table t (set_cap i cap2) s2)
     })"

fun cleanup_slots :: "thread \<Rightarrow> nat list \<Rightarrow> 'a ipc_scheme \<Rightarrow> 'a ipc_scheme option" where
  "cleanup_slots t [] s = Some s"
| "cleanup_slots t (i # is) s = do { s' \<leftarrow> cleanup_slot t i s; cleanup_slots t is s' }"

definition sched_ipc_cleanup_thread :: "thread \<Rightarrow> 'a ipc_scheme \<Rightarrow> 'a ipc_scheme option" where
  "sched_ipc_cleanup_thread t s = do {
     s' \<leftarrow> cleanup_slots t [0..<IPC_CAP_MAX_PER_TASK] s;
     Some (s'\<lparr>g_thread_ipc_ext := (g_thread_ipc_ext s')[ext_index t := zero_ext]\<rparr>)
   }"

definition ipc_subsystem_init :: "'a ipc_scheme \<Rightarrow> 'a ipc_scheme" where
  "ipc_subsystem_init s =
    s\<lparr>g_thread_ipc_ext := replicate SCHED_MAX_THREADS zero_ext,
      g_namespace := initial_namespace,
      g_endpoints := map (\<lambda>i. zero_endpoint\<lparr>ep_state := IPC_STATE_DEAD, ep_id := of_nat i\<rparr>) [0..<IPC_MAX_ENDPOINTS],
      g_ports := map (\<lambda>i. zero_port\<lparr>port_state := IPC_STATE_DEAD, port_id := of_nat i\<rparr>) [0..<IPC_MAX_PORTS],
      g_shm := map (\<lambda>i. zero_shm\<lparr>shm_state := IPC_STATE_DEAD, shm_id := of_nat i\<rparr>) [0..<IPC_MAX_SHM]\<rparr>"

section \<open>Pools and the ring as instances of the interfaces\<close>

interpretation endpoint_pool: lazy_pool "\<lambda>ep. pool_free (ep_state ep)" "\<lambda>i _. new_endpoint i" ipc_alloc_endpoint
  by unfold_locales (auto simp: ipc_alloc_endpoint_def new_endpoint_def pool_free_def)

interpretation port_pool: lazy_pool "\<lambda>p. pool_free (port_state p)" "\<lambda>i _. new_port i" ipc_alloc_port
  by unfold_locales (auto simp: ipc_alloc_port_def new_port_def pool_free_def)

interpretation shm_pool: lazy_pool "\<lambda>m. pool_free (shm_state m)" "\<lambda>i _. new_shm i" ipc_alloc_shm
  by unfold_locales (auto simp: ipc_alloc_shm_def new_shm_def pool_free_def)

definition ring_ok :: "ipc_endpoint \<Rightarrow> bool" where
  "ring_ok ep \<longleftrightarrow> 0 < unat (ring_size ep) \<and> length (ring_mem ep) = unat (ring_size ep) \<and>
    unat (msg_count ep) \<le> unat (ring_size ep) \<and> unat (ep_tail ep) < unat (ring_size ep) \<and>
    unat (ep_head ep) = (unat (ep_tail ep) + unat (msg_count ep)) mod unat (ring_size ep)"

lemma ring_step:
  assumes "unat (h :: u32) < unat (n :: u32)"
  shows "unat ((h + 1) mod n) = (unat h + 1) mod unat n" "unat (h mod n) = unat h"
proof -
  have "unat h + 1 < 2 ^ 32" using assms u32_bound[of n] by simp
  then show "unat ((h + 1) mod n) = (unat h + 1) mod unat n"
    by (simp add: unat_mod unat_word_ariths)
  show "unat (h mod n) = unat h" using assms by (simp add: unat_mod)
qed

interpretation ep_ring: bounded_fifo ring_ok "\<lambda>ep. unat (ring_size ep)" ring_mem "\<lambda>ep. unat (ep_head ep)"
  "\<lambda>ep. unat (ep_tail ep)" "\<lambda>ep. unat (msg_count ep)" ring_push ring_pop
proof (unfold_locales, goal_cases)
  case (1 s)
  show ?case by (simp add: ring_ok_def)
next
  case (2 s x)
  then show ?case by (auto simp: ring_push_def ring_ok_def word_le_nat_alt)
next
  case (3 s x s')
  have "unat (ep_head s) < unat (ring_size s)" using 3(1) by (simp add: ring_ok_def)
  note st = ring_step[OF this]
  have "unat (msg_count s) < unat (ring_size s)"
    using 3 by (auto simp: ring_push_def word_le_nat_alt split: if_splits)
  then have "unat (msg_count s + 1) = unat (msg_count s) + 1"
    using u32_bound[of "ring_size s"] by (simp add: unat_word_ariths)
  then show ?case using 3(2) st by (auto simp: ring_push_def split: if_splits)
next
  case (4 s)
  then show ?case by (simp add: ring_pop_def unat_eq_0)
next
  case (5 s x s')
  have "unat (ep_tail s) < unat (ring_size s)" using 5(1) by (simp add: ring_ok_def)
  note st = ring_step[OF this]
  have "msg_count s \<noteq> 0" using 5(2) by (auto simp: ring_pop_def split: if_splits)
  then have "Suc (unat (msg_count s - 1)) = unat (msg_count s)" by (simp add: unat_minus_one unat_gt_0)
  then show ?case using 5(2) st by (auto simp: ring_pop_def split: if_splits)
qed

section \<open>Stored results\<close>

text \<open>A call that stores its result leaves the kernel as it made it.\<close>
declare user_store.simps(1) [simp del]

lemma user_store_SomeD: "user_store ok r = Some r' \<Longrightarrow> r' = r"
  by (cases "(ok, r)" rule: user_store.cases) (auto simp: user_store.simps split: if_splits)

lemma user_store_Some_iff [simp]:
  "user_store ok (Done v out, s) = Some r \<longleftrightarrow> r = (Done v out, s) \<and> (out = Out_none \<or> ok)"
  by (auto simp: user_store.simps)

lemma user_store_True [simp]: "user_store True r = Some r"
  by (cases "(True, r)" rule: user_store.cases) (auto simp: user_store.simps)

end
