(* ===== verification/Sage_ELF.thy ===== *)
theory Sage_ELF
  imports Sage_Timer Sage_Bytes
begin

text \<open>
  The ELF loader of \<^verbatim>\<open>kernel/fs/elf.c\<close>: validation of the header, loading of the segments and the initial
  stack of the program. The file is a list of bytes, and reading outside it is \<open>None\<close>. Kernel and programs
  share one address space, and the loader does not keep a segment away from the kernel: the memory
  the segments are loaded to is a function of the 64-bit address, \<open>kern\<close> are the ranges of that space
  which hold the kernel's image and its heap, and a segment that is copied over one of them is \<open>None\<close>.
  The bytes of the heap, in which file and stack are allocated, are those of its arena; \<open>hb\<close> is the
  address of the arena, which the linker chooses.
  The arrays \<^verbatim>\<open>argv_ptrs\<close> and \<^verbatim>\<open>envp_ptrs\<close> are allocated and freed, their contents are the lists of
  addresses. A stack that outgrows its block is \<open>None\<close>. The jump to the program is the result \<open>Exec_jump\<close>.

  Shown (in \<open>Sage_ELF_Props\<close>): what loading writes and that it stays in the permitted range when no segment
  has more bytes in the file than in memory, what happens otherwise, and that the program finds its
  arguments on a stack aligned to 16 bytes.
\<close>

unbundle bit_operations_syntax

section \<open>The file\<close>

definition ELF_VADDR_MIN :: u64 where "ELF_VADDR_MIN = 0x100000"
definition ELF_VADDR_MAX :: u64 where "ELF_VADDR_MAX = 0xFF000000"
definition PT_LOAD :: u32 where "PT_LOAD = 1"
definition ET_EXEC :: u16 where "ET_EXEC = 2"
definition sizeof_Ehdr :: nat where "sizeof_Ehdr = 64"
definition sizeof_Phdr :: nat where "sizeof_Phdr = 56"

fun e_machine :: "timer_arch \<Rightarrow> u16" where
  "e_machine TIMER_ARCH_X86 = 62"
| "e_machine TIMER_ARCH_ARM64 = 183"
| "e_machine TIMER_ARCH_RV64 = 243"

definition e_entry :: "u8 list \<Rightarrow> u64" where "e_entry d = le64 d 24"
definition e_phoff :: "u8 list \<Rightarrow> u64" where "e_phoff d = le64 d 32"
definition e_phnum :: "u8 list \<Rightarrow> u16" where "e_phnum d = le16 d 56"

record phdr =
  p_type :: u32
  p_offset :: u64
  p_vaddr :: u64
  p_filesz :: u64
  p_memsz :: u64

text \<open>The program header \<open>i\<close>.\<close>
definition phdr_at :: "u8 list \<Rightarrow> nat \<Rightarrow> phdr option" where
  "phdr_at d i =
    (let a = unat (e_phoff d) + sizeof_Phdr * i in
     if a + sizeof_Phdr \<le> length d
     then Some \<lparr>p_type = le32 d a, p_offset = le64 d (a + 8), p_vaddr = le64 d (a + 16),
       p_filesz = le64 d (a + 32), p_memsz = le64 d (a + 40)\<rparr>
     else None)"

definition elf_validate :: "timer_arch \<Rightarrow> u8 list \<Rightarrow> bool" where
  "elf_validate arch d \<longleftrightarrow>
    length d \<ge> sizeof_Ehdr \<and> take 4 d = [0x7F, 0x45, 0x4C, 0x46] \<and> d ! 4 = 2 \<and> d ! 5 = 1 \<and>
    le16 d 16 = ET_EXEC \<and> le16 d 18 = e_machine arch \<and> e_phoff d \<noteq> 0 \<and> e_phnum d \<noteq> 0"

section \<open>Segments\<close>

type_synonym memory = "u64 \<Rightarrow> u8"

text \<open>A range of addresses is its start and its size, modulo the size of the address space.\<close>
type_synonym range = "u64 \<times> u64"

definition in_range :: "range \<Rightarrow> u64 \<Rightarrow> bool" where
  "in_range r a \<longleftrightarrow> a - fst r < snd r"

text \<open>One of the ranges has an address in common with the \<open>n\<close> bytes at \<open>a\<close>.\<close>
definition meets :: "range list \<Rightarrow> u64 \<Rightarrow> u64 \<Rightarrow> bool" where
  "meets rs a n \<longleftrightarrow> n \<noteq> 0 \<and> list_ex (\<lambda>r. in_range r a \<or> snd r \<noteq> 0 \<and> fst r - a < n) rs"

text \<open>The two copying loops.\<close>
definition load_segment :: "range list \<Rightarrow> u8 list \<Rightarrow> phdr \<Rightarrow> memory \<Rightarrow> memory option" where
  "load_segment kern d ph m =
    (if p_filesz ph \<noteq> 0 \<and> unat (p_offset ph) + unat (p_filesz ph) > length d then None
     else if meets kern (p_vaddr ph) (max (p_filesz ph) (p_memsz ph)) then None
     else Some (\<lambda>a. let j = a - p_vaddr ph in
       if j < p_filesz ph then d ! (unat (p_offset ph) + unat j) else if j < p_memsz ph then 0 else m a))"

definition segment_allowed :: "phdr \<Rightarrow> bool" where
  "segment_allowed ph \<longleftrightarrow> \<not> (p_vaddr ph < ELF_VADDR_MIN \<or> p_vaddr ph + p_memsz ph > ELF_VADDR_MAX)"

fun load_segments :: "range list \<Rightarrow> u8 list \<Rightarrow> nat list \<Rightarrow> memory \<Rightarrow> (bool \<times> memory) option" where
  "load_segments kern d [] m = Some (True, m)"
| "load_segments kern d (i # is) m = do {
     ph \<leftarrow> phdr_at d i;
     if p_type ph \<noteq> PT_LOAD then load_segments kern d is m
     else if \<not> segment_allowed ph then Some (False, m)
     else do { m' \<leftarrow> load_segment kern d ph m; load_segments kern d is m' }
   }"

section \<open>The initial stack\<close>

text \<open>
  The strings of a vector are pushed from the last to the first; \<open>low\<close> is the start of the block. The
  result is the stack pointer, the memory and the addresses.
\<close>
fun push_strings :: "nat \<Rightarrow> string list \<Rightarrow> nat \<Rightarrow> (nat \<Rightarrow> u8) \<Rightarrow> nat list \<Rightarrow> (nat \<times> (nat \<Rightarrow> u8) \<times> nat list) option" where
  "push_strings low [] sp m ptrs = Some (sp, m, ptrs)"
| "push_strings low (x # xs) sp m ptrs =
    (if sp < low + length x + 1 then None
     else let sp' = sp - (length x + 1) in
       push_strings low xs sp' (store sp' (map of_char x @ [0]) m) (sp' # ptrs))"

fun store_words :: "nat \<Rightarrow> u64 list \<Rightarrow> (nat \<Rightarrow> u8) \<Rightarrow> nat \<Rightarrow> u8" where
  "store_words a [] m = m"
| "store_words a (v # vs) m = store_words (a + 8) vs (store a (bytes64 v) m)"

definition push_words :: "nat \<Rightarrow> u64 list \<Rightarrow> nat \<Rightarrow> (nat \<Rightarrow> u8) \<Rightarrow> (nat \<times> (nat \<Rightarrow> u8)) option" where
  "push_words low vs sp m =
    (if sp < low + 8 * length vs then None
     else Some (sp - 8 * length vs, store_words (sp - 8 * length vs) vs m))"

text \<open>The alignment of the stack pointer before the vectors are pushed.\<close>
definition align_sp :: "u64 \<Rightarrow> nat \<Rightarrow> nat \<Rightarrow> nat \<Rightarrow> nat" where
  "align_sp hb argc envc sp =
    (let sp1 = sp - unat ((hb + of_nat sp) AND 15);
         total_ptr_size = 8 + (argc + 1) * 8 + (envc + 1) * 8
     in if total_ptr_size mod 16 \<noteq> 0 then sp1 - 8 else sp1)"

definition build_stack :: "u64 \<Rightarrow> string list \<Rightarrow> string list \<Rightarrow> nat \<Rightarrow> nat \<Rightarrow> (nat \<Rightarrow> u8) \<Rightarrow> (nat \<times> (nat \<Rightarrow> u8)) option" where
  "build_stack hb argv envp low high m = do {
     (sp1, m1, envs) \<leftarrow> push_strings low (rev envp) high m [];
     (sp2, m2, args) \<leftarrow> push_strings low (rev argv) sp1 m1 [];
     let sp3 = align_sp hb (length argv) (length envp) sp2;
     (sp4, m4) \<leftarrow> push_words low (map (\<lambda>p. hb + of_nat p) envs @ [0]) sp3 m2;
     (sp5, m5) \<leftarrow> push_words low (map (\<lambda>p. hb + of_nat p) args @ [0]) sp4 m4;
     push_words low [of_nat (length argv)] sp5 m5
   }"

section \<open>Execution\<close>

datatype exec_result = Exec_error int | Exec_jump u64 u64

definition sage_alloc_ptrs :: "nat \<Rightarrow> 'a sched_scheme \<Rightarrow> (nat option \<times> 'a sched_scheme) option" where
  "sage_alloc_ptrs n = kmalloc (of_nat ((n + 1) * 8)) ALLOC_TAG_KERNEL"

text \<open>\<^verbatim>\<open>elf_exec\<close> of the file \<open>d\<close>; \<open>argv\<close> and \<open>envp\<close> are the strings of the vectors, none for a null pointer.\<close>
definition elf_exec ::
  "timer_arch \<Rightarrow> u64 \<Rightarrow> range list \<Rightarrow> u8 list \<Rightarrow> string list \<Rightarrow> string list \<Rightarrow> 'a sched_scheme \<Rightarrow> memory \<Rightarrow>
    (exec_result \<times> 'a sched_scheme \<times> memory) option" where
  "elf_exec arch hb kern d argv envp s m =
    (if \<not> elf_validate arch d then Some (Exec_error (-1), s, m)
     else do {
       (ok, m1) \<leftarrow> load_segments kern d [0..<unat (e_phnum d)] m;
       if \<not> ok then Some (Exec_error (-1), s, m1)
       else do {
         (argv_ptrs, s1) \<leftarrow> sage_alloc_ptrs (length argv) s;
         (envp_ptrs, s2) \<leftarrow> sage_alloc_ptrs (length envp) s1;
         (stack_mem, s3) \<leftarrow> kmalloc 65536 ALLOC_TAG_KERNEL s2;
         case stack_mem of
           None \<Rightarrow> Some (Exec_error (-1), s3, m1)
         | Some low \<Rightarrow>
             if envp_ptrs = None \<or> argv_ptrs = None then None
             else do {
               (sp, bs) \<leftarrow> build_stack hb argv envp low (low + 65536) (bytes (kheap s3));
               let s4 = s3\<lparr>kheap := (kheap s3)\<lparr>bytes := bs\<rparr>\<rparr>;
               s5 \<leftarrow> kfree envp_ptrs s4;
               s6 \<leftarrow> kfree argv_ptrs s5;
               Some (Exec_jump (hb + of_nat sp) (e_entry d), s6, m1)
             }
       }
     })"

text \<open>The span of the segments that \<^verbatim>\<open>sys_execve\<close> records: the lowest address and the end of the highest.\<close>
fun elf_span :: "u8 list \<Rightarrow> nat list \<Rightarrow> u64 \<times> u64 \<Rightarrow> (u64 \<times> u64) option" where
  "elf_span d [] r = Some r"
| "elf_span d (i # is) (lo, hi) = do {
     ph \<leftarrow> phdr_at d i;
     if p_type ph = PT_LOAD
     then elf_span d is (if p_vaddr ph < lo then p_vaddr ph else lo,
            if p_vaddr ph + p_memsz ph > hi then p_vaddr ph + p_memsz ph else hi)
     else elf_span d is (lo, hi)
   }"

end
