(* ===== verification/Sage_Syscall.thy ===== *)
theory Sage_Syscall
  imports Sage_IPC Sage_VFS Sage_ELF
begin

text \<open>
  The system calls of \<^verbatim>\<open>kernel/core/syscall.c\<close>, with \<^verbatim>\<open>sys_brk\<close> of \<^verbatim>\<open>kernel/core/mm.c\<close>, \<^verbatim>\<open>sys_execve\<close> of
  \<^verbatim>\<open>kernel/fs/elf.c\<close> and \<^verbatim>\<open>timer_delay_ms\<close> of \<^verbatim>\<open>kernel/core/sagelang/timer_bridge.c\<close>. The state of the kernel joins
  the scheduler, timer and IPC state, the file system, the memory that programs are loaded to, the
  console output, the log and the requests to the power controller.

  A call is \<open>None\<close> where the code dereferences a null pointer or waits for ever; otherwise it returns
  a value with what it stores through the user's pointers, or it blocks with the rest of the call
  (\<open>sys_resume\<close>), as in \<open>Sage_IPC\<close>. A null pointer of the caller is \<open>None\<close>. What the user's memory holds
  at an address, the uninitialised local variables \<^verbatim>\<open>st\<close> and \<^verbatim>\<open>entries\<close>, the bridge program of the
  VFS, the places of the kernel's image and of its heap in the address space, which programs share,
  and the machine are the environment \<open>sys_env\<close>. A copy to or from a program that runs into the kernel
  is \<open>None\<close>. The stack copy of \<^verbatim>\<open>sys_vfork\<close> and tracing messages
  on the console are left out.

  Shown (in \<open>Sage_Syscall_Props\<close>): the descriptor tables stay well-formed, descriptors and offsets
  behave as an independent table, what a confined task can reach, and what error codes look like to
  the caller.
\<close>

unbundle bit_operations_syntax

section \<open>State\<close>

datatype power_request = Power_reboot | Power_shutdown

record 'w kernel =
  core :: ipc
  files :: "'w vfs"
  umem :: memory
  console :: "u8 list"
  klogbuf :: dmesg
  power :: "power_request list"

record 'w sys_env =
  env_arch :: timer_arch
  env_bridge :: "'w vfs_bridge"
  env_kernel :: range
  env_heap :: u64
  env_clock :: "nat \<Rightarrow> u64"
  env_stat :: VfsStat
  env_dirents :: "VfsDirEntry list"
  env_msg :: "u64 \<Rightarrow> ipc_msg"
  env_str :: "u64 \<Rightarrow> string"
  env_bytes :: "u64 \<Rightarrow> nat \<Rightarrow> u8 list"
  env_strs :: "u64 \<Rightarrow> string list"
  env_timespec :: "u64 \<Rightarrow> int \<times> int"

record dirent =
  d_ino :: u64
  d_off :: nat
  d_reclen :: u16
  d_type :: u8
  d_name :: string

text \<open>What a call stores through the pointers of its caller.\<close>
datatype sys_out =
    Sys_none | Sys_bytes "u8 list" | Sys_stat u64 u32 | Sys_dirents "dirent list" | Sys_str string
  | Sys_time u64 u64 | Sys_tms u64 | Sys_status int | Sys_ipc ipc_out

datatype sys_cont = Cont_ipc ipc_cont | Cont_waitpid nat u32 bool | Cont_delay u64 | Cont_delay_irq u64

text \<open>
  The outcomes of a call: a value; blocking; the jump to a loaded program; the return of
  \<^verbatim>\<open>sys_vfork\<close>, which is 0 in the child, now running, and the child's identifier in the parent, when it runs
  again; the end of the calling thread.
\<close>
datatype sys_result = Ret int sys_out | Block sys_cont | Jump u64 u64 | Forked u32 | Exited

type_synonym 'w sys_call = "(sys_result \<times> 'w kernel) option"

definition sret :: "int \<Rightarrow> 'w kernel \<Rightarrow> 'w sys_call" where
  "sret r k = Some (Ret r Sys_none, k)"

definition wrap64 :: "int \<Rightarrow> int" where
  "wrap64 x = signed_take_bit 63 x"

definition the_task :: "'w kernel \<Rightarrow> nat option \<times> 'w kernel" where
  "the_task k = (case current_task (core k) of (c, s) \<Rightarrow> (c, k\<lparr>core := s\<rparr>))"

definition task_at :: "nat \<Rightarrow> 'w kernel \<Rightarrow> thread" where
  "task_at c k = g_tasks (core k) ! c"

definition set_task :: "nat \<Rightarrow> (thread \<Rightarrow> thread) \<Rightarrow> 'w kernel \<Rightarrow> 'w kernel" where
  "set_task c f k = k\<lparr>core := upd_task c f (core k)\<rparr>"

definition fd_at :: "nat \<Rightarrow> int \<Rightarrow> 'w kernel \<Rightarrow> fd_entry" where
  "fd_at c fd k = fd_table (task_at c k) ! nat fd"

definition set_fd :: "nat \<Rightarrow> int \<Rightarrow> (fd_entry \<Rightarrow> fd_entry) \<Rightarrow> 'w kernel \<Rightarrow> 'w kernel" where
  "set_fd c fd f k = set_task c (\<lambda>t. t\<lparr>fd_table := (fd_table t)[nat fd := f (fd_table t ! nat fd)]\<rparr>) k"

text \<open>\<^verbatim>\<open>fd >= 0 && fd < MAX_FD && t->fd_table[fd].valid\<close>.\<close>
definition fd_valid :: "nat \<Rightarrow> int \<Rightarrow> 'w kernel \<Rightarrow> bool" where
  "fd_valid c fd k \<longleftrightarrow> 0 \<le> fd \<and> fd < int MAX_FD \<and> valid (fd_at c fd k)"

definition security_log :: "'w sys_env \<Rightarrow> string \<Rightarrow> 'w kernel \<Rightarrow> 'w kernel" where
  "security_log env msg k = k\<lparr>klogbuf := dmesg_log (env_clock env) (Some msg) (klogbuf k)\<rparr>"

definition denied :: "'w sys_env \<Rightarrow> string \<Rightarrow> 'w kernel \<Rightarrow> 'w sys_call" where
  "denied env msg k = sret (- VFS_EACCES) (security_log env msg k)"

definition poll :: "'w sys_env \<Rightarrow> ipc \<Rightarrow> ipc option" where
  "poll env = timer_idle_poll (env_arch env)"

section \<open>Capabilities for paths\<close>

definition PERM_SYS_REBOOT :: u32 where "PERM_SYS_REBOOT = 1"
definition PERM_VFS_CAP_ONLY :: u32 where "PERM_VFS_CAP_ONLY = 32"

text \<open>The body of the loop over the slots.\<close>
definition cap_grants :: "string \<Rightarrow> u32 \<Rightarrow> ipc_capability \<Rightarrow> bool" where
  "cap_grants path required cap \<longleftrightarrow>
    ipc_cap_is_valid cap \<and> (object_type cap = IPC_OBJ_DIR \<or> object_type cap = IPC_OBJ_FILE) \<and>
    rights cap AND required \<noteq> 0 \<and>
    (let n = length (cap_path cap) in
     sage_strncmp path (cap_path cap) n = 0 \<and>
     (if object_type cap = IPC_OBJ_DIR
      then n = length path \<or> path ! n = CHR ''/'' \<or> sage_strcmp (cap_path cap) ''/'' = 0
      else sage_strcmp path (cap_path cap) = 0))"

definition task_has_vfs_cap :: "nat option \<Rightarrow> string \<Rightarrow> u32 \<Rightarrow> 'w kernel \<Rightarrow> bool" where
  "task_has_vfs_cap c path required k =
    (case c of
       None \<Rightarrow> False
     | Some i \<Rightarrow>
         permissions (task_at i k) AND PERM_VFS_CAP_ONLY = 0 \<or>
         (\<exists>cap\<in>set (take IPC_CAP_MAX_PER_TASK (caps (task_ipc_cap_table (task_at i k) (core k)))). cap_grants path required cap))"

section \<open>Files\<close>

definition safe_strnlen :: "string option \<Rightarrow> nat \<Rightarrow> nat" where
  "safe_strnlen s maxlen = (case s of None \<Rightarrow> 0 | Some x \<Rightarrow> min (length x) maxlen)"

definition sys_write :: "'w sys_env \<Rightarrow> int \<Rightarrow> u8 list option \<Rightarrow> 'w kernel \<Rightarrow> 'w sys_call" where
  "sys_write env fd buf k0 =
    (case (the_task k0, buf) of
       ((_, k), None) \<Rightarrow> sret (- VFS_EINVAL) k
     | ((t, k), Some data) \<Rightarrow>
         if fd = 1 \<or> fd = 2 then sret (int (length data)) (k\<lparr>console := console k @ data\<rparr>)
         else case t of
             None \<Rightarrow> sret (- VFS_EINVAL) k
           | Some c \<Rightarrow>
               if \<not> fd_valid c fd k then sret (- VFS_EINVAL) k
               else if \<not> task_has_vfs_cap t (fd_path (fd_at c fd k)) IPC_CAP_RIGHT_VFS_WRITE k
               then denied env ''SECURITY: Denied VFS write access (no capability)'' k
               else do {
                 (r, v) \<leftarrow> vfs_write (env_bridge env) (fd_path (fd_at c fd k)) (word_of_int (offset (fd_at c fd k))) data (files k);
                 let k1 = k\<lparr>files := v\<rparr>;
                 sret r (if r \<ge> 0 then set_fd c fd (offset_update (\<lambda>o1. wrap64 (o1 + r))) k1 else k1)
               })"

text \<open>\<open>nonnull\<close> says that the buffer is not a null pointer.\<close>
definition sys_read :: "'w sys_env \<Rightarrow> int \<Rightarrow> bool \<Rightarrow> u64 \<Rightarrow> 'w kernel \<Rightarrow> 'w sys_call" where
  "sys_read env fd nonnull count k0 =
    (case the_task k0 of (t, k) \<Rightarrow>
       if \<not> nonnull then sret (- VFS_EINVAL) k
       else case t of
           None \<Rightarrow> sret (- VFS_EINVAL) k
         | Some c \<Rightarrow>
             if \<not> fd_valid c fd k then sret (- VFS_EINVAL) k
             else if fd = 0 then sret 0 k
             else if \<not> task_has_vfs_cap t (fd_path (fd_at c fd k)) IPC_CAP_RIGHT_VFS_READ k
             then denied env ''SECURITY: Denied VFS read access (no capability)'' k
             else do {
               (r, v) \<leftarrow> vfs_read (env_bridge env) (fd_path (fd_at c fd k)) (word_of_int (offset (fd_at c fd k))) count (files k);
               let k1 = k\<lparr>files := v\<rparr>;
               case r of
                 Inl e \<Rightarrow> sret e k1
               | Inr bs \<Rightarrow> Some (Ret (int (length bs)) (Sys_bytes bs),
                   set_fd c fd (offset_update (\<lambda>o1. wrap64 (o1 + int (length bs)))) k1)
             })"

definition O_WRONLY :: u32 where "O_WRONLY = 1"
definition O_RDWR :: u32 where "O_RDWR = 2"
definition O_CREAT :: u32 where "O_CREAT = 0x40"
definition O_EXCL :: u32 where "O_EXCL = 0x80"
definition O_TRUNC :: u32 where "O_TRUNC = 0x200"
definition O_APPEND :: u32 where "O_APPEND = 0x400"

text \<open>The first free descriptor above the standard ones.\<close>
definition free_fd :: "fd_entry list \<Rightarrow> nat option" where
  "free_fd fds = find (\<lambda>i. \<not> valid (fds ! i)) [3..<MAX_FD]"

definition open_fd :: "string \<Rightarrow> u32 \<Rightarrow> VfsStat \<Rightarrow> nat \<Rightarrow> 'w kernel \<Rightarrow> 'w sys_call" where
  "open_fd path flags st c k =
    (case free_fd (fd_table (task_at c k)) of
       None \<Rightarrow> sret (- VFS_ENOSPC) k
     | Some fd \<Rightarrow> sret (int fd) (set_fd c (int fd) (\<lambda>e. e\<lparr>valid := True, fd_path := take VFS_MAX_PATH path, fd_flags := flags,
         offset := if flags AND O_APPEND \<noteq> 0 then sint (st_size st) else 0\<rparr>) k))"

definition sys_open :: "'w sys_env \<Rightarrow> string option \<Rightarrow> u32 \<Rightarrow> 'w kernel \<Rightarrow> 'w sys_call" where
  "sys_open env path flags k0 =
    (case (the_task k0, path) of
       ((_, k), None) \<Rightarrow> sret (- VFS_EINVAL) k
     | ((t, k), Some p) \<Rightarrow>
         if safe_strnlen path 1024 \<ge> VFS_MAX_PATH then sret (- VFS_EINVAL) k
         else case t of
             None \<Rightarrow> sret (- VFS_EINVAL) k
           | Some c \<Rightarrow>
               let required = (if flags AND (O_WRONLY OR O_RDWR OR O_CREAT OR O_TRUNC) \<noteq> 0
                               then IPC_CAP_RIGHT_VFS_WRITE else IPC_CAP_RIGHT_VFS_READ) in
               if \<not> task_has_vfs_cap t p required k
               then denied env ''SECURITY: Denied VFS open access (no capability)'' k
               else do {
                 ((r, st), v) \<leftarrow> vfs_stat (env_bridge env) p (env_stat env) (files k);
                 let k1 = k\<lparr>files := v\<rparr>;
                 if r < 0 then
                   if flags AND O_CREAT \<noteq> 0 then do {
                     (r', v') \<leftarrow> vfs_create (env_bridge env) p (files k1);
                     if r' < 0 then sret r' (k1\<lparr>files := v'\<rparr>) else open_fd p flags st c (k1\<lparr>files := v'\<rparr>)
                   }
                   else sret (- VFS_ENOENT) k1
                 else if flags AND O_CREAT \<noteq> 0 \<and> flags AND O_EXCL \<noteq> 0 then sret (- VFS_EEXIST) k1
                 else if flags AND O_TRUNC \<noteq> 0 \<and> st_type st = VFS_FILE then do {
                   (_, v') \<leftarrow> vfs_create (env_bridge env) p (files k1);
                   open_fd p flags st c (k1\<lparr>files := v'\<rparr>)
                 }
                 else open_fd p flags st c k1
               })"

text \<open>A call that starts with the test of a descriptor.\<close>
definition with_fd :: "int \<Rightarrow> (nat \<Rightarrow> 'w kernel \<Rightarrow> 'w sys_call) \<Rightarrow> 'w kernel \<Rightarrow> 'w sys_call" where
  "with_fd fd f k0 =
    (case the_task k0 of
       (None, k) \<Rightarrow> sret (- VFS_EINVAL) k
     | (Some c, k) \<Rightarrow> if fd_valid c fd k then f c k else sret (- VFS_EINVAL) k)"

definition sys_close :: "int \<Rightarrow> 'w kernel \<Rightarrow> 'w sys_call" where
  "sys_close fd = with_fd fd (\<lambda>c k. sret 0 (set_fd c fd (valid_update (\<lambda>_. False)) k))"

definition sys_lseek :: "'w sys_env \<Rightarrow> int \<Rightarrow> int \<Rightarrow> int \<Rightarrow> 'w kernel \<Rightarrow> 'w sys_call" where
  "sys_lseek env fd off whence = with_fd fd (\<lambda>c k.
     let seek = (\<lambda>o1 k'. sret o1 (set_fd c fd (offset_update (\<lambda>_. o1)) k')) in
     if whence = 0 then seek off k
     else if whence = 1 then seek (wrap64 (offset (fd_at c fd k) + off)) k
     else if whence = 2 then do {
       ((r, st), v) \<leftarrow> vfs_stat (env_bridge env) (fd_path (fd_at c fd k)) (env_stat env) (files k);
       if r = 0 then seek (sint (st_size st + word_of_int off)) (k\<lparr>files := v\<rparr>) else sret (- VFS_EIO) (k\<lparr>files := v\<rparr>)
     }
     else sret (- VFS_EINVAL) k)"

definition sys_fstat :: "'w sys_env \<Rightarrow> int \<Rightarrow> bool \<Rightarrow> 'w kernel \<Rightarrow> 'w sys_call" where
  "sys_fstat env fd nonnull k0 =
    (if \<not> nonnull then sret (- VFS_EINVAL) (snd (the_task k0))
     else with_fd fd (\<lambda>c k. do {
       ((r, st), v) \<leftarrow> vfs_stat (env_bridge env) (fd_path (fd_at c fd k)) (env_stat env) (files k);
       if r < 0 then sret (- VFS_EIO) (k\<lparr>files := v\<rparr>)
       else Some (Ret 0 (Sys_stat (st_size st) (if st_type st = VFS_DIRECTORY then 0x41ED else 0x81A4)), k\<lparr>files := v\<rparr>)
     }) k0)"

text \<open>A call on a path that needs the right to write there.\<close>
definition path_call :: "('w vfs_bridge \<Rightarrow> string \<Rightarrow> 'w vfs \<Rightarrow> (int \<times> 'w vfs) option) \<Rightarrow> string \<Rightarrow>
    'w sys_env \<Rightarrow> string option \<Rightarrow> 'w kernel \<Rightarrow> 'w sys_call" where
  "path_call f msg env path k0 =
    (case (the_task k0, path) of
       ((_, k), None) \<Rightarrow> sret (- VFS_EINVAL) k
     | ((t, k), Some p) \<Rightarrow>
         if safe_strnlen path 1024 \<ge> VFS_MAX_PATH then sret (- VFS_EINVAL) k
         else if \<not> task_has_vfs_cap t p IPC_CAP_RIGHT_VFS_WRITE k then denied env msg k
         else do { (r, v) \<leftarrow> f (env_bridge env) p (files k); sret r (k\<lparr>files := v\<rparr>) })"

definition sys_unlink :: "'w sys_env \<Rightarrow> string option \<Rightarrow> 'w kernel \<Rightarrow> 'w sys_call" where
  "sys_unlink = path_call vfs_unlink ''SECURITY: Denied VFS unlink access (no capability)''"

definition sys_mkdir :: "'w sys_env \<Rightarrow> string option \<Rightarrow> 'w kernel \<Rightarrow> 'w sys_call" where
  "sys_mkdir = path_call vfs_mkdir ''SECURITY: Denied VFS mkdir access (no capability)''"

definition reclen :: "string \<Rightarrow> nat" where
  "reclen nm = (8 + 8 + 2 + 1 + length nm + 1 + 7) div 8 * 8"

text \<open>The records of the entries from number \<open>i\<close> on, and the total size.\<close>
fun fill_dirents :: "nat \<Rightarrow> VfsDirEntry list \<Rightarrow> nat \<Rightarrow> nat \<Rightarrow> dirent list \<times> nat" where
  "fill_dirents i [] total_size count = ([], total_size)"
| "fill_dirents i (e # es) total_size count =
    (let r = reclen (de_name e) in
     if total_size + r > count then ([], total_size)
     else case fill_dirents (Suc i) es (total_size + r) count of (ds, n) \<Rightarrow>
       (\<lparr>d_ino = of_nat i + 1, d_off = total_size + r, d_reclen = of_nat r,
          d_type = (if de_type e = VFS_DIRECTORY then 4 else 8), d_name = de_name e\<rparr> # ds, n))"

definition sys_getdents64 :: "'w sys_env \<Rightarrow> int \<Rightarrow> bool \<Rightarrow> u64 \<Rightarrow> 'w kernel \<Rightarrow> 'w sys_call" where
  "sys_getdents64 env fd nonnull count k0 =
    (if \<not> nonnull then sret (- VFS_EINVAL) (snd (the_task k0))
     else with_fd fd (\<lambda>c k.
       if \<not> task_has_vfs_cap (Some c) (fd_path (fd_at c fd k)) IPC_CAP_RIGHT_VFS_READ k
       then denied env ''SECURITY: Denied VFS getdents64 access (no capability)'' k
       else do {
         ((n, entries), v) \<leftarrow> vfs_readdir (env_bridge env) (fd_path (fd_at c fd k)) (env_dirents env) VFS_DIRENT_MAX (files k);
         let k1 = k\<lparr>files := v\<rparr>;
         if n < 0 then sret n k1
         else if nat n > length entries then None
         else case fill_dirents 0 (take (nat n) entries) 0 (unat count) of (ds, total_size) \<Rightarrow>
           Some (Ret (int total_size) (Sys_dirents ds), k1)
       }) k0)"

text \<open>\<open>buf\<close> is the address of the buffer.\<close>
definition sys_getcwd :: "u64 \<Rightarrow> u64 \<Rightarrow> 'w kernel \<Rightarrow> 'w sys_call" where
  "sys_getcwd buf n k0 =
    (case the_task k0 of (t, k) \<Rightarrow>
       if buf = 0 then sret (- VFS_EINVAL) k
       else case t of
           None \<Rightarrow> sret (- VFS_EINVAL) k
         | Some c \<Rightarrow>
             if safe_strnlen (Some (cwd (task_at c k))) 256 \<ge> unat n then sret (- VFS_ENOSPC) k
             else Some (Ret (sint buf) (Sys_str (cwd (task_at c k))), k))"

definition sys_chdir :: "'w sys_env \<Rightarrow> string option \<Rightarrow> 'w kernel \<Rightarrow> 'w sys_call" where
  "sys_chdir env path k0 =
    (case (the_task k0, path) of
       ((_, k), None) \<Rightarrow> sret (- VFS_EINVAL) k
     | ((t, k), Some p) \<Rightarrow>
         if safe_strnlen path 1024 \<ge> VFS_MAX_PATH then sret (- VFS_EINVAL) k
         else case t of
             None \<Rightarrow> sret (- VFS_EINVAL) k
           | Some c \<Rightarrow>
               if \<not> task_has_vfs_cap t p IPC_CAP_RIGHT_VFS_READ k
               then denied env ''SECURITY: Denied VFS chdir access (no capability)'' k
               else do {
                 ((r, st), v) \<leftarrow> vfs_stat (env_bridge env) p (env_stat env) (files k);
                 let k1 = k\<lparr>files := v\<rparr>;
                 if r < 0 then sret (- VFS_ENOENT) k1
                 else if st_type st \<noteq> VFS_DIRECTORY then sret (- VFS_ENOTDIR) k1
                 else sret 0 (set_task c (cwd_update (\<lambda>_. take 255 p)) k1)
               })"

definition sys_dup2 :: "int \<Rightarrow> int \<Rightarrow> 'w kernel \<Rightarrow> 'w sys_call" where
  "sys_dup2 oldfd newfd = with_fd oldfd (\<lambda>c k.
     if newfd < 0 \<or> newfd \<ge> int MAX_FD then sret (- VFS_EINVAL) k
     else sret newfd (set_fd c newfd (\<lambda>_. fd_at c oldfd k) k))"

section \<open>Time\<close>

definition sys_gettimeofday :: "bool \<Rightarrow> 'w kernel \<Rightarrow> 'w sys_call" where
  "sys_gettimeofday nonnull k =
    (if \<not> nonnull then sret (- VFS_EINVAL) k
     else Some (Ret 0 (Sys_time (timer_seconds (core k)) (timer_ticks (core k) mod 100 * 10000)), k))"

definition sys_times :: "bool \<Rightarrow> 'w kernel \<Rightarrow> 'w sys_call" where
  "sys_times nonnull k =
    (if \<not> nonnull then sret (- VFS_EINVAL) k
     else Some (Ret (sint (timer_ticks (core k))) (Sys_tms (timer_ticks (core k))), k))"

text \<open>The value the loop of \<^verbatim>\<open>timer_delay_ms\<close> compares with its target.\<close>
fun delay_clock :: "timer_arch \<Rightarrow> 'a timer_scheme \<Rightarrow> u64 \<times> 'a timer_scheme" where
  "delay_clock TIMER_ARCH_X86 s = (timer_ticks s, s)"
| "delay_clock _ s = arch_timer_count s"

fun delay_target :: "timer_arch \<Rightarrow> u32 \<Rightarrow> 'a timer_scheme \<Rightarrow> u64 \<times> 'a timer_scheme" where
  "delay_target TIMER_ARCH_X86 ms s = (timer_ticks s + ucast (ms div (1000 div ucast PIT_HZ)) + 1, s)"
| "delay_target _ ms s = (case arch_timer_count s of (c, s') \<Rightarrow> (c + g_timer_freq s' div 1000 * ucast ms, s'))"

text \<open>The end of a round: the yield, after which the call goes on.\<close>
definition delay_yield :: "'w sys_env \<Rightarrow> u64 \<Rightarrow> ipc \<Rightarrow> 'w kernel \<Rightarrow> 'w sys_call" where
  "delay_yield env target s k = do {
     s' \<leftarrow> sched_yield (poll env) s;
     Some (Block (Cont_delay target), k\<lparr>core := s'\<rparr>)
   }"

text \<open>
  One round of the loop: the test, the poll on x86, and the yield. A poll that finds the interval elapsed
  runs \<^verbatim>\<open>timer_irq\<close>, whose own yield switches threads before the interrupt routine is over
  (\<open>Cont_delay_irq\<close>); the halt of the watchdog does not return.
\<close>
definition delay_round :: "'w sys_env \<Rightarrow> u64 \<Rightarrow> 'w kernel \<Rightarrow> 'w sys_call" where
  "delay_round env target k =
    (case delay_clock (env_arch env) (core k) of (c, s) \<Rightarrow>
       if c \<ge> target then sret 0 (k\<lparr>core := s\<rparr>)
       else if env_arch env = TIMER_ARCH_X86 then
         (case timer_due (env_arch env) s of
            (False, s1) \<Rightarrow> delay_yield env target s1 k
          | (True, s1) \<Rightarrow>
              (case sched_timer_tick (poll env) (timer_irq_enter (env_arch env) s1) of
                 Some (Inr s2) \<Rightarrow> Some (Block (Cont_delay_irq target), k\<lparr>core := s2\<rparr>)
               | _ \<Rightarrow> None))
       else delay_yield env target s k)"

text \<open>\<open>req\<close> holds the seconds and nanoseconds.\<close>
definition sys_nanosleep :: "'w sys_env \<Rightarrow> (int \<times> int) option \<Rightarrow> 'w kernel \<Rightarrow> 'w sys_call" where
  "sys_nanosleep env req k =
    (case req of
       None \<Rightarrow> sret (- VFS_EINVAL) k
     | Some (sec, nsec) \<Rightarrow>
         let ms = word_of_int (sec * 1000 + sgn nsec * (\<bar>nsec\<bar> div 1000000)) :: u32 in
         case delay_target (env_arch env) ms (core k) of (target, s) \<Rightarrow> delay_round env target (k\<lparr>core := s\<rparr>))"

section \<open>Processes\<close>

definition sys_brk :: "u64 \<Rightarrow> 'w kernel \<Rightarrow> 'w sys_call" where
  "sys_brk addr k0 =
    (case the_task k0 of
       (None, k) \<Rightarrow> sret (-1) k
     | (Some c, k) \<Rightarrow>
         if addr = 0 then sret (sint (heap_end (task_at c k))) k
         else if addr < heap_base (task_at c k) \<or> addr > heap_limit (task_at c k) then sret VFS_EINVAL k
         else sret (sint addr) (set_task c (heap_end_update (\<lambda>_. addr)) k))"

definition sys_vfork :: "'w kernel \<Rightarrow> 'w sys_call" where
  "sys_vfork k0 =
    (case the_task k0 of
       (None, k) \<Rightarrow> None
     | (Some c, k) \<Rightarrow> do {
         (child, s) \<leftarrow> sched_create_thread ''vfork_child'' 0 0 (priority (task_at c k)) (core k);
         let k1 = k\<lparr>core := s\<rparr>;
         case child of
           None \<Rightarrow> sret (- VFS_ENOSPC) k1
         | Some j \<Rightarrow>
             let p = task_at c k1;
                 k2 = set_task j (\<lambda>t. t\<lparr>parent := Some c, fd_table := fd_table p, heap_base := heap_base p,
                        heap_limit := heap_limit p, heap_end := heap_end p\<rparr>) k1;
                 k3 = set_task c (state_update (\<lambda>_. THREAD_STATE_BLOCKED)) k2;
                 k4 = k3\<lparr>core := (core k3)\<lparr>g_current_task := Some j\<rparr>\<rparr>
             in Some (Forked (tid (task_at j k4)), set_task j (state_update (\<lambda>_. THREAD_STATE_RUNNING)) k4)
       })"

text \<open>One round of the loop of \<^verbatim>\<open>sys_waitpid\<close>; \<open>t\<close> is the thread that waits.\<close>
definition waitpid_round :: "'w sys_env \<Rightarrow> nat option \<Rightarrow> u32 \<Rightarrow> bool \<Rightarrow> 'w kernel \<Rightarrow> 'w sys_call" where
  "waitpid_round env t pid want_status k =
    (case sched_get_thread_by_id pid (core k) of
       None \<Rightarrow> sret (- VFS_EINVAL) k
     | Some j \<Rightarrow>
         if state (task_at j k) = THREAD_STATE_TERMINATED then do {
           s \<leftarrow> sched_ipc_cleanup_thread (task_at j k) (core k);
           Some (Ret (sint pid) (if want_status then Sys_status (exit_code (task_at j k)) else Sys_none),
             set_task j (state_update (\<lambda>_. THREAD_STATE_UNUSED)) (k\<lparr>core := s\<rparr>))
         }
         else do {
           c \<leftarrow> t;
           s \<leftarrow> sched_schedule (poll env) (core (set_task c (state_update (\<lambda>_. THREAD_STATE_BLOCKED)) k));
           Some (Block (Cont_waitpid c pid want_status), k\<lparr>core := s\<rparr>)
         })"

definition sys_waitpid :: "'w sys_env \<Rightarrow> u32 \<Rightarrow> bool \<Rightarrow> 'w kernel \<Rightarrow> 'w sys_call" where
  "sys_waitpid env pid want_status k0 =
    (case the_task k0 of (t, k) \<Rightarrow> waitpid_round env t pid want_status k)"

text \<open>The addresses that hold the kernel: its image and the arena of its heap.\<close>
definition kernel_ranges :: "'w sys_env \<Rightarrow> range list" where
  "kernel_ranges env = [env_kernel env, (env_heap env, of_nat SAGE_ARENA_SIZE)]"

text \<open>The copy of a saved program back to its place.\<close>
definition restore_image :: "'w sys_env \<Rightarrow> thread \<Rightarrow> nat \<Rightarrow> (nat \<Rightarrow> u8) \<Rightarrow> memory \<Rightarrow> memory option" where
  "restore_image env p q bs m =
    (if meets (kernel_ranges env) (elf_base p) (elf_size p) then None
     else Some (\<lambda>a. let j = a - elf_base p in if j < elf_size p then bs (q + unat j) else m a))"

text \<open>The program of the parent, put back from where \<^verbatim>\<open>sys_execve\<close> saved it.\<close>
definition restore_parent :: "'w sys_env \<Rightarrow> nat \<Rightarrow> 'w kernel \<Rightarrow> 'w kernel option" where
  "restore_parent env c k =
    (case parent (task_at c k) of
       None \<Rightarrow> Some k
     | Some p \<Rightarrow>
         (case saved_elf_data (task_at p k) of
            None \<Rightarrow> Some k
          | Some q \<Rightarrow> do {
              m \<leftarrow> restore_image env (task_at p k) q (bytes (kheap (core k))) (umem k);
              s \<leftarrow> kfree (Some q) (core k);
              Some (set_task p (saved_elf_data_update (\<lambda>_. None)) (k\<lparr>core := s, umem := m\<rparr>))
            }))"

definition sys_exit :: "'w sys_env \<Rightarrow> int \<Rightarrow> 'w kernel \<Rightarrow> 'w sys_call" where
  "sys_exit env code k0 =
    (case the_task k0 of
       (None, k) \<Rightarrow> None
     | (Some c, k) \<Rightarrow> do {
         k' \<leftarrow> restore_parent env c (set_task c (exit_code_update (\<lambda>_. code)) k);
         s \<leftarrow> sched_exit (poll env) (core k');
         Some (Exited, k'\<lparr>core := s\<rparr>)
       })"

text \<open>The bytes of the block at \<open>a\<close>.\<close>
definition block_room :: "heap \<Rightarrow> nat \<Rightarrow> u64" where
  "block_room h a = (case headers h (a - ALLOC_HEADER_SIZE) of None \<Rightarrow> 0 | Some (v, _) \<Rightarrow> v)"

text \<open>
  The image of the parent, saved before the program of a child of \<^verbatim>\<open>vfork\<close> is loaded over it. The allocator may
  grant a block that is too small when the size wraps; the copy then leaves the block.
\<close>
definition save_parent :: "'w sys_env \<Rightarrow> nat \<Rightarrow> 'w kernel \<Rightarrow> 'w kernel option" where
  "save_parent env c k =
    (case parent (task_at c k) of
       None \<Rightarrow> Some k
     | Some p \<Rightarrow>
         if elf_size (task_at p k) > 0 \<and> saved_elf_data (task_at p k) = None then do {
           (q, s) \<leftarrow> kmalloc (elf_size (task_at p k)) ALLOC_TAG_KERNEL (core k);
           s1 \<leftarrow> (case q of
               None \<Rightarrow> Some s
             | Some a \<Rightarrow>
                 if block_room (kheap s) a < elf_size (task_at p k) \<or>
                   meets (kernel_ranges env) (elf_base (task_at p k)) (elf_size (task_at p k)) then None
                 else Some (s\<lparr>kheap := (kheap s)\<lparr>bytes := \<lambda>i.
                   if a \<le> i \<and> i < a + unat (elf_size (task_at p k)) then umem k (elf_base (task_at p k) + of_nat (i - a))
                   else bytes (kheap s) i\<rparr>\<rparr>));
           Some (set_task p (saved_elf_data_update (\<lambda>_. q)) (k\<lparr>core := s1\<rparr>))
         }
         else Some k)"

text \<open>The span of the program in the file \<open>d\<close>, recorded without validating the file.\<close>
definition record_span :: "nat \<Rightarrow> u8 list \<Rightarrow> 'w kernel \<Rightarrow> 'w kernel option" where
  "record_span c d k =
    (if length d < 58 then None
     else do {
       (lo, hi) \<leftarrow> elf_span d [0..<unat (e_phnum d)] (- 1, 0);
       let base = (hi + 4095) AND NOT 4095;
       Some (set_task c (\<lambda>t. t\<lparr>elf_base := lo, elf_size := hi - lo, heap_base := base, heap_end := base,
         heap_limit := base + 64 * 1024 * 1024\<rparr>) k)
     })"

text \<open>The rest of \<^verbatim>\<open>sys_execve\<close> once the file is in the buffer.\<close>
definition exec_image :: "'w sys_env \<Rightarrow> nat option \<Rightarrow> u8 list \<Rightarrow> string list \<Rightarrow> string list \<Rightarrow> 'w kernel \<Rightarrow> 'w sys_call" where
  "exec_image env buffer file argv envp k0 = do {
     k1 \<leftarrow> (case the_task k0 of
         (None, k) \<Rightarrow> Some k
       | (Some c, k) \<Rightarrow> do { k' \<leftarrow> save_parent env c k; record_span c file k' });
     (result, s, m) \<leftarrow> elf_exec (env_arch env) (env_heap env) (kernel_ranges env) file argv envp (core k1) (umem k1);
     let k2 = k1\<lparr>core := s, umem := m\<rparr>;
     case result of
       Exec_error e \<Rightarrow> do { s' \<leftarrow> kfree buffer (core k2); sret e (k2\<lparr>core := s'\<rparr>) }
     | Exec_jump sp ent \<Rightarrow> Some (Jump sp ent, k2)
   }"

text \<open>A file whose size wraps in the allocator is read past the end of its buffer.\<close>
definition sys_execve :: "'w sys_env \<Rightarrow> string \<Rightarrow> string list \<Rightarrow> string list \<Rightarrow> 'w kernel \<Rightarrow> 'w sys_call" where
  "sys_execve env path argv envp k = do {
     ((r, st), v) \<leftarrow> vfs_stat (env_bridge env) path (env_stat env) (files k);
     let k1 = k\<lparr>files := v\<rparr>;
     if r < 0 then sret (- VFS_ENOENT) k1
     else do {
       (buffer, s) \<leftarrow> kmalloc (st_size st) ALLOC_TAG_KERNEL (core k1);
       let k2 = k1\<lparr>core := s\<rparr>;
       if buffer = None then sret (- VFS_ENOSPC) k2
       else do {
         (res, v') \<leftarrow> vfs_read (env_bridge env) path 0 (st_size st) (files k2);
         let data = (case res of Inl _ \<Rightarrow> [] | Inr bs \<Rightarrow> bs);
         _ \<leftarrow> (if unat (block_room (kheap (core k2)) (the buffer)) < length data then None else Some ());
         let s1 = (core k2)\<lparr>kheap := (kheap (core k2))\<lparr>bytes := store (the buffer) data (bytes (kheap (core k2)))\<rparr>\<rparr>;
         let k3 = k2\<lparr>files := v', core := s1\<rparr>;
         if (case res of Inl e \<Rightarrow> e | Inr bs \<Rightarrow> int (length bs)) \<noteq> sint (ucast (st_size st) :: u32)
         then do { s2 \<leftarrow> kfree buffer (core k3); sret (- VFS_EIO) (k3\<lparr>core := s2\<rparr>) }
         else exec_image env buffer (data @ replicate (unat (st_size st) - length data) 0) argv envp k3
       }
     }
   }"

text \<open>
  A task that runs a script (\<^verbatim>\<open>n_os_spawn_task\<close> of \<^verbatim>\<open>sagelang/sageos_bridge.c\<close>): it may reach files through
  capabilities only and starts with those of the thread that spawns it; \<open>ent\<close> is the address of \<^verbatim>\<open>sage_task_entry\<close>.
\<close>
definition spawn_task :: "'w sys_env \<Rightarrow> u64 \<Rightarrow> string \<Rightarrow> string \<Rightarrow> 'w kernel \<Rightarrow> (int \<times> 'w kernel) option" where
  "spawn_task env ent nm script_path k = do {
     (path_copy, s) \<leftarrow> kmalloc (of_nat (length script_path + 1)) ALLOC_TAG_KERNEL (core k);
     case path_copy of
       None \<Rightarrow> Some (-2, k\<lparr>core := s\<rparr>)
     | Some a \<Rightarrow> do {
         let s1 = s\<lparr>kheap := (kheap s)\<lparr>bytes := store a (map of_char script_path @ [0]) (bytes (kheap s))\<rparr>\<rparr>;
         (t, s2) \<leftarrow> sched_create_thread nm ent (env_heap env + of_nat a) THREAD_PRIORITY_NORMAL s1;
         case t of
           None \<Rightarrow> do { s3 \<leftarrow> kfree path_copy s2; Some (-3, k\<lparr>core := s3\<rparr>) }
         | Some j \<Rightarrow>
             let (p, k1) = the_task (set_task j (permissions_update (\<lambda>m. m OR PERM_VFS_CAP_ONLY)) (k\<lparr>core := s2\<rparr>));
                 k2 = (case p of
                     None \<Rightarrow> k1
                   | Some c \<Rightarrow>
                       let tab = task_ipc_cap_table (task_at c k1) (core k1) in
                       k1\<lparr>core := upd_cap_table (task_at j k1) (\<lambda>x. x\<lparr>caps := caps tab, next_free := next_free tab\<rparr>) (core k1)\<rparr>)
             in Some (uint (tid (task_at j k2)), k2)
       }
   }"

text \<open>The arguments of the script are \<open>None\<close> when they are missing or no strings.\<close>
definition n_os_spawn_task :: "'w sys_env \<Rightarrow> u64 \<Rightarrow> string option \<Rightarrow> string option \<Rightarrow> 'w kernel \<Rightarrow> (int \<times> 'w kernel) option" where
  "n_os_spawn_task env ent name_arg path_arg k =
    (case (name_arg, path_arg) of (Some nm, Some script_path) \<Rightarrow> spawn_task env ent nm script_path k | _ \<Rightarrow> Some (-1, k))"

section \<open>Power\<close>

definition power_call :: "power_request \<Rightarrow> string \<Rightarrow> 'w sys_env \<Rightarrow> 'w kernel \<Rightarrow> 'w sys_call" where
  "power_call req msg env k0 =
    (case the_task k0 of (t, k) \<Rightarrow>
       if (case t of None \<Rightarrow> True | Some c \<Rightarrow> permissions (task_at c k) AND PERM_SYS_REBOOT = 0)
       then denied env msg k
       else sret 0 (k\<lparr>power := power k @ [req]\<rparr>))"

definition sys_reboot :: "'w sys_env \<Rightarrow> 'w kernel \<Rightarrow> 'w sys_call" where
  "sys_reboot = power_call Power_reboot ''SECURITY: Denied reboot request from task (no PERM_SYS_REBOOT)''"

definition sys_shutdown :: "'w sys_env \<Rightarrow> 'w kernel \<Rightarrow> 'w sys_call" where
  "sys_shutdown = power_call Power_shutdown ''SECURITY: Denied shutdown request from task (no PERM_SYS_REBOOT)''"

section \<open>Dispatch\<close>

text \<open>The result of an IPC call.\<close>
fun from_ipc :: "'w kernel \<Rightarrow> ipc_result \<times> ipc \<Rightarrow> sys_result \<times> 'w kernel" where
  "from_ipc k (Done r out, s) = (Ret r (if out = Out_none then Sys_none else Sys_ipc out), k\<lparr>core := s\<rparr>)"
| "from_ipc k (Wait cont, s) = (Block (Cont_ipc cont), k\<lparr>core := s\<rparr>)"

definition ipc_numbers :: "int list" where
  "ipc_numbers = [210, 211, 212, 213, 220, 221, 222, 223, 224, 225, 226, 227, 228, 230, 231, 232, 214, 240, 241, 242,
    243, 244, 200, 201, 202, 203]"

definition int_arg :: "u64 \<Rightarrow> int" where
  "int_arg a = sint (ucast a :: u32)"

definition str_arg :: "'w sys_env \<Rightarrow> u64 \<Rightarrow> string option" where
  "str_arg env a = (if a = 0 then None else Some (env_str env a))"

definition syscall_dispatch :: "'w sys_env \<Rightarrow> int \<Rightarrow> u64 \<Rightarrow> u64 \<Rightarrow> u64 \<Rightarrow> 'w kernel \<Rightarrow> 'w sys_call" where
  "syscall_dispatch env num a1 a2 a3 k0 =
    (case the_task k0 of (t, k1) \<Rightarrow>
       let k = k1\<lparr>core := klog TRACE_SYSCALL_ENTER (word_of_int num) a1 (core k1)\<rparr> in
       if num = 0 then sys_read env (int_arg a1) (a2 \<noteq> 0) a3 k
       else if num = 1 then sys_write env (int_arg a1) (if a2 = 0 then None else Some (env_bytes env a2 (unat a3))) k
       else if num = 2 then sys_open env (str_arg env a1) (ucast a2) k
       else if num = 3 then sys_close (int_arg a1) k
       else if num = 5 then sys_fstat env (int_arg a1) (a2 \<noteq> 0) k
       else if num = 8 then sys_lseek env (int_arg a1) (sint a2) (int_arg a3) k
       else if num = 12 then sys_brk a1 k
       else if num = 58 then sys_vfork k
       else if num = 59 then
         (if a1 = 0 then None
          else sys_execve env (env_str env a1) (if a2 = 0 then [] else env_strs env a2) (if a3 = 0 then [] else env_strs env a3) k)
       else if num = 61 then sys_waitpid env (ucast a1) (a2 \<noteq> 0) k
       else if num = 87 then sys_unlink env (str_arg env a1) k
       else if num = 217 then sys_getdents64 env (int_arg a1) (a2 \<noteq> 0) a3 k
       else if num = 79 then sys_getcwd a1 a2 k
       else if num = 80 then sys_chdir env (str_arg env a1) k
       else if num = 33 then sys_dup2 (int_arg a1) (int_arg a2) k
       else if num = 83 then sys_mkdir env (str_arg env a1) k
       else if num = 96 then sys_gettimeofday (a1 \<noteq> 0) k
       else if num = 35 then sys_nanosleep env (if a1 = 0 then None else Some (env_timespec env a1)) k
       else if num = 101 then sys_times (a1 \<noteq> 0) k
       else if num = 169 then sys_reboot env k
       else if num = 170 then sys_shutdown env k
       else if num = 60 then sys_exit env (int_arg a1) k
       else if num = 39 then sret (case t of None \<Rightarrow> 1 | Some c \<Rightarrow> uint (tid (task_at c k))) k
       else if num = 62 then sret (- VFS_EINVAL) k
       else if num = 100 then sret (if 0 \<le> sint a1 \<and> sint a1 \<le> 2 then 1 else 0) k
       else if num \<in> set ipc_numbers
       then map_option (from_ipc k) (ipc_syscall_dispatch (env_arch env) (env_msg env) (env_str env) num a1 a2 a3 (core k))
       else sret (- VFS_EINVAL) k)"

text \<open>The rest of a blocked call.\<close>
fun sys_resume :: "'w sys_env \<Rightarrow> sys_cont \<Rightarrow> 'w kernel \<Rightarrow> 'w sys_call" where
  "sys_resume env (Cont_ipc cont) k = map_option (from_ipc k) (ipc_resume (env_arch env) cont (core k))"
| "sys_resume env (Cont_waitpid c pid want_status) k = waitpid_round env (Some c) pid want_status k"
| "sys_resume env (Cont_delay target) k = delay_round env target k"
| "sys_resume env (Cont_delay_irq target) k = delay_yield env target (timer_irq_leave (core k)) k"

end
