(* ===== verification/Sage_IPC_Inv.thy ===== *)
theory Sage_IPC_Inv
  imports Sage_IPC
begin

text \<open>
  The states the IPC subsystem can reach after boot, and what holds in all of them. The invariant is
  split by the fields it reads: the scheduler runs a thread (\<open>running\<close>), and capability tables,
  endpoints, ports and heap are well-formed (\<open>objects_ok\<close>). An operation that leaves the object
  fields alone keeps the second part (\<open>same_objects\<close>), which covers everything the scheduler does.

  Shown: the two allocators that do not claim what they return make the two halves of a channel
  coincide, so no thread ever holds the right to send on an endpoint, or to revoke anything; what
  the system calls then do, and that none of them leaves the bounds of a table.
\<close>

unbundle bit_operations_syntax

section \<open>Frames\<close>

lemma upd_task_ipc [simp]:
  "g_endpoints (upd_task i f s) = g_endpoints s" "g_ports (upd_task i f s) = g_ports s"
  "g_shm (upd_task i f s) = g_shm s" "g_namespace (upd_task i f s) = g_namespace s"
  by (simp_all add: upd_task_def)

lemma upd_cap_table_ipc [simp]:
  "g_endpoints (upd_cap_table t f s) = g_endpoints s" "g_ports (upd_cap_table t f s) = g_ports s"
  "g_shm (upd_cap_table t f s) = g_shm s" "g_namespace (upd_cap_table t f s) = g_namespace s"
  "g_tasks (upd_cap_table t f s) = g_tasks s" "g_current_task (upd_cap_table t f s) = g_current_task s"
  "g_sched_inited (upd_cap_table t f s) = g_sched_inited s" "in_sched (upd_cap_table t f s) = in_sched s"
  "kheap (upd_cap_table t f s) = kheap s"
  by (simp_all add: upd_cap_table_def)

lemma upd_endpoint_ipc [simp]:
  "g_ports (upd_endpoint e f s) = g_ports s" "g_shm (upd_endpoint e f s) = g_shm s"
  "g_namespace (upd_endpoint e f s) = g_namespace s" "g_tasks (upd_endpoint e f s) = g_tasks s"
  "g_current_task (upd_endpoint e f s) = g_current_task s" "g_sched_inited (upd_endpoint e f s) = g_sched_inited s"
  "in_sched (upd_endpoint e f s) = in_sched s" "kheap (upd_endpoint e f s) = kheap s"
  "g_thread_ipc_ext (upd_endpoint e f s) = g_thread_ipc_ext s"
  "task_ipc_cap_table t (upd_endpoint e f s) = task_ipc_cap_table t s"
  "length (g_endpoints (upd_endpoint e f s)) = length (g_endpoints s)"
  by (simp_all add: upd_endpoint_def task_ipc_cap_table_def)

lemma upd_port_ipc [simp]:
  "g_endpoints (upd_port e f s) = g_endpoints s" "g_shm (upd_port e f s) = g_shm s"
  "g_namespace (upd_port e f s) = g_namespace s" "g_tasks (upd_port e f s) = g_tasks s"
  "g_current_task (upd_port e f s) = g_current_task s" "g_sched_inited (upd_port e f s) = g_sched_inited s"
  "in_sched (upd_port e f s) = in_sched s" "kheap (upd_port e f s) = kheap s"
  "g_thread_ipc_ext (upd_port e f s) = g_thread_ipc_ext s"
  "task_ipc_cap_table t (upd_port e f s) = task_ipc_cap_table t s"
  by (simp_all add: upd_port_def task_ipc_cap_table_def)

lemma nth_upd_endpoint:
  "e < length (g_endpoints s) \<Longrightarrow>
    g_endpoints (upd_endpoint e f s) ! j = (if j = e then f (g_endpoints s ! e) else g_endpoints s ! j)"
  by (simp add: upd_endpoint_def nth_list_update)

lemma set_heap_eq: "\<exists>tr. set_heap h s = s\<lparr>kheap := h\<lparr>emitted := []\<rparr>, ktrace := tr\<rparr>"
proof -
  have "\<exists>tr. fold log_alloc es t = t\<lparr>ktrace := tr\<rparr>" for es and t :: "'a sched_scheme"
  proof (induction es arbitrary: t)
    case Nil
    have "fold log_alloc [] t = t\<lparr>ktrace := ktrace t\<rparr>" by simp
    then show ?case by blast
  next
    case (Cons e es)
    obtain tr where "log_alloc e t = t\<lparr>ktrace := tr\<rparr>" by (cases e) (simp_all add: klog_def)
    with Cons.IH[of "log_alloc e t"] show ?case by auto
  qed
  from this[of "emitted h" "s\<lparr>kheap := h\<lparr>emitted := []\<rparr>\<rparr>"] show ?thesis by (auto simp: set_heap_def)
qed

lemma set_heap_ipc [simp]:
  "g_endpoints (set_heap h s) = g_endpoints s" "g_ports (set_heap h s) = g_ports s"
  "g_shm (set_heap h s) = g_shm s" "g_namespace (set_heap h s) = g_namespace s"
  using set_heap_eq[of h s] by auto

text \<open>The fields that hold the objects of the subsystem.\<close>
definition same_objects :: "'a ipc_scheme \<Rightarrow> 'a ipc_scheme \<Rightarrow> bool" where
  "same_objects s s' \<longleftrightarrow> g_endpoints s' = g_endpoints s \<and> g_ports s' = g_ports s \<and> g_shm s' = g_shm s \<and>
    g_namespace s' = g_namespace s \<and> g_thread_ipc_ext s' = g_thread_ipc_ext s \<and> kheap s' = kheap s"

definition running :: "'a sched_scheme \<Rightarrow> bool" where
  "running s \<longleftrightarrow> length (g_tasks s) = MAX_TASKS \<and> g_sched_inited s \<and> \<not> in_sched s \<and>
    (\<exists>c<MAX_TASKS. g_current_task s = Some c)"

lemma running_current:
  assumes "running s"
  obtains c where "g_current_task s = Some c" "c < MAX_TASKS" "current_task s = (Some c, s)"
  using assms by (auto simp: running_def current_task_def sched_current_thread_def)

lemma running_updates [simp]:
  "running (upd_task i f s) = running s" "running (klog ev a b s) = running s"
  by (simp_all add: running_def upd_task_def klog_def)

lemma running_ipc [simp]:
  "running (upd_cap_table t f s) = running s" "running (upd_endpoint e g s) = running s"
  "running (upd_port p h s) = running s" "running (set_heap hp s) = running s"
  "running (s\<lparr>g_endpoints := es\<rparr>) = running s" "running (s\<lparr>g_ports := ps\<rparr>) = running s"
  "running (s\<lparr>g_namespace := ns\<rparr>) = running s" "running (s\<lparr>g_thread_ipc_ext := ex\<rparr>) = running s"
  by (simp_all add: running_def)

text \<open>The waiting loop of the scheduler changes the clock, the watchdog and the trace only.\<close>
lemma wait_runnable_frame:
  fixes s :: "'a ipc_scheme"
  assumes "wait_runnable (timer_idle_poll arch) cur s = Some (n, s')" "in_sched s"
  shows "same_objects s s' \<and> g_tasks s' = g_tasks s \<and> g_sched_inited s' = g_sched_inited s \<and>
    g_current_task s' = g_current_task s \<and> find_runnable cur (g_tasks s) = Some n"
proof -
  define P where "P = (\<lambda>(poll :: 'a ipc_scheme \<Rightarrow> 'a ipc_scheme option) (cur :: nat) (s :: 'a ipc_scheme) r.
    poll = timer_idle_poll arch \<longrightarrow> in_sched s \<longrightarrow> same_objects s (snd r) \<and> g_tasks (snd r) = g_tasks s \<and>
      g_sched_inited (snd r) = g_sched_inited s \<and> g_current_task (snd r) = g_current_task s \<and>
      find_runnable cur (g_tasks s) = Some (fst r))"
  have "P (timer_idle_poll arch) cur s (n, s')"
  proof (rule wait_runnable.raw_induct[OF _ assms(1)])
    fix rec :: "('a ipc_scheme \<Rightarrow> 'a ipc_scheme option) \<Rightarrow> nat \<Rightarrow> 'a ipc_scheme \<Rightarrow> (nat \<times> 'a ipc_scheme) option"
      and poll cur s y
    assume ih: "\<And>poll cur s y. rec poll cur s = Some y \<Longrightarrow> P poll cur s y"
      and step: "(case find_runnable cur (g_tasks s) of None \<Rightarrow> poll (sched_watchdog_update s) \<bind> rec poll cur
        | Some n \<Rightarrow> Some (n, s)) = Some y"
    show "P poll cur s y"
    proof (cases "find_runnable cur (g_tasks s)")
      case None
      then obtain u where u: "poll (sched_watchdog_update s) = Some u" "rec poll cur u = Some y"
        using step by (auto simp: bind_eq_Some_conv)
      have "same_objects s u \<and> g_tasks u = g_tasks s \<and> in_sched u \<and> g_sched_inited u = g_sched_inited s \<and>
          g_current_task u = g_current_task s" if "poll = timer_idle_poll arch" "in_sched s"
        by (rule timer_idle_poll_frame[of "sched_watchdog_update s" arch u])
          (use u(1) that in \<open>auto simp: sched_watchdog_update_def same_objects_def\<close>)
      then show ?thesis using ih[OF u(2)] by (auto simp: P_def same_objects_def)
    next
      case (Some n)
      then show ?thesis using step by (auto simp: P_def same_objects_def)
    qed
  qed
  then show ?thesis using assms(2) by (simp add: P_def)
qed

lemma same_objects_refl [simp]: "same_objects s s"
  by (simp add: same_objects_def)

lemma same_objects_trans: "\<lbrakk>same_objects s t; same_objects t u\<rbrakk> \<Longrightarrow> same_objects s u"
  by (simp add: same_objects_def)

lemma same_objects_task [simp]: "same_objects s (upd_task i f s)" "same_objects s (klog ev a b s)"
  by (simp_all add: same_objects_def upd_task_def klog_def)

lemma switch_to_ipc:
  "same_objects s (switch_to prev n s)" "length (g_tasks (switch_to prev n s)) = length (g_tasks s)"
  "g_current_task (switch_to prev n s) = Some n" "g_sched_inited (switch_to prev n s) = g_sched_inited s"
  by (auto simp: switch_to_def Let_def same_objects_def upd_task_def klog_def split: option.splits)

lemma schedule_frame:
  assumes "running s" "sched_schedule (timer_idle_poll arch) s = Some s'"
  shows "running s'" "same_objects s s'"
proof -
  obtain c where c: "g_current_task s = Some c" "c < MAX_TASKS" using assms(1) by (auto simp: running_def)
  obtain n u where u: "wait_runnable (timer_idle_poll arch) c (s\<lparr>in_sched := True\<rparr>) = Some (n, u)"
      "s' = (if n = c then u\<lparr>in_sched := False\<rparr> else (switch_to (Some c) n u)\<lparr>in_sched := False\<rparr>)"
    using assms c by (auto simp: sched_schedule_def running_def Let_def bind_eq_Some_conv split: if_splits)
  note f = wait_runnable_frame[OF u(1)]
  then have "n < MAX_TASKS" using find_runnable_bound by auto
  then show "running s'" using f u(2) assms(1) c switch_to_ipc[where s = u and prev = "Some c" and n = n] by (auto simp: running_def)
  show "same_objects s s'"
    using f u(2) switch_to_ipc(1)[where s = u and prev = "Some c" and n = n] by (auto simp: same_objects_def)
qed

lemma block_frame:
  assumes "running s" "sched_block (timer_idle_poll arch) s = Some s'"
  shows "running s'" "same_objects s s'"
proof -
  obtain c where c: "g_current_task s = Some c" using assms(1) by (auto simp: running_def)
  let ?u = "upd_task c (state_update (\<lambda>_. THREAD_STATE_BLOCKED)) s"
  have "sched_schedule (timer_idle_poll arch) ?u = Some s'" using assms(2) c by (simp add: sched_block_def)
  note f = schedule_frame[OF _ this]
  show "running s'" using f(1) assms(1) by simp
  show "same_objects s s'" using f(2) assms(1) same_objects_trans[OF same_objects_task(1)] by simp
qed

text \<open>A scheduler with something to run returns.\<close>
lemma schedule_returns:
  assumes "running s" "i < MAX_TASKS" "runnable (g_tasks s ! i)"
  shows "\<exists>s'. sched_schedule poll s = Some s'"
proof -
  obtain c where c: "g_current_task s = Some c" "c < MAX_TASKS" using assms(1) by (auto simp: running_def)
  obtain n where "find_runnable c (g_tasks s) = Some n" using finds_runnable[OF c(2) assms(2,3)] .
  from schedule_found[OF _ _ c this] assms(1) show ?thesis by (simp add: running_def)
qed

lemma nth_update_if: "xs[l := y] ! i = (if i = l \<and> l < length xs then y else xs ! i)"
  by (cases "l < length xs") (auto simp: nth_list_update list_update_beyond not_less)

lemma ball_update: "\<lbrakk>\<forall>x\<in>set xs. P x; P y\<rbrakk> \<Longrightarrow> \<forall>x\<in>set (xs[i := y]). P x"
  using set_update_subset_insert[of xs i y] by blast

lemma wait_enqueue_frame:
  assumes "ipc_wait_enqueue t (h, l) s = Some ((h', l'), s')"
  shows "same_objects s s'" "running s' = running s" "h' \<noteq> None" "l' = Some t"
    "h' = (if h = None then Some t else h)" "g_current_task s' = g_current_task s"
    "\<And>i. i \<noteq> t \<Longrightarrow> state (g_tasks s' ! i) = state (g_tasks s ! i)"
proof -
  show "same_objects s s'" "running s' = running s" "h' \<noteq> None" "l' = Some t"
    "h' = (if h = None then Some t else h)" "g_current_task s' = g_current_task s"
    using assms
    by (auto simp: ipc_wait_enqueue_def Let_def same_objects_def running_def upd_task_def
        split: option.splits if_splits)
  show "state (g_tasks s' ! i) = state (g_tasks s ! i)" if "i \<noteq> t" for i
    using assms that by (auto simp: ipc_wait_enqueue_def Let_def upd_task_def nth_update_if split: option.splits)
qed

section \<open>The invariant\<close>

text \<open>A capability that conveys no right to revoke, and none to send to or call on an endpoint.\<close>
definition cap_inert :: "ipc_capability \<Rightarrow> bool" where
  "cap_inert cap \<longleftrightarrow> rights cap AND IPC_CAP_RIGHT_REVOKE = 0 \<and>
    object_type cap \<noteq> IPC_OBJ_CHANNEL \<and> object_type cap \<noteq> IPC_OBJ_SHARED_MEM \<and>
    (object_type cap = IPC_OBJ_ENDPOINT \<longrightarrow> unat (object_id cap) < IPC_MAX_ENDPOINTS \<and>
       rights cap AND IPC_CAP_RIGHT_SEND = 0 \<and> rights cap AND IPC_CAP_RIGHT_CALL = 0) \<and>
    (object_type cap = IPC_OBJ_PORT \<longrightarrow> unat (object_id cap) < IPC_MAX_PORTS)"

definition table_ok :: "ipc_cap_table \<Rightarrow> bool" where
  "table_ok tab \<longleftrightarrow> cap_table_ok tab \<and> (\<forall>cap\<in>set (caps tab). cap_inert cap)"

definition queue_ok :: "nat option \<Rightarrow> nat option \<Rightarrow> bool" where
  "queue_ok h l \<longleftrightarrow> (h \<noteq> None \<longrightarrow> l \<noteq> None)"

definition endpoint_ok :: "nat \<Rightarrow> ipc_endpoint \<Rightarrow> bool" where
  "endpoint_ok i ep \<longleftrightarrow> ep_id ep = of_nat i \<and> msg_count ep = 0 \<and> queue_ok (wait_head ep) (wait_tail ep)"

definition port_ok :: "nat \<Rightarrow> ipc_port \<Rightarrow> bool" where
  "port_ok i p \<longleftrightarrow> port_id p = of_nat i \<and> pending_count p = 0 \<and> queue_ok (accept_head p) (accept_tail p)"

definition objects_ok :: "'a ipc_scheme \<Rightarrow> bool" where
  "objects_ok s \<longleftrightarrow>
    length (g_thread_ipc_ext s) = SCHED_MAX_THREADS \<and> (\<forall>x\<in>set (g_thread_ipc_ext s). table_ok (cap_table x)) \<and>
    length (g_endpoints s) = IPC_MAX_ENDPOINTS \<and> (\<forall>i<IPC_MAX_ENDPOINTS. endpoint_ok i (g_endpoints s ! i)) \<and>
    length (g_ports s) = IPC_MAX_PORTS \<and> (\<forall>i<IPC_MAX_PORTS. port_ok i (g_ports s ! i)) \<and>
    ns_ok (g_namespace s) \<and> heap_inv (kheap s)"

lemma objects_ok_same: "same_objects s s' \<Longrightarrow> objects_ok s' = objects_ok s"
  by (simp add: objects_ok_def same_objects_def)

lemma ext_index_bound: "ext_index t < SCHED_MAX_THREADS"
  by (simp add: ext_index_def SCHED_MAX_THREADS_def)

lemma objects_table: "objects_ok s \<Longrightarrow> table_ok (task_ipc_cap_table t s)"
  using ext_index_bound[of t] by (simp add: objects_ok_def task_ipc_cap_table_def)

lemma table_nth: "\<lbrakk>table_ok tab; i < IPC_CAP_MAX_PER_TASK\<rbrakk> \<Longrightarrow> cap_inert (caps tab ! i)"
  by (simp add: table_ok_def cap_table_ok_def)

lemma objects_upd_cap_table:
  assumes "objects_ok s" "table_ok (f (task_ipc_cap_table t s))"
  shows "objects_ok (upd_cap_table t f s)"
proof -
  have "\<forall>x\<in>set ((g_thread_ipc_ext s)[ext_index t :=
      (g_thread_ipc_ext s ! ext_index t)\<lparr>cap_table := f (task_ipc_cap_table t s)\<rparr>]). table_ok (cap_table x)"
    using assms by (intro ball_update) (simp_all add: objects_ok_def)
  then show ?thesis using assms(1) by (simp add: objects_ok_def upd_cap_table_def)
qed

lemma objects_upd_endpoint:
  assumes "objects_ok s" "endpoint_ok e (g_endpoints s ! e) \<Longrightarrow> endpoint_ok e (f (g_endpoints s ! e))"
  shows "objects_ok (upd_endpoint e f s)"
  using assms by (auto simp: objects_ok_def upd_endpoint_def nth_update_if)

lemma objects_upd_port:
  assumes "objects_ok s" "port_ok p (g_ports s ! p) \<Longrightarrow> port_ok p (f (g_ports s ! p))"
  shows "objects_ok (upd_port p f s)"
  using assms by (auto simp: objects_ok_def upd_port_def nth_update_if)

lemma table_set_cap: "\<lbrakk>table_ok tab; cap_inert c\<rbrakk> \<Longrightarrow> table_ok (set_cap i c tab)"
  using ball_update[of "caps tab" cap_inert c i] by (simp add: table_ok_def cap_table_ok_def set_cap_def)

lemma zero_cap_inert: "cap_inert zero_cap"
  by (simp add: cap_inert_def zero_cap_def)

lemma table_free_slot: "table_ok tab \<Longrightarrow> table_ok (ipc_cap_free_slot h tab)"
  using table_set_cap[OF _ zero_cap_inert, of tab "unat h"] by (simp add: ipc_cap_free_slot_def set_cap_def)

lemma resolve_inert: "\<lbrakk>objects_ok s; ipc_cap_resolve t h s = Some cap\<rbrakk> \<Longrightarrow> cap_inert cap"
  using objects_table[of s t] resolve_SomeD[of "task_ipc_cap_table t s" h cap]
  by (auto simp: ipc_cap_resolve_def table_ok_def cap_table_ok_def)

section \<open>Creating an endpoint\<close>

text \<open>The part of the state that the allocation of rings leaves alone.\<close>
definition same_elsewhere :: "'a ipc_scheme \<Rightarrow> 'a ipc_scheme \<Rightarrow> bool" where
  "same_elsewhere s s' \<longleftrightarrow> g_ports s' = g_ports s \<and> g_shm s' = g_shm s \<and> g_namespace s' = g_namespace s \<and>
    g_thread_ipc_ext s' = g_thread_ipc_ext s \<and> g_tasks s' = g_tasks s \<and> running s' = running s \<and>
    g_current_task s' = g_current_task s \<and> length (g_endpoints s') = length (g_endpoints s)"

lemma kmalloc_ring:
  assumes "heap_inv (kheap s)"
  obtains p h where "kmalloc (sizeof_ipc_msg * 16) ALLOC_TAG_IPC s = Some (p, set_heap h s)" "heap_inv h"
  by (rule kmalloc_returns[OF assms, of "sizeof_ipc_msg * 16" ALLOC_TAG_IPC])
    (simp add: sizeof_ipc_msg_def SAGE_ARENA_SIZE_def, rule that)

lemma alloc_rings_same:
  assumes "heap_inv (kheap s)" "i < length (g_endpoints s)"
  obtains q s' where "alloc_rings i i s = Some s'" "heap_inv (kheap s')" "same_elsewhere s s'"
    "g_endpoints s' = (g_endpoints s)[i := (g_endpoints s ! i)\<lparr>ring_size := 16, msg_ring := q,
       ring_mem := replicate 16 zero_msg\<rparr>]"
proof -
  define s1 where "s1 = upd_endpoint i (ring_size_update (\<lambda>_. 16)) (upd_endpoint i (ring_size_update (\<lambda>_. 16)) s)"
  have "heap_inv (kheap s1)" using assms(1) by (simp add: s1_def)
  then obtain p h where m1: "kmalloc (sizeof_ipc_msg * 16) ALLOC_TAG_IPC s1 = Some (p, set_heap h s1)" "heap_inv h"
    by (rule kmalloc_ring)
  define s3 where "s3 = upd_endpoint i (\<lambda>ep. ep\<lparr>msg_ring := p, ring_mem := replicate 16 zero_msg\<rparr>) (set_heap h s1)"
  have "heap_inv (kheap s3)" using m1(2) by (simp add: s3_def)
  then obtain q k where m2: "kmalloc (sizeof_ipc_msg * 16) ALLOC_TAG_IPC s3 = Some (q, set_heap k s3)" "heap_inv k"
    by (rule kmalloc_ring)
  define s' where "s' = upd_endpoint i (\<lambda>ep. ep\<lparr>msg_ring := q, ring_mem := replicate 16 zero_msg\<rparr>) (set_heap k s3)"
  have "alloc_rings i i s = Some s'"
    unfolding alloc_rings_def Let_def s1_def[symmetric] m1(1) using m2(1) by (simp add: s3_def s'_def)
  moreover have "heap_inv (kheap s')" using m2(2) by (simp add: s'_def)
  moreover have "same_elsewhere s s'" by (simp add: same_elsewhere_def s'_def s3_def s1_def)
  moreover have "g_endpoints s' = (g_endpoints s)[i := (g_endpoints s ! i)\<lparr>ring_size := 16, msg_ring := q,
       ring_mem := replicate 16 zero_msg\<rparr>]"
    using assms(2) by (simp add: s'_def s3_def s1_def upd_endpoint_def)
  ultimately show thesis by (rule that)
qed

lemma link_pair_same:
  assumes "i < length (g_endpoints s)"
  shows "same_elsewhere s (link_pair i i own s)" "kheap (link_pair i i own s) = kheap s"
    "g_endpoints (link_pair i i own s) = (g_endpoints s)[i := (g_endpoints s ! i)\<lparr>peer_cap := ep_id (g_endpoints s ! i),
       bound_task := own, ep_state := IPC_STATE_ACTIVE\<rparr>]"
  using assms by (simp_all add: link_pair_def Let_def same_elsewhere_def upd_endpoint_def set_state_def running_def)

lemma kill_pair_same:
  assumes "i < length (g_endpoints s)"
  shows "same_elsewhere s (kill_pair i i s)" "kheap (kill_pair i i s) = kheap s"
    "g_endpoints (kill_pair i i s) = (g_endpoints s)[i := (g_endpoints s ! i)\<lparr>ep_state := IPC_STATE_DEAD\<rparr>]"
  using assms by (simp_all add: kill_pair_def same_elsewhere_def upd_endpoint_def set_state_def running_def)

text \<open>The endpoint a creation leaves behind: it is its own peer.\<close>
definition created_endpoint :: "nat \<Rightarrow> nat option \<Rightarrow> u32 \<Rightarrow> ipc_endpoint" where
  "created_endpoint i q own = (new_endpoint i)\<lparr>ring_size := 16, msg_ring := q, ring_mem := replicate 16 zero_msg,
     peer_cap := of_nat i, bound_task := own, ep_state := IPC_STATE_ACTIVE\<rparr>"

definition recv_cap :: "nat \<Rightarrow> u32 \<Rightarrow> ipc_capability" where
  "recv_cap i own = mk_cap (IPC_CAP_RIGHT_RECV OR IPC_CAP_RIGHT_DUP) IPC_OBJ_ENDPOINT (of_nat i) own"

text \<open>The outcomes of \<^verbatim>\<open>sys_ipc_endpoint_create\<close> before its stores: both allocations return the same slot.\<close>
lemma create_endpoints_cases:
  assumes run: "running s" and cur: "g_current_task s = Some c" and heap: "heap_inv (kheap s)"
  obtains (full) "create_endpoints s = ret (-1) s" "\<forall>ep\<in>set (g_endpoints s). \<not> pool_free (ep_state ep)"
  | (failed) i ep s' where "create_endpoints s = ret (-1) s'" "i < length (g_endpoints s)"
      "same_elsewhere s s'" "heap_inv (kheap s')" "g_endpoints s' = (g_endpoints s)[i := ep]"
      "ep_state ep = IPC_STATE_DEAD" "ep_id ep = of_nat i" "msg_count ep = 0" "wait_head ep = None"
      "(\<exists>u. alloc_rings i i (s\<lparr>g_endpoints := (g_endpoints s)[i := new_endpoint i]\<rparr>) = Some u \<and> msg_ring (g_endpoints u ! i) = None) \<or>
        ipc_cap_alloc_slot (task_ipc_cap_table (g_tasks s ! c) s) = None"
  | (created) i q h s' where
      "create_endpoints s = Some (Done 0 (Out_pair (of_nat h) (of_nat h)),
         upd_cap_table (g_tasks s ! c) (set_cap h (recv_cap i (tid (g_tasks s ! c)))) s')"
      "i < length (g_endpoints s)" "pool_free (ep_state (g_endpoints s ! i))" "same_elsewhere s s'" "heap_inv (kheap s')"
      "g_endpoints s' = (g_endpoints s)[i := created_endpoint i (Some q) (tid (g_tasks s ! c))]"
      "ipc_cap_alloc_slot (task_ipc_cap_table (g_tasks s ! c) s) = Some h"
proof -
  let ?t = "g_tasks s ! c"
  have ct: "current_task s = (Some c, s)" using run cur by (auto simp: running_def current_task_def sched_current_thread_def)
  show thesis
  proof (cases "ipc_alloc_endpoint (g_endpoints s)")
    case None
    then have "create_endpoints s = ret (-1) s" by (simp add: create_endpoints_def ct)
    moreover have "\<forall>ep\<in>set (g_endpoints s). \<not> pool_free (ep_state ep)"
      using None endpoint_pool.alloc_fails_iff by blast
    ultimately show thesis by (rule full)
  next
    case (Some r)
    then obtain i es1 where a1: "ipc_alloc_endpoint (g_endpoints s) = Some (i, es1)" by (cases r) auto
    obtain es2 where a2: "ipc_alloc_endpoint es1 = Some (i, es2)" using endpoint_pool.alloc_again_same[OF a1] by blast
    have i: "i < length (g_endpoints s)" "pool_free (ep_state (g_endpoints s ! i))"
      using endpoint_pool.alloc_was_free[OF a1] by auto
    have es2: "es2 = (g_endpoints s)[i := new_endpoint i]"
      using endpoint_pool.alloc_Some[OF a1] endpoint_pool.alloc_Some[OF a2] by simp
    let ?s0 = "s\<lparr>g_endpoints := es2\<rparr>"
    have h0: "heap_inv (kheap ?s0)" "i < length (g_endpoints ?s0)" using heap i(1) es2 by simp_all
    obtain q s1 where r0: "alloc_rings i i ?s0 = Some s1" "heap_inv (kheap s1)" "same_elsewhere ?s0 s1"
        "g_endpoints s1 = (g_endpoints ?s0)[i := (g_endpoints ?s0 ! i)\<lparr>ring_size := 16, msg_ring := q, ring_mem := replicate 16 zero_msg\<rparr>]"
      by (rule alloc_rings_same[OF h0])
    have "g_endpoints s1 = (g_endpoints s)[i := (new_endpoint i)\<lparr>ring_size := 16, msg_ring := q, ring_mem := replicate 16 zero_msg\<rparr>]"
      using r0(4) es2 i(1) by simp
    note r = r0(1-3) this
    have se: "same_elsewhere s s1" using r(3) es2 by (simp add: same_elsewhere_def)
    have i1: "i < length (g_endpoints s1)" using r(4) i(1) by simp
    show thesis
    proof (cases q)
      case None
      have "create_endpoints s = ret (-1) (kill_pair i i s1)"
        using None i(1) by (simp add: create_endpoints_def ct a1 a2 r(1,4) free_ring_def)
      then show thesis
        using failed[OF _ i(1), of "kill_pair i i s1"] kill_pair_same[OF i1] se r(1,2,4) i(1) None
        by (simp add: same_elsewhere_def new_endpoint_def zero_endpoint_def es2)
    next
      case (Some q')
      let ?s2 = "link_pair i i (tid ?t) s1"
      note l = link_pair_same[OF i1, of "tid ?t"]
      have se2: "same_elsewhere s ?s2" using se l(1) by (simp add: same_elsewhere_def)
      have tab: "task_ipc_cap_table ?t ?s2 = task_ipc_cap_table ?t s"
        using se2 by (simp add: same_elsewhere_def task_ipc_cap_table_def)
      have es: "g_endpoints ?s2 = (g_endpoints s)[i := created_endpoint i (Some q') (tid ?t)]"
        using l(3) r(4) i(1) Some by (simp add: created_endpoint_def new_endpoint_def)
      have id: "ep_id (g_endpoints ?s2 ! i) = of_nat i" using es i(1) by (simp add: created_endpoint_def new_endpoint_def)
      have i2: "i < length (g_endpoints ?s2)" using es i(1) by simp
      show thesis
      proof (cases "ipc_cap_alloc_slot (task_ipc_cap_table ?t s)")
        case None
        have "create_endpoints s = ret (-1) (kill_pair i i ?s2)"
          using None Some i(1) by (simp add: create_endpoints_def ct a1 a2 r(1,4) tab Let_def)
        then show thesis
          using failed[OF _ i(1), of "kill_pair i i ?s2"] kill_pair_same[OF i2] se2 r(2) l(2) es i(1) None
          by (simp add: same_elsewhere_def created_endpoint_def new_endpoint_def zero_endpoint_def)
      next
        case (Some h)
        have "create_endpoints s = Some (Done 0 (Out_pair (of_nat h) (of_nat h)),
            upd_cap_table ?t (set_cap h (recv_cap i (tid ?t))) ?s2)"
          using Some \<open>q = Some q'\<close> i(1)
          by (simp add: create_endpoints_def ct a1 a2 r(1,4) tab Let_def id recv_cap_def set_cap_def upd_cap_table_def)
        then show thesis using created[OF _ i se2 _ es Some] r(2) l(2) by simp
      qed
    qed
  qed
qed

section \<open>Every call keeps the invariant\<close>

definition ipc_inv :: "'a ipc_scheme \<Rightarrow> bool" where
  "ipc_inv s \<longleftrightarrow> running s \<and> objects_ok s"

lemma ipc_inv_current:
  assumes "ipc_inv s"
  obtains c where "g_current_task s = Some c" "c < MAX_TASKS" "current_task s = (Some c, s)" "running s" "objects_ok s"
  using assms running_current[of s] by (auto simp: ipc_inv_def)

lemma ipc_inv_same: "\<lbrakk>ipc_inv s; running s'; same_objects s s'\<rbrakk> \<Longrightarrow> ipc_inv s'"
  using objects_ok_same by (auto simp: ipc_inv_def)

lemma ipc_inv_schedule:
  "\<lbrakk>ipc_inv s; sched_schedule (timer_idle_poll arch) s = Some s'\<rbrakk> \<Longrightarrow> ipc_inv s'"
  "\<lbrakk>ipc_inv s; sched_block (timer_idle_poll arch) s = Some s'\<rbrakk> \<Longrightarrow> ipc_inv s'"
  using ipc_inv_same[of s s'] schedule_frame[of s arch s'] block_frame[of s arch s']
  by (simp_all add: ipc_inv_def)

lemma unat_small [simp]:
  "i < IPC_MAX_ENDPOINTS \<Longrightarrow> unat (of_nat i :: u32) = i" "i < IPC_MAX_PORTS \<Longrightarrow> unat (of_nat i :: u32) = i"
  by (simp_all add: unat_of_nat IPC_MAX_ENDPOINTS_def IPC_MAX_PORTS_def)

lemma mask_zero: "(x :: u32) AND r = 0 \<Longrightarrow> (x AND m) AND r = 0"
  by (metis and.assoc and.commute and_zero_eq)

lemma cap_inert_mask:
  "cap_inert cap \<Longrightarrow> cap_inert (cap\<lparr>rights := rights cap AND m, ref_count := r, owner_task := w\<rparr>)"
  by (simp add: cap_inert_def mask_zero)

lemma recv_cap_inert: "i < IPC_MAX_ENDPOINTS \<Longrightarrow> cap_inert (recv_cap i own)"
  by (simp add: cap_inert_def recv_cap_def mk_cap_def zero_cap_def right_defs)

lemma objects_ok_elsewhere:
  assumes "objects_ok s" "same_elsewhere s s'" "heap_inv (kheap s')" "g_endpoints s' = (g_endpoints s)[i := ep]"
    "endpoint_ok i ep"
  shows "objects_ok s'"
  using assms by (auto simp: objects_ok_def same_elsewhere_def nth_update_if)

lemma create_endpoints_inv:
  assumes "ipc_inv s" "create_endpoints s = Some (r, s')"
  shows "ipc_inv s'"
proof -
  obtain c where c: "g_current_task s = Some c" "running s" "objects_ok s" using ipc_inv_current[OF assms(1)] .
  have len: "length (g_endpoints s) = IPC_MAX_ENDPOINTS" and heap: "heap_inv (kheap s)"
    using c(3) by (simp_all add: objects_ok_def)
  from c(2,1) heap show ?thesis
  proof (cases rule: create_endpoints_cases)
    case full
    then show ?thesis using assms by (simp add: ret_def)
  next
    case (failed i ep u)
    have "endpoint_ok i ep" using failed by (simp add: endpoint_ok_def queue_ok_def)
    with objects_ok_elsewhere[OF c(3) failed(3-5)] failed(1,3) assms(2) c(2) show ?thesis
      by (simp add: ret_def ipc_inv_def same_elsewhere_def)
  next
    case (created i q h u)
    let ?t = "g_tasks s ! c"
    have "endpoint_ok i (created_endpoint i (Some q) (tid ?t))"
      by (simp add: endpoint_ok_def queue_ok_def created_endpoint_def new_endpoint_def zero_endpoint_def)
    then have u: "objects_ok u" by (rule objects_ok_elsewhere[OF c(3) created(4-6)])
    have "objects_ok (upd_cap_table ?t (set_cap h (recv_cap i (tid ?t))) u)"
      using recv_cap_inert[of i "tid ?t"] created(2) len
      by (intro objects_upd_cap_table[OF u] table_set_cap objects_table[OF u]) simp
    with created(1,4) assms(2) c(2) show ?thesis by (simp add: ipc_inv_def same_elsewhere_def)
  qed
qed

lemma endpoint_create_inv:
  assumes "ipc_inv s" "sys_ipc_endpoint_create o1 o2 s = Some (r, s')"
  shows "ipc_inv s'"
  using assms create_endpoints_inv[OF assms(1)]
  by (auto simp: sys_ipc_endpoint_create_def bind_eq_Some_conv dest!: user_store_SomeD)

lemma dequeue_empty:
  assumes "objects_ok s" "e < IPC_MAX_ENDPOINTS"
  shows "ipc_msg_dequeue e s = Some (Inl (if ep_state (g_endpoints s ! e) = IPC_STATE_DRAINING \<or>
    ep_state (g_endpoints s ! e) = IPC_STATE_DEAD then -1 else -2), s)"
proof -
  have "msg_count (g_endpoints s ! e) = 0" using assms by (simp add: objects_ok_def endpoint_ok_def)
  then show ?thesis by (simp add: ipc_msg_dequeue_def ring_pop_def)
qed

text \<open>Sending is refused: the only effect is the trace entry.\<close>
lemma send_refused:
  assumes "ipc_inv s"
  shows "sys_ipc_send h msg fl s = Some (-1, klog TRACE_IPC_SEND (ucast h) (ucast fl) s)"
proof -
  obtain c where c: "current_task s = (Some c, s)" "objects_ok s" using ipc_inv_current[OF assms] .
  let ?s1 = "klog TRACE_IPC_SEND (ucast h) (ucast fl) s"
  have "objects_ok ?s1" using c(2) objects_ok_same[OF same_objects_task(2)] by blast
  then have "\<not> (ipc_cap_has_right cap IPC_CAP_RIGHT_SEND \<and> object_type cap = IPC_OBJ_ENDPOINT)"
    if "ipc_cap_resolve (g_tasks s ! c) h ?s1 = Some cap" for cap
    using resolve_inert[OF _ that] by (auto simp: cap_inert_def ipc_cap_has_right_def)
  then show ?thesis
    by (cases "ipc_cap_resolve (g_tasks s ! c) h ?s1") (auto simp: sys_ipc_send_def c(1) Let_def)
qed

lemma call_refused:
  assumes "ipc_inv s"
  shows "sys_ipc_call arch h req resp s = ret (-1) s"
proof -
  obtain c where c: "current_task s = (Some c, s)" "objects_ok s" using ipc_inv_current[OF assms] .
  have "\<not> (ipc_cap_has_right cap IPC_CAP_RIGHT_CALL \<and> object_type cap = IPC_OBJ_ENDPOINT)"
    if "ipc_cap_resolve (g_tasks s ! c) h s = Some cap" for cap
    using resolve_inert[OF c(2) that] by (auto simp: cap_inert_def ipc_cap_has_right_def)
  then show ?thesis by (cases "ipc_cap_resolve (g_tasks s ! c) h s") (auto simp: sys_ipc_call_def c(1) Let_def)
qed

lemma no_revoke:
  assumes "objects_ok s" "ipc_cap_resolve t h s = Some cap"
  shows "\<not> ipc_cap_has_right cap IPC_CAP_RIGHT_REVOKE"
  using resolve_inert[OF assms] by (simp add: cap_inert_def ipc_cap_has_right_def)

lemma teardown_refused:
  assumes "ipc_inv s"
  shows "sys_ipc_object_destroy h s = ret (-1) s" "sys_ipc_cap_revoke h s = ret (-1) s"
    "sys_ipc_object_pause h s = ret (-1) s" "sys_ipc_object_drain arch h s = ret (-1) s"
proof -
  obtain c where c: "current_task s = (Some c, s)" "objects_ok s" using ipc_inv_current[OF assms] .
  note nr = no_revoke[OF c(2), of "g_tasks s ! c" h]
  show d: "sys_ipc_object_destroy h s = ret (-1) s"
    using nr by (simp add: sys_ipc_object_destroy_def c(1) Let_def split: option.split)
  then show "sys_ipc_cap_revoke h s = ret (-1) s" by (simp add: sys_ipc_cap_revoke_def)
  show "sys_ipc_object_pause h s = ret (-1) s"
    using nr by (simp add: sys_ipc_object_pause_def c(1) split: option.split)
  show "sys_ipc_object_drain arch h s = ret (-1) s"
    using nr by (simp add: sys_ipc_object_drain_def c(1) split: option.split)
qed

lemma recv_inv:
  assumes "ipc_inv s" "sys_ipc_recv arch h um fl s = Some (r, s')"
  shows "ipc_inv s'" "r = Done (-1) Out_none \<or> (\<exists>e<IPC_MAX_ENDPOINTS. r = Wait (Recv_blocked e um))"
proof -
  obtain c where c: "g_current_task s = Some c" "current_task s = (Some c, s)" "running s" "objects_ok s"
    using ipc_inv_current[OF assms(1)] .
  have "ipc_inv s' \<and> (r = Done (-1) Out_none \<or> (\<exists>e<IPC_MAX_ENDPOINTS. r = Wait (Recv_blocked e um)))"
  proof (cases "r = Done (-1) Out_none \<and> s' = s")
    case False
    then obtain cap where cap: "ipc_cap_resolve (g_tasks s ! c) h s = Some cap" "object_type cap = IPC_OBJ_ENDPOINT"
      using assms(2) by (auto simp: sys_ipc_recv_def c(2) ret_def split: option.splits if_splits)
    define e where "e = unat (object_id cap)"
    have e: "e < IPC_MAX_ENDPOINTS" using resolve_inert[OF c(4) cap(1)] cap(2) by (simp add: cap_inert_def e_def)
    let ?ep = "g_endpoints s ! e"
    obtain h' l' s2 s3 where w: "ipc_wait_enqueue c (wait_head ?ep, wait_tail ?ep) s = Some ((h', l'), s2)"
        "sched_block (timer_idle_poll arch) (upd_endpoint e (\<lambda>ep. ep\<lparr>wait_head := h', wait_tail := l'\<rparr>) s2) = Some s3"
        "r = Wait (Recv_blocked e um)" "s' = s3"
      using assms(2) False cap e dequeue_empty[OF c(4) e]
      by (auto simp: sys_ipc_recv_def c(2) ret_def recv_result_def e_def[symmetric] bind_eq_Some_conv
          split: if_splits)
    note f = wait_enqueue_frame[OF w(1)]
    let ?s2 = "upd_endpoint e (\<lambda>ep. ep\<lparr>wait_head := h', wait_tail := l'\<rparr>) s2"
    have "objects_ok s2" using objects_ok_same[OF f(1)] c(4) by simp
    then have "objects_ok ?s2"
      by (rule objects_upd_endpoint) (simp add: endpoint_ok_def queue_ok_def f(4))
    then have "ipc_inv ?s2" using f(2) c(3) by (simp add: ipc_inv_def)
    then show ?thesis using ipc_inv_schedule(2)[OF _ w(2)] w(3,4) e by simp
  qed (use assms(1) in simp)
  then show "ipc_inv s'" "r = Done (-1) Out_none \<or> (\<exists>e<IPC_MAX_ENDPOINTS. r = Wait (Recv_blocked e um))" by auto
qed

lemma port_create_inv:
  assumes "ipc_inv s" "sys_ipc_port_create b oc s = Some (r, s')"
  shows "ipc_inv s'"
proof -
  obtain c where c: "current_task s = (Some c, s)" "running s" "objects_ok s" using ipc_inv_current[OF assms(1)] .
  let ?t = "g_tasks s ! c"
  show ?thesis
  proof (cases "ipc_alloc_port (g_ports s)")
    case None
    then show ?thesis using assms by (simp add: sys_ipc_port_create_def c(1) ret_def)
  next
    case (Some a)
    then obtain p ps where a: "ipc_alloc_port (g_ports s) = Some (p, ps)" by (cases a) auto
    have p: "p < IPC_MAX_PORTS" "ps = (g_ports s)[p := new_port p]"
      using port_pool.alloc_was_free(1)[OF a] port_pool.alloc_Some[OF a] c(3) by (simp_all add: objects_ok_def)
    define s1 where "s1 = upd_port p (\<lambda>pt. pt\<lparr>backlog := if b > 16 then 16 else b, port_owner := tid ?t,
        port_state := IPC_STATE_ACTIVE\<rparr>) (s\<lparr>g_ports := ps\<rparr>)"
    have "port_ok p (new_port p)" by (simp add: port_ok_def new_port_def zero_port_def queue_ok_def)
    then have "objects_ok (s\<lparr>g_ports := ps\<rparr>)"
      using c(3) p by (auto simp: objects_ok_def nth_update_if)
    then have s1: "objects_ok s1" unfolding s1_def by (rule objects_upd_port) (simp add: port_ok_def)
    have id: "port_id (g_ports s1 ! p) = of_nat p" using s1 p(1) by (simp add: objects_ok_def port_ok_def)
    have run: "running s1" using c(2) by (simp add: s1_def)
    have dead: "objects_ok (upd_port p (port_state_update (\<lambda>_. IPC_STATE_DEAD)) s1)"
      using s1 by (rule objects_upd_port) (simp add: port_ok_def)
    have inert: "cap_inert (mk_cap (IPC_CAP_RIGHT_SEND OR IPC_CAP_RIGHT_RECV OR IPC_CAP_RIGHT_DUP) IPC_OBJ_PORT (of_nat p) own)" for own
      using p(1) by (simp add: cap_inert_def mk_cap_def zero_cap_def right_defs)
    have "objects_ok (upd_cap_table ?t (set_cap k (mk_cap (IPC_CAP_RIGHT_SEND OR IPC_CAP_RIGHT_RECV OR IPC_CAP_RIGHT_DUP)
        IPC_OBJ_PORT (of_nat p) (tid ?t))) s1)" for k
      by (intro objects_upd_cap_table[OF s1] table_set_cap objects_table[OF s1] inert)
    then show ?thesis
      using assms(2) dead run
      by (auto simp: sys_ipc_port_create_def c(1) a Let_def s1_def[symmetric] id ret_def ipc_inv_def split: option.splits)
  qed
qed

lemma accept_loop_inv:
  assumes "ipc_inv s" "p < IPC_MAX_PORTS" "accept_loop arch p c oc s = Some (r, s')"
  shows "ipc_inv s'" "r = Done (-1) Out_none \<or> r = Wait (Accept_blocked p c oc)"
proof -
  let ?pt = "g_ports s ! p"
  have ok: "port_ok p ?pt" "objects_ok s" "running s" using assms(1,2) by (auto simp: ipc_inv_def objects_ok_def)
  have "ipc_inv s' \<and> (r = Done (-1) Out_none \<or> r = Wait (Accept_blocked p c oc))"
  proof (cases "port_state ?pt = IPC_STATE_ACTIVE")
    case False
    then show ?thesis using assms ok(1) by (simp add: accept_loop_def port_ok_def ret_def)
  next
    case True
    then obtain h' l' s1 s2 where w: "ipc_wait_enqueue c (accept_head ?pt, accept_tail ?pt) s = Some ((h', l'), s1)"
        "sched_block (timer_idle_poll arch) (upd_port p (\<lambda>pt. pt\<lparr>accept_head := h', accept_tail := l'\<rparr>) s1) = Some s2"
        "r = Wait (Accept_blocked p c oc)" "s' = s2"
      using assms(3) ok(1) by (auto simp: accept_loop_def port_ok_def Let_def bind_eq_Some_conv)
    note f = wait_enqueue_frame[OF w(1)]
    let ?s1 = "upd_port p (\<lambda>pt. pt\<lparr>accept_head := h', accept_tail := l'\<rparr>) s1"
    have "objects_ok s1" using objects_ok_same[OF f(1)] ok(2) by simp
    then have "objects_ok ?s1" by (rule objects_upd_port) (simp add: port_ok_def queue_ok_def f(4))
    then have "ipc_inv ?s1" using f(2) ok(3) by (simp add: ipc_inv_def)
    then show ?thesis using ipc_inv_schedule(2)[OF _ w(2)] w(3,4) by simp
  qed
  then show "ipc_inv s'" "r = Done (-1) Out_none \<or> r = Wait (Accept_blocked p c oc)" by auto
qed

lemma port_accept_inv:
  assumes "ipc_inv s" "sys_ipc_port_accept arch h oc s = Some (r, s')"
  shows "ipc_inv s'" "r = Done (-1) Out_none \<or> (\<exists>p c. r = Wait (Accept_blocked p c oc))"
proof -
  obtain c where c: "current_task s = (Some c, s)" "objects_ok s" using ipc_inv_current[OF assms(1)] .
  have "ipc_inv s' \<and> (r = Done (-1) Out_none \<or> (\<exists>p c. r = Wait (Accept_blocked p c oc)))"
  proof (cases "r = Done (-1) Out_none \<and> s' = s")
    case False
    then obtain p where "p < IPC_MAX_PORTS" "accept_loop arch p c oc s = Some (r, s')"
      using assms(2) by (auto simp: sys_ipc_port_accept_def c(1) ret_def not_le split: option.splits if_splits)
    from accept_loop_inv[OF assms(1) this] show ?thesis by blast
  qed (use assms(1) in simp)
  then show "ipc_inv s'" "r = Done (-1) Out_none \<or> (\<exists>p c. r = Wait (Accept_blocked p c oc))" by auto
qed

lemma ns_register_inv:
  assumes "ipc_inv s" "sys_ipc_ns_register np h s = Some (r, s')"
  shows "ipc_inv s'"
proof -
  obtain c where c: "current_task s = (Some c, s)" "running s" "objects_ok s" using ipc_inv_current[OF assms(1)] .
  have ns: "ns_ok (g_namespace s)" using c(3) by (simp add: objects_ok_def)
  show ?thesis
  proof (cases "s' = s")
    case False
    then obtain nm v ns' where i: "ipc_ns_insert nm h (tid (g_tasks s ! c)) (g_namespace s) = Some (v, ns')"
        "s' = s\<lparr>g_namespace := ns'\<rparr>"
      using assms(2) by (auto simp: sys_ipc_ns_register_def c(1) Let_def ret_def bind_eq_Some_conv split: option.splits)
    obtain w nsx where "ipc_ns_insert nm h (tid (g_tasks s ! c)) (g_namespace s) = Some (w, nsx)" "ns_ok nsx"
      by (rule ns_insert_cases[OF ns, of nm h "tid (g_tasks s ! c)"]) (rule that; assumption)
    then have "ns_ok ns'" using i(1) by simp
    then show ?thesis using i(2) c(2,3) by (simp add: ipc_inv_def objects_ok_def)
  qed (use assms(1) in simp)
qed

text \<open>The capability a lookup stores: a copy without the rights to revoke and to duplicate.\<close>
definition looked_up :: "ipc_capability \<Rightarrow> u32 \<Rightarrow> ipc_capability" where
  "looked_up src own = src\<lparr>rights := rights src AND NOT (IPC_CAP_RIGHT_REVOKE OR IPC_CAP_RIGHT_DUP),
     ref_count := ref_count src + 1, owner_task := own\<rparr>"

lemma ns_lookup_cases:
  assumes "current_task s = (Some c, s)" "sys_ipc_ns_lookup np oc s = Some (r, s')"
  obtains "r = Done (-1) Out_none" "s' = s"
  | nm e h src where "np = Some nm" "ipc_ns_find nm (g_namespace s) = Some (Some e)"
      "ipc_cap_alloc_slot (task_ipc_cap_table (g_tasks s ! c) s) = Some h"
      "entry_cap (ns_entries (g_namespace s) ! e) s = Some src" "r = Done 0 (Out_handle (of_nat h))"
      "s' = upd_cap_table (g_tasks s ! c) (set_cap h (looked_up src (tid (g_tasks s ! c)))) s"
proof -
  obtain nm f where np: "np = Some nm" and f: "ipc_ns_find nm (g_namespace s) = Some f"
    using assms by (auto simp: sys_ipc_ns_lookup_def Let_def bind_eq_Some_conv)
  show thesis
  proof (cases f)
    case None
    then show thesis using that(1) assms np f by (simp add: sys_ipc_ns_lookup_def ret_def)
  next
    case (Some e)
    show thesis
    proof (cases "ipc_cap_alloc_slot (task_ipc_cap_table (g_tasks s ! c) s)")
      case None
      then show thesis using that(1) assms np f Some by (simp add: sys_ipc_ns_lookup_def ret_def)
    next
      case h: (Some h)
      obtain src where src: "entry_cap (ns_entries (g_namespace s) ! e) s = Some src"
        using assms np f Some h by (cases "entry_cap (ns_entries (g_namespace s) ! e) s") (simp_all add: sys_ipc_ns_lookup_def)
      then have "r = Done 0 (Out_handle (of_nat h))"
          "s' = upd_cap_table (g_tasks s ! c) (set_cap h (looked_up src (tid (g_tasks s ! c)))) s"
        using assms np f Some h by (simp_all add: sys_ipc_ns_lookup_def looked_up_def Let_def)
      then show thesis using that(2) np f Some h src by blast
    qed
  qed
qed

lemma ns_lookup_inv:
  assumes "ipc_inv s" "sys_ipc_ns_lookup np oc s = Some (r, s')"
  shows "ipc_inv s'"
proof -
  obtain c where c: "current_task s = (Some c, s)" "running s" "objects_ok s" using ipc_inv_current[OF assms(1)] .
  from c(1) assms(2) show ?thesis
  proof (cases rule: ns_lookup_cases)
    case (2 nm e h src)
    have "cap_inert src"
      using 2(4) table_nth[OF objects_table[OF c(3)]]
      by (auto simp: entry_cap_def bind_eq_Some_conv not_le split: if_splits)
    then have "cap_inert (looked_up src own)" for own by (simp add: looked_up_def cap_inert_mask)
    then show ?thesis
      unfolding ipc_inv_def 2(6) using c(2)
      by (auto intro!: objects_upd_cap_table[OF c(3)] table_set_cap objects_table[OF c(3)])
  qed (use assms(1) in simp)
qed

lemma object_resume_inv:
  assumes "ipc_inv s" "sys_ipc_object_resume h s = Some (r, s')"
  shows "ipc_inv s'"
proof -
  obtain c where c: "current_task s = (Some c, s)" "running s" "objects_ok s" using ipc_inv_current[OF assms(1)] .
  have "objects_ok (upd_endpoint e (set_state IPC_STATE_ACTIVE) s)" for e
    using c(3) by (rule objects_upd_endpoint) (simp add: endpoint_ok_def set_state_def)
  then show ?thesis
    using assms c by (auto simp: sys_ipc_object_resume_def ret_def ipc_inv_def split: option.splits if_splits)
qed

lemma cap_narrow_inv:
  assumes "ipc_inv s" "sys_ipc_cap_narrow h m s = Some (r, s')"
  shows "ipc_inv s'"
proof -
  obtain c where c: "current_task s = (Some c, s)" "running s" "objects_ok s" using ipc_inv_current[OF assms(1)] .
  let ?tab = "task_ipc_cap_table (g_tasks s ! c) s"
  let ?cap = "caps ?tab ! unat h"
  show ?thesis
  proof (cases "s' = s")
    case False
    then have l: "unat h < IPC_CAP_MAX_PER_TASK"
        "s' = upd_cap_table (g_tasks s ! c) (set_cap (unat h) (?cap\<lparr>rights := rights ?cap AND (m AND IPC_CAP_RIGHTS_ALL)\<rparr>)) s"
      using assms(2) by (auto simp: sys_ipc_cap_narrow_def c(1) Let_def ret_def not_le split: if_splits)
    have "cap_inert ?cap" using table_nth[OF objects_table[OF c(3)] l(1)] .
    then have "cap_inert (?cap\<lparr>rights := rights ?cap AND (m AND IPC_CAP_RIGHTS_ALL)\<rparr>)"
      using cap_inert_mask[where cap = ?cap and m = "m AND IPC_CAP_RIGHTS_ALL" and r = "ref_count ?cap" and w = "owner_task ?cap"]
      by simp
    then show ?thesis
      unfolding ipc_inv_def l(2) using c(2)
      by (auto intro!: objects_upd_cap_table[OF c(3)] table_set_cap objects_table[OF c(3)])
  qed (use assms(1) in simp)
qed

lemma cap_dup_inv:
  assumes "ipc_inv s" "sys_ipc_cap_dup h oh s = Some (r, s')"
  shows "ipc_inv s'"
proof -
  obtain c where c: "current_task s = (Some c, s)" "running s" "objects_ok s" using ipc_inv_current[OF assms(1)] .
  show ?thesis
  proof (cases "s' = s")
    case False
    then obtain src k where l: "ipc_cap_resolve (g_tasks s ! c) h s = Some src"
        "s' = upd_cap_table (g_tasks s ! c) (set_cap k (src\<lparr>ref_count := ref_count src + 1\<rparr>)) s"
      using assms(2) by (auto simp: sys_ipc_cap_dup_def c(1) Let_def ret_def split: option.splits if_splits)
    have "cap_inert (src\<lparr>ref_count := ref_count src + 1\<rparr>)"
      using resolve_inert[OF c(3) l(1)] by (simp add: cap_inert_def)
    then show ?thesis
      unfolding ipc_inv_def l(2) using c(2)
      by (auto intro!: objects_upd_cap_table[OF c(3)] table_set_cap objects_table[OF c(3)])
  qed (use assms(1) in simp)
qed

lemma dispatch_inv:
  assumes "ipc_inv s" "ipc_syscall_dispatch arch umsg ustr num a1 a2 a3 s = Some (r, s')"
  shows "ipc_inv s'"
proof -
  have "ipc_inv (klog TRACE_IPC_SEND x y s)" for x y using assms(1) ipc_inv_same[OF assms(1)] by (simp add: ipc_inv_def)
  then show ?thesis
    using assms(2) teardown_refused[OF assms(1)] send_refused[OF assms(1)] call_refused[OF assms(1)] assms(1)
      recv_inv(1)[OF assms(1)] endpoint_create_inv[OF assms(1)] port_create_inv[OF assms(1)] port_accept_inv(1)[OF assms(1)]
      ns_register_inv[OF assms(1)] ns_lookup_inv[OF assms(1)] object_resume_inv[OF assms(1)] cap_narrow_inv[OF assms(1)]
      cap_dup_inv[OF assms(1)]
    unfolding ipc_syscall_dispatch_def by (auto simp: ret_def split: if_splits)
qed

fun cont_ok :: "ipc_cont \<Rightarrow> bool" where
  "cont_ok (Recv_blocked e a) \<longleftrightarrow> e < IPC_MAX_ENDPOINTS"
| "cont_ok (Recv_retry e a) \<longleftrightarrow> e < IPC_MAX_ENDPOINTS"
| "cont_ok (Accept_blocked p c a) \<longleftrightarrow> p < IPC_MAX_PORTS"
| "cont_ok (Accept_retry p c a) \<longleftrightarrow> p < IPC_MAX_PORTS"
| "cont_ok (Drain_wait e) \<longleftrightarrow> e < IPC_MAX_ENDPOINTS"

lemma resume_inv:
  assumes "ipc_inv s" "cont_ok k" "ipc_resume arch k s = Some (r, s')"
  shows "ipc_inv s'" "\<nexists>msg. r = Done 0 (Out_msg msg)"
proof -
  have ok: "objects_ok s" using assms(1) by (simp add: ipc_inv_def)
  have "ipc_inv s' \<and> (\<nexists>msg. r = Done 0 (Out_msg msg))"
  proof (cases k)
    case (Recv_retry e a)
    then show ?thesis using assms dequeue_empty[OF ok, of e] by (auto simp: recv_result_def ret_def)
  next
    case (Accept_retry p c a)
    then show ?thesis using accept_loop_inv[OF assms(1)] assms(2,3) by fastforce
  next
    case (Drain_wait e)
    have "msg_count (g_endpoints s ! e) = 0" using ok assms(2) Drain_wait by (simp add: objects_ok_def endpoint_ok_def)
    moreover have "objects_ok (upd_endpoint e (set_state IPC_STATE_DEAD) s)"
      using ok by (rule objects_upd_endpoint) (simp add: endpoint_ok_def set_state_def)
    ultimately show ?thesis
      using assms Drain_wait by (auto simp: drain_loop_def ret_def ipc_inv_def split: if_splits)
  qed (use assms ipc_inv_schedule(1)[OF assms(1)] in auto)
  then show "ipc_inv s'" "\<nexists>msg. r = Done 0 (Out_msg msg)" by auto
qed

lemma zero_table_ok: "table_ok zero_cap_table"
  using zero_cap_inert by (simp add: table_ok_def cap_table_ok_def zero_cap_table_def)

lemma initial_table_ok: "table_ok initial_cap_table"
  using zero_cap_inert initial_cap_table_ok
  by (simp add: table_ok_def initial_cap_table_def cap_inert_def zero_cap_def right_defs)

lemma objects_set_ext:
  assumes "objects_ok s" "table_ok (cap_table x)"
  shows "objects_ok (s\<lparr>g_thread_ipc_ext := (g_thread_ipc_ext s)[j := x]\<rparr>)"
proof -
  have "\<forall>y\<in>set ((g_thread_ipc_ext s)[j := x]). table_ok (cap_table y)"
    using assms by (intro ball_update) (simp_all add: objects_ok_def)
  then show ?thesis using assms(1) by (simp add: objects_ok_def)
qed

lemma cleanup_slot_inv:
  assumes "ipc_inv s" "i < IPC_CAP_MAX_PER_TASK"
  shows "\<exists>s'. cleanup_slot t i s = Some s' \<and> ipc_inv s'"
proof (cases "ipc_cap_is_valid (caps (task_ipc_cap_table t s) ! i)")
  case True
  let ?cap = "caps (task_ipc_cap_table t s) ! i"
  let ?s1 = "upd_cap_table t (set_cap i (?cap\<lparr>ref_count := ref_count ?cap - 1\<rparr>)) s"
  have ok: "objects_ok s" "running s" using assms(1) by (simp_all add: ipc_inv_def)
  have inert: "cap_inert ?cap" using table_nth[OF objects_table[OF ok(1)] assms(2)] .
  then have "cap_inert (?cap\<lparr>ref_count := ref_count ?cap - 1\<rparr>)" by (simp add: cap_inert_def)
  then have ok1: "objects_ok ?s1"
    by (intro objects_upd_cap_table[OF ok(1)] table_set_cap objects_table[OF ok(1)])
  let ?cap2 = "(caps (task_ipc_cap_table t ?s1) ! i)\<lparr>object_type := IPC_OBJ_NONE\<rparr>"
  have "cap_inert ?cap2"
    using table_nth[OF objects_table[OF ok1] assms(2), of t] by (simp add: cap_inert_def)
  then have "objects_ok (upd_cap_table t (set_cap i ?cap2) ?s1)"
    by (intro objects_upd_cap_table[OF ok1] table_set_cap objects_table[OF ok1])
  moreover have "cleanup_slot t i s = Some (upd_cap_table t (set_cap i ?cap2) ?s1)"
    using True inert by (simp add: cleanup_slot_def Let_def cap_inert_def)
  ultimately show ?thesis using ok(2) by (simp add: ipc_inv_def)
qed (use assms(1) in \<open>simp add: cleanup_slot_def\<close>)

lemma cleanup_slots_inv:
  assumes "ipc_inv s" "set is \<subseteq> {..<IPC_CAP_MAX_PER_TASK}"
  shows "\<exists>s'. cleanup_slots t is s = Some s' \<and> ipc_inv s'"
  using assms
proof (induction "is" arbitrary: s)
  case (Cons i "is")
  obtain u where "cleanup_slot t i s = Some u" "ipc_inv u"
    using cleanup_slot_inv[OF Cons.prems(1), of i t] Cons.prems(2) by auto
  then show ?case using Cons.IH[of u] Cons.prems(2) by simp
qed simp

lemma cleanup_thread_inv:
  assumes "ipc_inv s"
  shows "\<exists>s'. sched_ipc_cleanup_thread t s = Some s' \<and> ipc_inv s'"
proof -
  have "set [0..<IPC_CAP_MAX_PER_TASK] \<subseteq> {..<IPC_CAP_MAX_PER_TASK}" by auto
  from cleanup_slots_inv[OF assms this, of t]
  obtain u where u: "cleanup_slots t [0..<IPC_CAP_MAX_PER_TASK] s = Some u" "ipc_inv u" by blast
  have "ipc_inv (u\<lparr>g_thread_ipc_ext := (g_thread_ipc_ext u)[ext_index t := zero_ext]\<rparr>)"
    using u(2) objects_set_ext[of u zero_ext "ext_index t"] zero_table_ok by (simp add: ipc_inv_def zero_ext_def)
  then show ?thesis by (simp add: sched_ipc_cleanup_thread_def u(1))
qed

lemma create_thread_inv:
  assumes "ipc_inv s" "sched_create_thread nm ent a prio s = Some (r, s')"
  shows "ipc_inv s'"
proof -
  have ok: "objects_ok s" "running s" using assms(1) by (simp_all add: ipc_inv_def)
  have "heap_inv (kheap s)" "length (g_thread_ipc_ext s) = SCHED_MAX_THREADS" using ok(1) by (simp_all add: objects_ok_def)
  then show ?thesis
  proof (cases rule: create_thread_cases[where nm = nm and ent = ent and a = a and prio = prio])
    case 1
    then show ?thesis using assms by simp
  next
    case (2 i p h)
    let ?t = "new_thread (g_next_pid s) nm ent a prio"
    let ?u = "sched_ipc_init_thread ?t (s\<lparr>g_tasks := (g_tasks s)[i := ?t], g_next_pid := g_next_pid s + 1\<rparr>)"
    have "objects_ok (s\<lparr>g_tasks := (g_tasks s)[i := ?t], g_next_pid := g_next_pid s + 1\<rparr>)"
      using ok(1) by (simp add: objects_ok_def)
    then have "objects_ok ?u" unfolding sched_ipc_init_thread_def
      by (rule objects_set_ext) (simp add: initial_table_ok)
    then have "objects_ok (upd_task i (stack_base_update (\<lambda>_. Some p)) (set_heap h ?u))"
      using 2(4) by (simp add: objects_ok_def)
    moreover have "running ?u" using ok(2) by (simp add: running_def sched_ipc_init_thread_def)
    ultimately show ?thesis using 2(5) assms(2) by (simp add: ipc_inv_def)
  qed (use assms(2) in simp)
qed

lemma exit_inv:
  assumes "ipc_inv s" "sched_exit (timer_idle_poll arch) s = Some s'"
  shows "ipc_inv s'"
proof -
  obtain c where c: "g_current_task s = Some c" "running s" "objects_ok s" using ipc_inv_current[OF assms(1)] .
  let ?u = "upd_task c (state_update (\<lambda>_. THREAD_STATE_TERMINATED)) s"
  let ?v = "?u\<lparr>g_tasks := map (\<lambda>t. if state t = THREAD_STATE_BLOCKED then t\<lparr>state := THREAD_STATE_READY\<rparr> else t) (g_tasks ?u)\<rparr>"
  have "running ?v" "same_objects s ?v" using c(2) by (simp_all add: running_def same_objects_def)
  then have "ipc_inv ?v" by (rule ipc_inv_same[OF assms(1)])
  then show ?thesis using assms(2) c(1) ipc_inv_schedule(1)[of ?v arch s'] by (simp add: sched_exit_def Let_def)
qed

section \<open>Reachable states\<close>

text \<open>
  Boot in the order of \<^verbatim>\<open>virt_main.c\<close>, then any sequence of system calls by the running threads,
  continuations of blocked calls, creation, exit and clean-up of threads, and scheduling.
\<close>
inductive ipc_reach :: "timer_arch \<Rightarrow> ipc \<Rightarrow> bool" for arch where
  boot: "\<lbrakk>heap_inv (kheap s); \<not> in_sched s\<rbrakk> \<Longrightarrow> ipc_reach arch (ipc_subsystem_init (sched_init s))"
| call: "\<lbrakk>ipc_reach arch s; ipc_syscall_dispatch arch umsg ustr num a1 a2 a3 s = Some (r, s')\<rbrakk> \<Longrightarrow> ipc_reach arch s'"
| resume: "\<lbrakk>ipc_reach arch s; cont_ok k; ipc_resume arch k s = Some (r, s')\<rbrakk> \<Longrightarrow> ipc_reach arch s'"
| create: "\<lbrakk>ipc_reach arch s; sched_create_thread nm ent a prio s = Some (t, s')\<rbrakk> \<Longrightarrow> ipc_reach arch s'"
| cleanup: "\<lbrakk>ipc_reach arch s; sched_ipc_cleanup_thread t s = Some s'\<rbrakk> \<Longrightarrow> ipc_reach arch s'"
| exit: "\<lbrakk>ipc_reach arch s; sched_exit (timer_idle_poll arch) s = Some s'\<rbrakk> \<Longrightarrow> ipc_reach arch s'"
| switch: "\<lbrakk>ipc_reach arch s; sched_schedule (timer_idle_poll arch) s = Some s'\<rbrakk> \<Longrightarrow> ipc_reach arch s'"

lemma boot_inv:
  assumes "heap_inv (kheap s)" "\<not> in_sched s"
  shows "ipc_inv (ipc_subsystem_init (sched_init s))"
proof -
  have "table_ok (cap_table zero_ext)" using zero_table_ok by (simp add: zero_ext_def)
  moreover have "running (ipc_subsystem_init (sched_init s))"
    using assms(2) by (simp add: running_def ipc_subsystem_init_def sched_init_def sched_ipc_init_thread_def Let_def MAX_TASKS_def)
  ultimately show ?thesis
    using assms(1) initial_namespace_ok
    by (simp add: ipc_inv_def objects_ok_def ipc_subsystem_init_def sched_init_def sched_ipc_init_thread_def Let_def
        endpoint_ok_def port_ok_def queue_ok_def zero_endpoint_def zero_port_def)
qed

lemma reach_inv: "ipc_reach arch s \<Longrightarrow> ipc_inv s"
proof (induction rule: ipc_reach.induct)
  case (boot s)
  then show ?case by (rule boot_inv)
next
  case (call s umsg ustr num a1 a2 a3 r s')
  then show ?case using dispatch_inv by blast
next
  case (resume s k r s')
  then show ?case using resume_inv(1) by blast
next
  case (create s nm ent a prio t s')
  then show ?case using create_thread_inv by blast
next
  case (cleanup s t s')
  then show ?case using cleanup_thread_inv[of s t] by auto
next
  case (exit s s')
  then show ?case using exit_inv by blast
next
  case (switch s s')
  then show ?case using ipc_inv_schedule(1) by blast
qed

text \<open>A kernel before boot, with an empty heap.\<close>
definition cold :: ipc where
  "cold = timer.extend (sched.extend (demo_sched [] 1) (timer.fields 0 0 0 0 0 42 (\<lambda>_. 0) (\<lambda>_. 0) 0))
    (ipc.fields [] [] [] initial_namespace)"

definition booted :: ipc where "booted = ipc_subsystem_init (sched_init cold)"

lemma booted_reach: "ipc_reach arch booted"
  unfolding booted_def
  by (rule ipc_reach.boot) (simp_all add: cold_def demo_sched_def sched.defs timer.defs ipc.defs heap0_inv)

end
