(* ===== verification/Sage_Syscall_Inv.thy ===== *)
theory Sage_Syscall_Inv
  imports Sage_Syscall Sage_IPC_Inv
begin

text \<open>
  The invariant of the kernel state between system calls: the scheduler runs a thread of its table, the
  IPC objects and the heap are well-formed (\<open>Sage_IPC_Inv\<close>), and every process has a descriptor table of
  \<open>MAX_FD\<close> entries whose paths fit their buffers, a working directory that fits, and a parent inside the
  thread table. First the part about processes is shown for the scheduler and the IPC calls, then every
  system call and every continuation of a blocked call is shown to keep the whole invariant, and last
  that it holds in all states reachable from boot.
\<close>

section \<open>Well-formed processes\<close>

definition fd_ok :: "fd_entry \<Rightarrow> bool" where
  "fd_ok e \<longleftrightarrow> length (fd_path e) < VFS_MAX_PATH"

definition proc_ok :: "thread \<Rightarrow> bool" where
  "proc_ok t \<longleftrightarrow> length (fd_table t) = MAX_FD \<and> (\<forall>e\<in>set (fd_table t). fd_ok e) \<and> length (cwd t) \<le> 255 \<and>
    (\<forall>p. parent t = Some p \<longrightarrow> p < MAX_TASKS)"

definition procs_ok :: "'a sched_scheme \<Rightarrow> bool" where
  "procs_ok s \<longleftrightarrow> (\<forall>t\<in>set (g_tasks s). proc_ok t)"

lemma procs_ok_same: "g_tasks s' = g_tasks s \<Longrightarrow> procs_ok s \<Longrightarrow> procs_ok s'"
  by (simp add: procs_ok_def)

lemma procs_ok_upd: "procs_ok s \<Longrightarrow> (\<And>t. proc_ok t \<Longrightarrow> proc_ok (f t)) \<Longrightarrow> procs_ok (upd_task i f s)"
  by (cases "i < length (g_tasks s)") (auto simp: procs_ok_def upd_task_def list_update_beyond dest: set_update_subset_insert[THEN subsetD])

lemma proc_ok_simps [simp]:
  "proc_ok (t\<lparr>state := x\<rparr>) = proc_ok t" "proc_ok (t\<lparr>wait_next := w\<rparr>) = proc_ok t" "proc_ok (t\<lparr>stack_base := b\<rparr>) = proc_ok t"
  "proc_ok (t\<lparr>exit_code := c\<rparr>) = proc_ok t" "proc_ok (t\<lparr>saved_elf_data := d\<rparr>) = proc_ok t" "proc_ok (t\<lparr>heap_end := h\<rparr>) = proc_ok t"
  by (simp_all add: proc_ok_def)

lemma proc_ok_zero: "proc_ok zero_thread"
  by (simp add: proc_ok_def zero_thread_def zero_fd_def fd_ok_def MAX_FD_def VFS_MAX_PATH_def)

lemma procs_frames [simp]:
  "procs_ok (upd_cap_table t f s) = procs_ok s" "procs_ok (klog ev a b s) = procs_ok s" "procs_ok (set_heap h s) = procs_ok s"
  "procs_ok (s\<lparr>in_sched := b1\<rparr>) = procs_ok s" "procs_ok (s\<lparr>g_current_task := ct\<rparr>) = procs_ok s"
  "procs_ok (sched_ipc_init_thread t s) = procs_ok s" "procs_ok (s\<lparr>kheap := hp\<rparr>) = procs_ok s"
  using set_heap_eq[of h s] by (auto simp: procs_ok_def klog_def sched_ipc_init_thread_def upd_cap_table_def)

lemma procs_frames_ipc [simp]:
  "procs_ok (upd_endpoint e g s) = procs_ok s" "procs_ok (upd_port p h s) = procs_ok s"
  "procs_ok (s\<lparr>g_endpoints := es\<rparr>) = procs_ok s" "procs_ok (s\<lparr>g_ports := ps\<rparr>) = procs_ok s"
  "procs_ok (s\<lparr>g_namespace := ns\<rparr>) = procs_ok s" "procs_ok (s\<lparr>g_shm := sh\<rparr>) = procs_ok s"
  "procs_ok (s\<lparr>g_thread_ipc_ext := ex\<rparr>) = procs_ok s"
  by (simp_all add: procs_ok_def)

lemma procs_init: "procs_ok (sched_init s)"
  using proc_ok_zero by (auto simp: sched_init_def Let_def procs_ok_def proc_ok_def sched_ipc_init_thread_def)

lemma procs_current: "procs_ok s \<Longrightarrow> procs_ok (snd (current_task s))"
  using procs_init by (auto simp: current_task_def sched_current_thread_def Let_def)

lemma procs_schedule:
  fixes s :: "'a ipc_scheme"
  assumes "procs_ok s" "sched_schedule (timer_idle_poll arch) s = Some s'"
  shows "procs_ok s'"
proof (cases "g_sched_inited s \<and> \<not> in_sched s")
  case True
  let ?cur = "case g_current_task s of Some p \<Rightarrow> if p < MAX_TASKS then p else 0 | None \<Rightarrow> 0"
  obtain n s1 where w: "wait_runnable (timer_idle_poll arch) ?cur (s\<lparr>in_sched := True\<rparr>) = Some (n, s1)"
    using assms(2) True by (auto simp: sched_schedule_def Let_def split: bind_splits)
  then have "g_tasks s1 = g_tasks s" using wait_runnable_frame[OF w] by simp
  then have "procs_ok s1" using assms(1) by (simp add: procs_ok_def)
  then have "procs_ok (switch_to prev n s1)" for prev
    by (auto simp: switch_to_def Let_def split: option.splits intro!: procs_ok_upd)
  with \<open>procs_ok s1\<close> show ?thesis using assms(2) True w by (auto simp: sched_schedule_def Let_def split: if_splits option.splits)
next
  case False
  then show ?thesis using assms by (auto simp: sched_schedule_def)
qed

lemma procs_block:
  fixes s :: "'a ipc_scheme"
  assumes "procs_ok s" "sched_block (timer_idle_poll arch) s = Some s'"
  shows "procs_ok s'"
proof (cases "g_current_task s")
  case (Some c)
  let ?s = "upd_task c (state_update (\<lambda>_. THREAD_STATE_BLOCKED)) s"
  have "procs_ok ?s" using assms(1) by (rule procs_ok_upd) simp
  moreover have "sched_schedule (timer_idle_poll arch) ?s = Some s'" using assms(2) Some by (simp add: sched_block_def)
  ultimately show ?thesis by (rule procs_schedule)
qed (use assms in \<open>simp add: sched_block_def\<close>)

lemma procs_unblock: "procs_ok s \<Longrightarrow> procs_ok (sched_unblock t s)"
  by (auto simp: sched_unblock_def split: option.split intro: procs_ok_upd)

lemma procs_wait_enqueue: "procs_ok s \<Longrightarrow> ipc_wait_enqueue t q s = Some (q', s') \<Longrightarrow> procs_ok s'"
  by (auto simp: ipc_wait_enqueue_def Let_def split: prod.splits option.splits intro!: procs_ok_upd)

lemma procs_enqueue: "procs_ok s \<Longrightarrow> ipc_msg_enqueue e msg s = Some (r, s') \<Longrightarrow> procs_ok s'"
  by (auto simp: ipc_msg_enqueue_def Let_def split: if_splits option.splits intro!: procs_unblock)

lemma procs_dequeue: "procs_ok s \<Longrightarrow> ipc_msg_dequeue e s = Some (r, s') \<Longrightarrow> procs_ok s'"
  by (auto simp: ipc_msg_dequeue_def Let_def split: if_splits option.splits)

lemma procs_heap:
  "kmalloc n tag s = Some (p, s') \<Longrightarrow> procs_ok s' = procs_ok s" "kfree q s = Some s' \<Longrightarrow> procs_ok s' = procs_ok s"
  by (auto simp: kmalloc_def kfree_def)

lemma procs_free_ring: "free_ring e s = Some s' \<Longrightarrow> procs_ok s' = procs_ok s"
  by (auto simp: free_ring_def procs_heap(2) split: if_splits)

lemma procs_alloc_rings: "alloc_rings i j s = Some s' \<Longrightarrow> procs_ok s' = procs_ok s"
  by (auto simp: alloc_rings_def Let_def procs_heap(1) split: bind_splits)

lemma procs_send_caps: "procs_ok (snd (send_caps t flags hs s)) = procs_ok s"
  by (induction t flags hs s rule: send_caps.induct) (auto split: option.split)

text \<open>A call that starts by looking up the current thread.\<close>
lemma procs_with_current:
  assumes "procs_ok s" "(case current_task s of (None, s0) \<Rightarrow> ret (-1) s0 | (Some c, s0) \<Rightarrow> f c s0) = Some (r, s')"
    "\<And>c s0. procs_ok s0 \<Longrightarrow> f c s0 = Some (r, s') \<Longrightarrow> procs_ok s'"
  shows "procs_ok s'"
proof -
  obtain t s0 where "current_task s = (t, s0)" by fastforce
  with procs_current[OF assms(1)] assms(2,3) show ?thesis by (auto simp: ret_def split: option.splits)
qed

lemmas procs_splits = option.splits bind_splits if_splits prod.splits bool.splits

lemma procs_create_endpoints:
  assumes "procs_ok s" "create_endpoints s = Some (r, s')"
  shows "procs_ok s'"
  by (rule procs_with_current[OF assms[unfolded create_endpoints_def]])
    (auto simp: Let_def ret_def kill_pair_def link_pair_def procs_free_ring procs_alloc_rings split: option.splits bind_splits if_splits)

lemma procs_endpoint_create: "procs_ok s \<Longrightarrow> sys_ipc_endpoint_create o1 o2 s = Some (r, s') \<Longrightarrow> procs_ok s'"
  by (auto simp: sys_ipc_endpoint_create_def split: bind_splits dest!: user_store_SomeD dest: procs_create_endpoints)

lemma procs_send:
  assumes "procs_ok s" "sys_ipc_send h m fl s = Some (r, s')"
  shows "procs_ok s'"
proof -
  obtain t s0 where c: "current_task s = (t, s0)" by fastforce
  then have s0: "procs_ok s0" using procs_current[OF assms(1)] by simp
  show ?thesis
  proof (cases t)
    case (Some i)
    have "procs_ok s2" if "send_caps (g_tasks s0 ! i) fl hs (klog TRACE_IPC_SEND (ucast h) (ucast fl) s0) = (b, s2)" for hs b s2
      using that procs_send_caps[of "g_tasks s0 ! i" fl] s0 by (metis procs_frames(2) snd_conv)
    then show ?thesis using assms(2) s0 Some c
      by (auto simp: sys_ipc_send_def Let_def split: procs_splits intro: procs_enqueue)
  qed (use assms(2) c s0 in \<open>simp add: sys_ipc_send_def\<close>)
qed

lemma procs_wait_block:
  assumes "procs_ok s" "ipc_wait_enqueue t q s = Some (q', s1)"
  shows "sched_block (timer_idle_poll arch) (upd_endpoint e f s1) = Some s' \<Longrightarrow> procs_ok s'"
    "sched_block (timer_idle_poll arch) (upd_port p g s1) = Some s' \<Longrightarrow> procs_ok s'"
  using procs_wait_enqueue[OF assms] procs_block[of "upd_endpoint e f s1" arch s'] procs_block[of "upd_port p g s1" arch s'] by simp_all

lemma procs_recv:
  assumes "procs_ok s" "sys_ipc_recv arch h um fl s = Some (r, s')"
  shows "procs_ok s'"
  by (rule procs_with_current[OF assms[unfolded sys_ipc_recv_def]])
    (auto simp: Let_def ret_def recv_result_def split: procs_splits sum.splits dest: procs_dequeue procs_wait_block(1))

lemma procs_call:
  assumes "procs_ok s" "sys_ipc_call arch h m resp s = Some (r, s')"
  shows "procs_ok s'"
  by (rule procs_with_current[OF assms[unfolded sys_ipc_call_def]])
    (auto simp: Let_def ret_def split: procs_splits dest: procs_send procs_recv)

lemma procs_accept: "procs_ok s \<Longrightarrow> accept_loop arch p c oc s = Some (r, s') \<Longrightarrow> procs_ok s'"
  by (auto simp: accept_loop_def Let_def ret_def split: procs_splits ipc_result.splits ipc_out.splits
      dest: procs_wait_block(2) procs_create_endpoints)

lemma procs_drain: "procs_ok s \<Longrightarrow> drain_loop arch e s = Some (r, s') \<Longrightarrow> procs_ok s'"
  by (auto simp: drain_loop_def ret_def sched_yield_def split: procs_splits intro: procs_schedule)

lemma procs_destroy_object: "destroy_object cap s = Some s' \<Longrightarrow> procs_ok s' = procs_ok s"
  by (auto simp: destroy_object_def Let_def procs_free_ring split: procs_splits ipc_obj_type.splits)

lemma procs_ipc_calls:
  assumes "procs_ok s"
  shows "sys_ipc_port_create n oc s = Some (r, s') \<Longrightarrow> procs_ok s'"
    "sys_ipc_port_accept arch h oc s = Some (r, s') \<Longrightarrow> procs_ok s'"
    "sys_ipc_ns_register nm h s = Some (r, s') \<Longrightarrow> procs_ok s'"
    "sys_ipc_ns_lookup nm oc s = Some (r, s') \<Longrightarrow> procs_ok s'"
    "sys_ipc_object_destroy h s = Some (r, s') \<Longrightarrow> procs_ok s'"
    "sys_ipc_object_pause h s = Some (r, s') \<Longrightarrow> procs_ok s'"
    "sys_ipc_object_resume h s = Some (r, s') \<Longrightarrow> procs_ok s'"
    "sys_ipc_object_drain arch h s = Some (r, s') \<Longrightarrow> procs_ok s'"
    "sys_ipc_cap_narrow h x s = Some (r, s') \<Longrightarrow> procs_ok s'"
    "sys_ipc_cap_dup h oh s = Some (r, s') \<Longrightarrow> procs_ok s'"
proof -
  show "procs_ok s'" if "sys_ipc_port_create n oc s = Some (r, s')"
    by (rule procs_with_current[OF assms that[unfolded sys_ipc_port_create_def]])
      (auto simp: Let_def ret_def ipc_lifecycle_transition_def procs_destroy_object split: procs_splits)
  show "procs_ok s'" if "sys_ipc_port_accept arch h oc s = Some (r, s')"
    by (rule procs_with_current[OF assms that[unfolded sys_ipc_port_accept_def]])
      (auto simp: Let_def ret_def ipc_lifecycle_transition_def procs_destroy_object split: procs_splits dest: procs_accept)
  show "procs_ok s'" if "sys_ipc_ns_register nm h s = Some (r, s')"
    by (rule procs_with_current[OF assms that[unfolded sys_ipc_ns_register_def]])
      (auto simp: Let_def ret_def ipc_lifecycle_transition_def procs_destroy_object split: procs_splits)
  show "procs_ok s'" if "sys_ipc_ns_lookup nm oc s = Some (r, s')"
    by (rule procs_with_current[OF assms that[unfolded sys_ipc_ns_lookup_def]])
      (auto simp: Let_def ret_def ipc_lifecycle_transition_def procs_destroy_object split: procs_splits)
  show "procs_ok s'" if "sys_ipc_object_destroy h s = Some (r, s')"
    by (rule procs_with_current[OF assms that[unfolded sys_ipc_object_destroy_def]])
      (auto simp: Let_def ret_def ipc_lifecycle_transition_def procs_destroy_object split: procs_splits)
  show "procs_ok s'" if "sys_ipc_object_pause h s = Some (r, s')"
    by (rule procs_with_current[OF assms that[unfolded sys_ipc_object_pause_def]])
      (auto simp: Let_def ret_def ipc_lifecycle_transition_def procs_destroy_object split: procs_splits)
  show "procs_ok s'" if "sys_ipc_object_resume h s = Some (r, s')"
    by (rule procs_with_current[OF assms that[unfolded sys_ipc_object_resume_def]])
      (auto simp: Let_def ret_def ipc_lifecycle_transition_def procs_destroy_object split: procs_splits)
  show "procs_ok s'" if "sys_ipc_object_drain arch h s = Some (r, s')"
    by (rule procs_with_current[OF assms that[unfolded sys_ipc_object_drain_def]])
      (auto simp: Let_def ret_def ipc_lifecycle_transition_def procs_destroy_object split: procs_splits dest: procs_drain[rotated])
  show "procs_ok s'" if "sys_ipc_cap_narrow h x s = Some (r, s')"
    by (rule procs_with_current[OF assms that[unfolded sys_ipc_cap_narrow_def]])
      (auto simp: Let_def ret_def ipc_lifecycle_transition_def procs_destroy_object split: procs_splits)
  show "procs_ok s'" if "sys_ipc_cap_dup h oh s = Some (r, s')"
    by (rule procs_with_current[OF assms that[unfolded sys_ipc_cap_dup_def]])
      (auto simp: Let_def ret_def ipc_lifecycle_transition_def procs_destroy_object split: procs_splits)
qed

lemma procs_dispatch:
  assumes "procs_ok s" "ipc_syscall_dispatch arch um us num a1 a2 a3 s = Some (r, s')"
  shows "procs_ok s'"
  using assms(2) unfolding ipc_syscall_dispatch_def sys_ipc_cap_revoke_def
  by (simp only: split: if_split_asm)
    (use assms(1) in \<open>auto simp: ret_def dest: procs_ipc_calls[OF assms(1)] procs_send[OF assms(1)] procs_recv[OF assms(1)]
      procs_call[OF assms(1)] procs_endpoint_create[OF assms(1)]\<close>)

lemma procs_resume: "procs_ok s \<Longrightarrow> ipc_resume arch cont s = Some (r, s') \<Longrightarrow> procs_ok s'"
  by (cases cont)
    (auto simp: recv_result_def ret_def split: bind_splits sum.splits dest: procs_schedule procs_dequeue procs_accept procs_drain[rotated])

lemma procs_cleanup:
  assumes "procs_ok s" "sched_ipc_cleanup_thread t s = Some s'"
  shows "procs_ok s'"
proof -
  have slot: "procs_ok s2" if "procs_ok s1" "cleanup_slot t i s1 = Some s2" for i s1 s2
    using that procs_ipc_calls(5)[of "upd_cap_table t f s1" for f]
    by (auto simp: cleanup_slot_def Let_def split: procs_splits)
  have "procs_ok s2" if "procs_ok s1" "cleanup_slots t is s1 = Some s2" for "is" s1 s2
    using that by (induction "is" arbitrary: s1) (auto split: bind_splits dest: slot)
  with assms show ?thesis by (auto simp: sched_ipc_cleanup_thread_def split: bind_splits)
qed

lemma procs_create:
  assumes "procs_ok s" "sched_create_thread nm ent a prio s = Some (t, s')"
  shows "procs_ok s'"
proof -
  have new: "proc_ok (new_thread pid nm ent a prio)" for pid
    using proc_ok_zero by (simp add: new_thread_def proc_ok_def)
  have ts: "\<forall>x\<in>set ts. proc_ok x" if "alloc_thread (new_thread pid nm ent a prio) (g_tasks s) = Some (i, ts)" for pid i ts
    using that assms(1) new set_update_subset_insert[of "g_tasks s" i "new_thread pid nm ent a prio"]
    by (auto simp: alloc_thread_def procs_ok_def split: option.splits)
  show ?thesis using assms
  proof (cases "alloc_thread (new_thread (g_next_pid s) nm ent a prio) (g_tasks s)")
    case (Some r)
    obtain i ts where r: "r = (i, ts)" by fastforce
    let ?s = "sched_ipc_init_thread (new_thread (g_next_pid s) nm ent a prio) (s\<lparr>g_tasks := ts, g_next_pid := g_next_pid s + 1\<rparr>)"
    have "procs_ok ?s" using ts Some r by (simp add: procs_ok_def sched_ipc_init_thread_def)
    then have "procs_ok s2" if "kmalloc SCHED_STACK_SIZE ALLOC_TAG_KERNEL ?s = Some (p, s2)" for p s2
      using procs_heap(1)[OF that] by simp
    then show ?thesis using assms(2) Some r
      by (auto simp: sched_create_thread_def Let_def split: bind_splits if_splits intro!: procs_ok_upd)
  qed (auto simp: sched_create_thread_def Let_def)
qed

lemma procs_exit:
  fixes s :: "'a ipc_scheme"
  assumes "procs_ok s" "sched_exit (timer_idle_poll arch) s = Some s'"
  shows "procs_ok s'"
proof (cases "g_current_task s")
  case (Some c)
  let ?s1 = "upd_task c (state_update (\<lambda>_. THREAD_STATE_TERMINATED)) s"
  let ?s2 = "?s1\<lparr>g_tasks := map (\<lambda>t. if state t = THREAD_STATE_BLOCKED then t\<lparr>state := THREAD_STATE_READY\<rparr> else t) (g_tasks ?s1)\<rparr>"
  have "procs_ok ?s1" using assms(1) by (rule procs_ok_upd) simp
  then have "procs_ok ?s2" by (auto simp: procs_ok_def)
  moreover have "sched_schedule (timer_idle_poll arch) ?s2 = Some s'" using assms(2) Some by (simp add: sched_exit_def Let_def)
  ultimately show ?thesis by (rule procs_schedule)
qed (use assms in \<open>simp add: sched_exit_def\<close>)

section \<open>The kernel invariant\<close>

definition kernel_ok :: "'w kernel \<Rightarrow> bool" where
  "kernel_ok k \<longleftrightarrow> ipc_inv (core k) \<and> procs_ok (core k)"

lemma kernel_ok_updates [simp]:
  "kernel_ok (k\<lparr>files := v\<rparr>) = kernel_ok k" "kernel_ok (k\<lparr>console := out\<rparr>) = kernel_ok k" "kernel_ok (k\<lparr>klogbuf := b\<rparr>) = kernel_ok k"
  "kernel_ok (k\<lparr>umem := m\<rparr>) = kernel_ok k" "kernel_ok (k\<lparr>power := p\<rparr>) = kernel_ok k"
  "kernel_ok (k\<lparr>core := s\<rparr>) \<longleftrightarrow> ipc_inv s \<and> procs_ok s" "kernel_ok (security_log env msg k) = kernel_ok k"
  by (simp_all add: kernel_ok_def security_log_def)

lemma kernel_ok_task:
  assumes "kernel_ok k"
  obtains c where "the_task k = (Some c, k)" "c < MAX_TASKS" "proc_ok (task_at c k)" "g_current_task (core k) = Some c"
proof -
  obtain c where c: "g_current_task (core k) = Some c" "c < MAX_TASKS" "current_task (core k) = (Some c, core k)"
    "length (g_tasks (core k)) = MAX_TASKS"
    using ipc_inv_current[of "core k"] assms by (auto simp: kernel_ok_def running_def)
  then have "the_task k = (Some c, k)" by (simp add: the_task_def)
  moreover have "proc_ok (task_at c k)" using assms c by (simp add: kernel_ok_def procs_ok_def task_at_def)
  ultimately show ?thesis using that c by blast
qed

lemma ipc_inv_upd_task [simp]: "ipc_inv (upd_task i f s) = ipc_inv s"
  using objects_ok_same[OF same_objects_task(1), of i f s] by (simp add: ipc_inv_def)

lemma ipc_inv_klog [simp]: "ipc_inv (klog ev a b s) = ipc_inv s"
  using objects_ok_same[OF same_objects_task(2), of ev a b s] by (simp add: ipc_inv_def)

lemma kernel_ok_set_task:
  "kernel_ok k \<Longrightarrow> (\<And>t. proc_ok t \<Longrightarrow> proc_ok (f t)) \<Longrightarrow> kernel_ok (set_task c f k)"
  by (simp add: kernel_ok_def set_task_def procs_ok_upd)

lemma proc_ok_set_fd:
  assumes "proc_ok t" "\<And>e. fd_ok e \<Longrightarrow> fd_ok (f e)"
  shows "proc_ok (t\<lparr>fd_table := (fd_table t)[i := f (fd_table t ! i)]\<rparr>)"
proof (cases "i < length (fd_table t)")
  case True
  then have "fd_ok (f (fd_table t ! i))" using assms by (simp add: proc_ok_def)
  then show ?thesis using assms(1) set_update_subset_insert[of "fd_table t" i] by (auto simp: proc_ok_def)
next
  case False
  then show ?thesis using assms(1) by (simp add: proc_ok_def list_update_beyond)
qed

lemma kernel_ok_set_fd: "kernel_ok k \<Longrightarrow> (\<And>e. fd_ok e \<Longrightarrow> fd_ok (f e)) \<Longrightarrow> kernel_ok (set_fd c fd f k)"
  unfolding set_fd_def by (rule kernel_ok_set_task) (auto intro: proc_ok_set_fd)

lemma ipc_inv_heap:
  assumes "ipc_inv s" "heap_inv h"
  shows "ipc_inv (set_heap h s)"
  using assms by (simp add: ipc_inv_def objects_ok_def)

lemma ipc_inv_kheap: "ipc_inv s \<Longrightarrow> heap_inv (kheap s)"
  by (simp add: ipc_inv_def objects_ok_def)

lemma ipc_inv_kmalloc:
  assumes "ipc_inv s" "kmalloc n tag s = Some (p, s')"
  shows "ipc_inv s'"
proof -
  obtain h where h: "sage_malloc_tagged n tag (kheap s) = Some (p, h)" "s' = set_heap h s"
    using assms(2) by (auto simp: kmalloc_def)
  show ?thesis unfolding h(2) by (rule ipc_inv_heap[OF assms(1) malloc_inv[OF ipc_inv_kheap[OF assms(1)] h(1)]])
qed

lemma ipc_inv_kfree:
  assumes "ipc_inv s" "kfree q s = Some s'"
  shows "ipc_inv s'"
proof -
  obtain h where h: "sage_free q (kheap s) = Some h" "s' = set_heap h s"
    using assms(2) by (auto simp: kfree_def)
  show ?thesis unfolding h(2) by (rule ipc_inv_heap[OF assms(1) free_inv[OF ipc_inv_kheap[OF assms(1)] h(1)]])
qed

lemma kernel_ok_heap:
  assumes "kernel_ok k"
  shows "kmalloc n tag (core k) = Some (p, s) \<Longrightarrow> ipc_inv s \<and> procs_ok s" "kfree q (core k) = Some s \<Longrightarrow> ipc_inv s \<and> procs_ok s"
proof -
  have k: "ipc_inv (core k)" "procs_ok (core k)" using assms by (simp_all add: kernel_ok_def)
  show "ipc_inv s \<and> procs_ok s" if "kmalloc n tag (core k) = Some (p, s)"
    using ipc_inv_kmalloc[OF k(1) that] procs_heap(1)[OF that] k(2) by simp
  show "ipc_inv s \<and> procs_ok s" if "kfree q (core k) = Some s"
    using ipc_inv_kfree[OF k(1) that] procs_heap(2)[OF that] k(2) by simp
qed

lemma ipc_inv_bytes [simp]: "ipc_inv (s\<lparr>kheap := (kheap s)\<lparr>bytes := b\<rparr>\<rparr>) = ipc_inv s"
  by (simp add: ipc_inv_def objects_ok_def running_def)

lemma ipc_inv_clock [simp]:
  "ipc_inv (s\<lparr>timer_ticks := t\<rparr>) = ipc_inv s" "ipc_inv (s\<lparr>g_next_tick_time := n\<rparr>) = ipc_inv s"
  "ipc_inv (s\<lparr>g_flip_counter := f\<rparr>) = ipc_inv s" "ipc_inv (s\<lparr>hw_reads := r\<rparr>) = ipc_inv s" "ipc_inv (s\<lparr>ktrace := tr\<rparr>) = ipc_inv s"
  "ipc_inv (s\<lparr>last_counter := c\<rparr>) = ipc_inv s" "ipc_inv (s\<lparr>ticks_since_update := u\<rparr>) = ipc_inv s"
  by (simp_all add: ipc_inv_def objects_ok_def running_def)

lemma procs_ok_clock [simp]:
  "procs_ok (s\<lparr>timer_ticks := t\<rparr>) = procs_ok s" "procs_ok (s\<lparr>g_next_tick_time := n\<rparr>) = procs_ok s"
  "procs_ok (s\<lparr>g_flip_counter := f\<rparr>) = procs_ok s" "procs_ok (s\<lparr>hw_reads := r\<rparr>) = procs_ok s" "procs_ok (s\<lparr>ktrace := tr\<rparr>) = procs_ok s"
  "procs_ok (s\<lparr>last_counter := c\<rparr>) = procs_ok s" "procs_ok (s\<lparr>ticks_since_update := u\<rparr>) = procs_ok s"
  by (simp_all add: procs_ok_def)

section \<open>Every call keeps the invariant\<close>

lemma kernel_okD: "kernel_ok k \<Longrightarrow> ipc_inv (core k)" "kernel_ok k \<Longrightarrow> procs_ok (core k)"
  by (simp_all add: kernel_ok_def)

lemma kernel_ok_sret [simp]: "sret r k = Some (x, k') \<longleftrightarrow> x = Ret r Sys_none \<and> k' = k"
  by (auto simp: sret_def)

lemma kernel_ok_denied: "denied env msg k = Some (r, k') \<Longrightarrow> kernel_ok k' = kernel_ok k"
  by (auto simp: denied_def)

lemma kernel_ok_offset: "kernel_ok k \<Longrightarrow> kernel_ok (set_fd c fd (offset_update f) k)"
  by (rule kernel_ok_set_fd) (simp_all add: fd_ok_def)

lemma kernel_ok_write:
  assumes "kernel_ok k" "sys_write env fd buf k = Some (r, k')"
  shows "kernel_ok k'"
proof -
  obtain c where "the_task k = (Some c, k)" using kernel_ok_task[OF assms(1)] .
  then show ?thesis using assms
    by (auto simp: sys_write_def Let_def kernel_ok_denied intro!: kernel_ok_offset split: option.splits if_splits bind_splits)
qed

lemma kernel_ok_read:
  assumes "kernel_ok k" "sys_read env fd nn n k = Some (r, k')"
  shows "kernel_ok k'"
proof -
  obtain c where "the_task k = (Some c, k)" using kernel_ok_task[OF assms(1)] .
  then show ?thesis using assms
    by (auto simp: sys_read_def Let_def kernel_ok_denied intro!: kernel_ok_offset split: option.splits if_splits bind_splits sum.splits)
qed

lemma kernel_ok_open_fd:
  assumes "open_fd p flags st c (k\<lparr>files := v\<rparr>) = Some (r, k')" "kernel_ok k" "length p < VFS_MAX_PATH"
  shows "kernel_ok k'"
  using assms by (auto simp: open_fd_def fd_ok_def intro!: kernel_ok_set_fd split: option.splits)

lemma path_length: "\<not> VFS_MAX_PATH \<le> safe_strnlen (Some p) 1024 \<Longrightarrow> length p < VFS_MAX_PATH"
  by (simp add: safe_strnlen_def VFS_MAX_PATH_def)

lemma kernel_ok_open:
  assumes "kernel_ok k" "sys_open env path flags k = Some (r, k')"
  shows "kernel_ok k'"
proof -
  obtain c where "the_task k = (Some c, k)" using kernel_ok_task[OF assms(1)] .
  then show ?thesis using assms
    by (auto simp: sys_open_def Let_def kernel_ok_denied split: option.splits if_splits bind_splits
        dest!: path_length) (erule (2) kernel_ok_open_fd)+
qed

lemma kernel_ok_with_fd:
  assumes "kernel_ok k" "with_fd fd f k = Some (r, k')" "\<And>c. f c k = Some (r, k') \<Longrightarrow> kernel_ok k'"
  shows "kernel_ok k'"
proof -
  obtain c where "the_task k = (Some c, k)" using kernel_ok_task[OF assms(1)] .
  then show ?thesis using assms by (auto simp: with_fd_def split: if_splits)
qed

lemma kernel_ok_fd_calls:
  assumes k: "kernel_ok k"
  shows "sys_close fd k = Some (r, k') \<Longrightarrow> kernel_ok k'"
    "sys_lseek env fd off wh k = Some (r, k') \<Longrightarrow> kernel_ok k'"
    "sys_fstat env fd nn k = Some (r, k') \<Longrightarrow> kernel_ok k'"
    "sys_getdents64 env fd nn n k = Some (r, k') \<Longrightarrow> kernel_ok k'"
proof -
  obtain c where c: "the_task k = (Some c, k)" using kernel_ok_task[OF k] .
  show "kernel_ok k'" if "sys_close fd k = Some (r, k')"
    using that unfolding sys_close_def
    by (rule kernel_ok_with_fd[OF k]) (use k in \<open>auto simp: fd_ok_def intro!: kernel_ok_set_fd\<close>)
  show "kernel_ok k'" if "sys_lseek env fd off wh k = Some (r, k')"
    using that unfolding sys_lseek_def
    by (rule kernel_ok_with_fd[OF k]) (use k in \<open>auto simp: Let_def intro!: kernel_ok_offset split: if_splits bind_splits\<close>)
  show "kernel_ok k'" if "sys_fstat env fd nn k = Some (r, k')"
    using that k c kernel_ok_with_fd[OF k] by (auto simp: sys_fstat_def with_fd_def split: if_splits bind_splits)
  show "kernel_ok k'" if "sys_getdents64 env fd nn n k = Some (r, k')"
    using that k c by (auto simp: sys_getdents64_def with_fd_def Let_def kernel_ok_denied split: if_splits bind_splits prod.splits)
qed

lemma kernel_ok_path_call:
  assumes "kernel_ok k" "path_call f msg env path k = Some (r, k')"
  shows "kernel_ok k'"
proof -
  obtain c where "the_task k = (Some c, k)" using kernel_ok_task[OF assms(1)] .
  then show ?thesis using assms
    by (auto simp: path_call_def kernel_ok_denied split: option.splits if_splits bind_splits)
qed

lemma kernel_ok_getcwd:
  assumes "kernel_ok k" "sys_getcwd buf n k = Some (r, k')"
  shows "kernel_ok k'"
proof -
  obtain c where "the_task k = (Some c, k)" using kernel_ok_task[OF assms(1)] .
  then show ?thesis using assms by (auto simp: sys_getcwd_def split: if_splits)
qed

lemma kernel_ok_chdir:
  assumes "kernel_ok k" "sys_chdir env path k = Some (r, k')"
  shows "kernel_ok k'"
proof -
  obtain c where "the_task k = (Some c, k)" using kernel_ok_task[OF assms(1)] .
  then show ?thesis using assms
    by (auto simp: sys_chdir_def Let_def kernel_ok_denied proc_ok_def intro!: kernel_ok_set_task split: option.splits if_splits bind_splits)
qed

lemma kernel_ok_dup2:
  assumes "kernel_ok k" "sys_dup2 ofd nfd k = Some (r, k')"
  shows "kernel_ok k'"
proof -
  obtain c where c: "the_task k = (Some c, k)" "proc_ok (task_at c k)" using kernel_ok_task[OF assms(1)] .
  then have "fd_ok (fd_at c ofd k)" if "fd_valid c ofd k"
    using that nth_mem[of "nat ofd" "fd_table (task_at c k)"] by (auto simp: fd_valid_def fd_at_def proc_ok_def nat_less_iff)
  then show ?thesis using assms c(1)
    by (auto simp: sys_dup2_def with_fd_def intro!: kernel_ok_set_fd split: if_splits)
qed

lemma kernel_ok_brk:
  assumes "kernel_ok k" "sys_brk a k = Some (r, k')"
  shows "kernel_ok k'"
proof -
  obtain c where "the_task k = (Some c, k)" using kernel_ok_task[OF assms(1)] .
  then show ?thesis using assms by (auto simp: sys_brk_def intro!: kernel_ok_set_task split: if_splits)
qed

lemma kernel_ok_power:
  assumes "kernel_ok k" "power_call req msg env k = Some (r, k')"
  shows "kernel_ok k'"
proof -
  obtain c where "the_task k = (Some c, k)" using kernel_ok_task[OF assms(1)] .
  then show ?thesis using assms by (auto simp: power_call_def kernel_ok_denied split: if_splits)
qed

text \<open>Waiting for time to pass.\<close>

lemma core_ok_yield:
  assumes "ipc_inv s" "procs_ok s" "sched_yield (poll env) s = Some s'"
  shows "ipc_inv s' \<and> procs_ok s'"
  using assms ipc_inv_schedule(1)[of s "env_arch env" s'] procs_schedule[of s "env_arch env" s']
  by (simp add: sched_yield_def poll_def)

lemma kernel_ok_delay_yield:
  assumes "ipc_inv s" "procs_ok s" "delay_yield env target s k = Some (r, k')"
  shows "kernel_ok k'"
  using assms(3) core_ok_yield[OF assms(1,2), of env] by (auto simp: delay_yield_def split: bind_splits)

lemma core_ok_tick:
  assumes "ipc_inv s" "procs_ok s" "sched_timer_tick (poll env) s = Some (Inr s')"
  shows "ipc_inv s' \<and> procs_ok s'"
  using assms(3) assms(1,2) core_ok_yield[of "s\<lparr>ticks_since_update := ticks_since_update s + 1\<rparr>" env s']
    core_ok_yield[of "s\<lparr>last_counter := g_watchdog_counter s, ticks_since_update := 0\<rparr>" env s']
  by (simp add: sched_timer_tick_def Let_def split: if_splits)

lemma core_ok_clock:
  fixes s :: "'a ipc_scheme"
  shows "ipc_inv (snd (delay_clock arch s)) = ipc_inv s" "procs_ok (snd (delay_clock arch s)) = procs_ok s"
    "ipc_inv (snd (delay_target arch ms s)) = ipc_inv s" "procs_ok (snd (delay_target arch ms s)) = procs_ok s"
    "ipc_inv (snd (timer_due arch s)) = ipc_inv s" "procs_ok (snd (timer_due arch s)) = procs_ok s"
    "ipc_inv (timer_irq_enter arch s) = ipc_inv s" "procs_ok (timer_irq_enter arch s) = procs_ok s"
    "ipc_inv (timer_irq_leave s) = ipc_inv s" "procs_ok (timer_irq_leave s) = procs_ok s"
proof -
  show "ipc_inv (snd (delay_clock arch s)) = ipc_inv s" "procs_ok (snd (delay_clock arch s)) = procs_ok s"
    "ipc_inv (snd (delay_target arch ms s)) = ipc_inv s" "procs_ok (snd (delay_target arch ms s)) = procs_ok s"
    by (cases arch; simp)+
  obtain b n where "timer_due arch s = (b, s\<lparr>g_next_tick_time := n, hw_reads := Suc (hw_reads s)\<rparr>)" using timer_due_frame by blast
  then show "ipc_inv (snd (timer_due arch s)) = ipc_inv s" "procs_ok (snd (timer_due arch s)) = procs_ok s" by simp_all
  obtain n r where "timer_irq_enter arch s = s\<lparr>timer_ticks := timer_ticks s + 1, g_next_tick_time := n, hw_reads := r\<rparr>"
    using timer_irq_enter_frame by blast
  then show "ipc_inv (timer_irq_enter arch s) = ipc_inv s" "procs_ok (timer_irq_enter arch s) = procs_ok s" by simp_all
  obtain tr fl where "timer_irq_leave s = s\<lparr>ktrace := tr, g_flip_counter := fl\<rparr>" using timer_irq_leave_frame by blast
  then show "ipc_inv (timer_irq_leave s) = ipc_inv s" "procs_ok (timer_irq_leave s) = procs_ok s" by simp_all
qed

lemma kernel_ok_delay:
  assumes "kernel_ok k" "delay_round env target k = Some (r, k')"
  shows "kernel_ok k'"
proof -
  obtain x s where s: "delay_clock (env_arch env) (core k) = (x, s)" by fastforce
  then have ok: "ipc_inv s" "procs_ok s" using core_ok_clock(1,2)[of "env_arch env" "core k"] kernel_okD[OF assms(1)] by simp_all
  obtain b s1 where d: "timer_due (env_arch env) s = (b, s1)" by fastforce
  then have ok1: "ipc_inv s1" "procs_ok s1" using core_ok_clock(5,6)[of "env_arch env" s] ok by simp_all
  then have tick: "ipc_inv s2 \<and> procs_ok s2" if "sched_timer_tick (poll env) (timer_irq_enter (env_arch env) s1) = Some (Inr s2)" for s2
    using core_ok_tick[OF _ _ that] by (simp add: core_ok_clock(7,8))
  show ?thesis using assms(2) s d ok tick kernel_ok_delay_yield[OF ok] kernel_ok_delay_yield[OF ok1]
    by (auto simp: delay_round_def split: if_splits bool.splits option.splits sum.splits)
qed

lemma kernel_ok_nanosleep:
  assumes "kernel_ok k" "sys_nanosleep env req k = Some (r, k')"
  shows "kernel_ok k'"
proof (cases req)
  case (Some p)
  obtain ms tg s where s: "delay_target (env_arch env) ms (core k) = (tg, s)" "delay_round env tg (k\<lparr>core := s\<rparr>) = Some (r, k')"
    using assms(2) Some by (auto simp: sys_nanosleep_def Let_def split: prod.splits)
  have "kernel_ok (k\<lparr>core := s\<rparr>)"
    using core_ok_clock(3,4)[of "env_arch env" ms "core k"] kernel_okD[OF assms(1)] s(1) by simp
  then show ?thesis using s(2) by (rule kernel_ok_delay)
qed (use assms in \<open>simp add: sys_nanosleep_def\<close>)

text \<open>Processes.\<close>

lemma kernel_ok_create:
  assumes "kernel_ok k" "sched_create_thread nm ent a prio (core k) = Some (t, s)"
  shows "ipc_inv s" "procs_ok s" "\<And>j. t = Some j \<Longrightarrow> j < MAX_TASKS"
proof -
  show "ipc_inv s" "procs_ok s"
    using create_thread_inv[OF kernel_okD(1)[OF assms(1)] assms(2)] procs_create[OF kernel_okD(2)[OF assms(1)] assms(2)] by auto
  have ok: "heap_inv (kheap (core k))" "length (g_thread_ipc_ext (core k)) = SCHED_MAX_THREADS" "length (g_tasks (core k)) = MAX_TASKS"
    using kernel_okD(1)[OF assms(1)] by (simp_all add: ipc_inv_def objects_ok_def running_def)
  show "j < MAX_TASKS" if "t = Some j" for j
    using ok(1,2)
  proof (cases rule: create_thread_cases[where nm = nm and ent = ent and a = a and prio = prio])
    case 1
    then show ?thesis using assms(2) that by simp
  next
    case (2 i p h)
    then show ?thesis using assms(2) that ok(3) by simp
  qed (use assms(2) in simp)
qed

lemma kernel_ok_switch: "kernel_ok k \<Longrightarrow> j < MAX_TASKS \<Longrightarrow> kernel_ok (k\<lparr>core := (core k)\<lparr>g_current_task := Some j\<rparr>\<rparr>)"
  by (simp add: kernel_ok_def ipc_inv_def objects_ok_def running_def)

lemma kernel_ok_vfork:
  assumes "kernel_ok k" "sys_vfork k = Some (r, k')"
  shows "kernel_ok k'"
proof -
  obtain c where c: "the_task k = (Some c, k)" "c < MAX_TASKS" using kernel_ok_task[OF assms(1)] .
  obtain t s where ts: "sched_create_thread ''vfork_child'' 0 0 (priority (task_at c k)) (core k) = Some (t, s)"
    using assms(2) c(1) by (auto simp: sys_vfork_def split: bind_splits)
  define k1 where "k1 = k\<lparr>core := s\<rparr>"
  have k1: "kernel_ok k1" using kernel_ok_create(1,2)[OF assms(1) ts] by (simp add: k1_def)
  show ?thesis
  proof (cases t)
    case (Some j)
    define p where "p = task_at c k1"
    define k2 where "k2 = set_task j (\<lambda>t. t\<lparr>parent := Some c, fd_table := fd_table p, heap_base := heap_base p,
        heap_limit := heap_limit p, heap_end := heap_end p\<rparr>) k1"
    define k4 where "k4 = (set_task c (state_update (\<lambda>_. THREAD_STATE_BLOCKED)) k2)
        \<lparr>core := (core (set_task c (state_update (\<lambda>_. THREAD_STATE_BLOCKED)) k2))\<lparr>g_current_task := Some j\<rparr>\<rparr>"
    have "proc_ok p" using k1 c(2) by (simp add: p_def task_at_def kernel_ok_def procs_ok_def ipc_inv_def running_def)
    then have "kernel_ok k2" unfolding k2_def by (intro kernel_ok_set_task[OF k1]) (use c(2) in \<open>simp add: proc_ok_def\<close>)
    then have "kernel_ok k4" unfolding k4_def
      using kernel_ok_create(3)[OF assms(1) ts Some] by (intro kernel_ok_switch kernel_ok_set_task) simp_all
    moreover have "k' = set_task j (state_update (\<lambda>_. THREAD_STATE_RUNNING)) k4"
      using assms(2) c(1) ts Some by (simp add: sys_vfork_def Let_def k4_def k2_def k1_def p_def)
    ultimately show ?thesis by (simp add: kernel_ok_set_task)
  qed (use assms(2) c(1) ts k1 in \<open>simp add: sys_vfork_def k1_def\<close>)
qed

lemma kernel_ok_spawn_task:
  assumes "kernel_ok k" "spawn_task env ent nm script k = Some (r, k')"
  shows "kernel_ok k'"
proof -
  obtain q s where q: "kmalloc (of_nat (length script + 1)) ALLOC_TAG_KERNEL (core k) = Some (q, s)"
    using assms(2) by (auto simp: spawn_task_def split: bind_splits)
  note s = kernel_ok_heap(1)[OF assms(1) q]
  show ?thesis
  proof (cases q)
    case (Some a)
    define k1 where "k1 = k\<lparr>core := s\<lparr>kheap := (kheap s)\<lparr>bytes := store a (map of_char script @ [0]) (bytes (kheap s))\<rparr>\<rparr>\<rparr>"
    have k1: "kernel_ok k1" using s by (simp add: k1_def)
    obtain t s2 where t: "sched_create_thread nm ent (env_heap env + of_nat a) THREAD_PRIORITY_NORMAL (core k1) = Some (t, s2)"
      using assms(2) q Some by (auto simp: spawn_task_def k1_def Let_def split: bind_splits)
    have k2: "kernel_ok (k\<lparr>core := s2\<rparr>)" using kernel_ok_create(1,2)[OF k1 t] by simp
    show ?thesis
    proof (cases t)
      case None
      then obtain s3 where "kfree q s2 = Some s3" "k' = k\<lparr>core := s3\<rparr>"
        using assms(2) q Some t by (auto simp: spawn_task_def k1_def Let_def split: bind_splits)
      then show ?thesis using kernel_ok_heap(2)[OF k2] by simp
    next
      case j: (Some j)
      define k3 where "k3 = set_task j (permissions_update (\<lambda>m. m OR PERM_VFS_CAP_ONLY)) (k\<lparr>core := s2\<rparr>)"
      have k3: "kernel_ok k3" unfolding k3_def by (rule kernel_ok_set_task[OF k2]) (simp add: proc_ok_def)
      obtain c where c: "the_task k3 = (Some c, k3)" using kernel_ok_task[OF k3] .
      let ?tab = "task_ipc_cap_table (task_at c k3) (core k3)"
      have "k' = k3\<lparr>core := upd_cap_table (task_at j k3) (\<lambda>x. x\<lparr>caps := caps ?tab, next_free := next_free ?tab\<rparr>) (core k3)\<rparr>"
        using assms(2) q Some t[unfolded k1_def] j c by (simp add: spawn_task_def k3_def Let_def)
      moreover have "table_ok (x\<lparr>caps := caps ?tab, next_free := next_free ?tab\<rparr>)" for x
        using objects_table[of "core k3" "task_at c k3"] k3
        by (simp add: kernel_ok_def ipc_inv_def table_ok_def cap_table_ok_def)
      ultimately show ?thesis using k3 by (simp add: kernel_ok_def ipc_inv_def objects_upd_cap_table)
    qed
  qed (use assms(2) q s in \<open>auto simp: spawn_task_def\<close>)
qed

lemma kernel_ok_spawn:
  assumes "kernel_ok k" "n_os_spawn_task env ent nm script k = Some (r, k')"
  shows "kernel_ok k'"
  using assms kernel_ok_spawn_task by (auto simp: n_os_spawn_task_def split: option.splits)

lemma kernel_ok_waitpid_round:
  assumes "kernel_ok k" "waitpid_round env t pid want k = Some (r, k')"
  shows "kernel_ok k'"
proof (cases "sched_get_thread_by_id pid (core k)")
  case (Some j)
  show ?thesis
  proof (cases "state (task_at j k) = THREAD_STATE_TERMINATED")
    case True
    then obtain s where s: "sched_ipc_cleanup_thread (task_at j k) (core k) = Some s"
        "k' = set_task j (state_update (\<lambda>_. THREAD_STATE_UNUSED)) (k\<lparr>core := s\<rparr>)"
      using assms(2) Some by (auto simp: waitpid_round_def split: bind_splits)
    have "ipc_inv s" using cleanup_thread_inv[OF kernel_okD(1)[OF assms(1)], of "task_at j k"] s(1) by auto
    then have "kernel_ok (k\<lparr>core := s\<rparr>)" using procs_cleanup[OF kernel_okD(2)[OF assms(1)] s(1)] by simp
    then show ?thesis unfolding s(2) by (simp add: kernel_ok_set_task)
  next
    case False
    then obtain c s where s: "sched_schedule (poll env) (core (set_task c (state_update (\<lambda>_. THREAD_STATE_BLOCKED)) k)) = Some s"
        "k' = k\<lparr>core := s\<rparr>"
      using assms(2) Some by (auto simp: waitpid_round_def split: bind_splits)
    have "kernel_ok (set_task c (state_update (\<lambda>_. THREAD_STATE_BLOCKED)) k)" using assms(1) by (simp add: kernel_ok_set_task)
    then show ?thesis
      using core_ok_yield[of "core (set_task c (state_update (\<lambda>_. THREAD_STATE_BLOCKED)) k)" env s] s
      by (simp add: kernel_ok_def sched_yield_def)
  qed
qed (use assms in \<open>simp add: waitpid_round_def\<close>)

lemma kernel_ok_restore_parent:
  assumes "kernel_ok k" "restore_parent env c k = Some k'"
  shows "kernel_ok k'"
  using assms(2) assms(1) kernel_ok_heap(2)[OF assms(1)]
  by (auto simp: restore_parent_def Let_def intro!: kernel_ok_set_task split: option.splits bind_splits)

lemma kernel_ok_exit:
  assumes "kernel_ok k" "sys_exit env code k = Some (r, k')"
  shows "kernel_ok k'"
proof -
  obtain c where c: "the_task k = (Some c, k)" using kernel_ok_task[OF assms(1)] .
  obtain k2 s where k2: "restore_parent env c (set_task c (exit_code_update (\<lambda>_. code)) k) = Some k2"
      "sched_exit (poll env) (core k2) = Some s" "k' = k2\<lparr>core := s\<rparr>"
    using assms(2) c by (auto simp: sys_exit_def split: bind_splits)
  have "kernel_ok (set_task c (exit_code_update (\<lambda>_. code)) k)" using assms(1) by (simp add: kernel_ok_set_task)
  then have "kernel_ok k2" using k2(1) by (rule kernel_ok_restore_parent)
  then show ?thesis using k2(2,3) exit_inv[of "core k2" "env_arch env" s] procs_exit[of "core k2" "env_arch env" s]
    by (simp add: kernel_ok_def poll_def)
qed

text \<open>Programs.\<close>

lemma core_ok_elf:
  assumes "ipc_inv s" "procs_ok s" "elf_exec arch hb kern d argv envp s m = Some (r, s', m')"
  shows "ipc_inv s' \<and> procs_ok s'"
proof -
  have ok: "ipc_inv s2 \<and> procs_ok s2" if "ipc_inv s1 \<and> procs_ok s1" "kmalloc n tag s1 = Some (p, s2)" for s1 s2 :: "'a ipc_scheme" and n tag p
    using that ipc_inv_kmalloc procs_heap(1) by blast
  have fr: "ipc_inv s2 \<and> procs_ok s2" if "ipc_inv s1 \<and> procs_ok s1" "kfree p s1 = Some s2" for s1 s2 :: "'a ipc_scheme" and p
    using that ipc_inv_kfree procs_heap(2) by blast
  have s: "ipc_inv s \<and> procs_ok s" using assms by simp
  consider "s' = s"
    | a s1 e s2 st s3 where "kmalloc (of_nat ((length argv + 1) * 8)) ALLOC_TAG_KERNEL s = Some (a, s1)"
        "kmalloc (of_nat ((length envp + 1) * 8)) ALLOC_TAG_KERNEL s1 = Some (e, s2)" "kmalloc 65536 ALLOC_TAG_KERNEL s2 = Some (st, s3)"
        "s' = s3 \<or> (\<exists>bs s5. kfree e (s3\<lparr>kheap := (kheap s3)\<lparr>bytes := bs\<rparr>\<rparr>) = Some s5 \<and> kfree a s5 = Some s')"
    using assms(3) by (fastforce simp: elf_exec_def sage_alloc_ptrs_def Let_def split: if_splits bind_splits option.splits)
  then show ?thesis
  proof cases
    case 1
    then show ?thesis using s by simp
  next
    case (2 a s1 e s2 st s3)
    have s3: "ipc_inv s3 \<and> procs_ok s3" using ok[OF ok[OF ok[OF s 2(1)] 2(2)] 2(3)] .
    then have "ipc_inv (s3\<lparr>kheap := (kheap s3)\<lparr>bytes := bs\<rparr>\<rparr>) \<and> procs_ok (s3\<lparr>kheap := (kheap s3)\<lparr>bytes := bs\<rparr>\<rparr>)" for bs by simp
    then show ?thesis using 2(4) s3 fr by blast
  qed
qed

lemma kernel_ok_save_parent:
  assumes "kernel_ok k" "save_parent env c k = Some k'"
  shows "kernel_ok k'"
  using assms(2) kernel_ok_heap(1)[OF assms(1)] assms(1)
  by (auto simp: save_parent_def Let_def intro!: kernel_ok_set_task split: option.splits if_splits bind_splits)

lemma kernel_ok_record_span:
  assumes "kernel_ok k" "record_span c d k = Some k'"
  shows "kernel_ok k'"
  using assms by (auto simp: record_span_def Let_def proc_ok_def intro!: kernel_ok_set_task split: if_splits bind_splits)

lemma kernel_ok_exec_image:
  assumes "kernel_ok k" "exec_image env b file argv envp k = Some (r, k')"
  shows "kernel_ok k'"
proof -
  obtain c where c: "the_task k = (Some c, k)" using kernel_ok_task[OF assms(1)] .
  obtain k'' k4 res s m where ex: "save_parent env c k = Some k''" "record_span c file k'' = Some k4"
      "elf_exec (env_arch env) (env_heap env) (kernel_ranges env) file argv envp (core k4) (umem k4) = Some (res, s, m)"
      "(case res of Exec_error e \<Rightarrow> do { s' \<leftarrow> kfree b (core (k4\<lparr>core := s, umem := m\<rparr>)); sret e (k4\<lparr>core := s, umem := m, core := s'\<rparr>) }
        | Exec_jump sp ent \<Rightarrow> Some (Jump sp ent, k4\<lparr>core := s, umem := m\<rparr>)) = Some (r, k')"
    using assms(2) c by (auto simp: exec_image_def Let_def split: bind_splits)
  have k4: "kernel_ok k4" using kernel_ok_record_span[OF kernel_ok_save_parent[OF assms(1) ex(1)] ex(2)] .
  have "kernel_ok (k4\<lparr>core := s\<rparr>)" using core_ok_elf[OF kernel_okD[OF k4] ex(3)] by simp
  from this kernel_ok_heap(2)[OF this, of b] show ?thesis
    using ex(4) by (auto split: exec_result.splits bind_splits)
qed

lemma kernel_ok_execve:
  assumes "kernel_ok k" "sys_execve env path argv envp k = Some (r, k')"
  shows "kernel_ok k'"
proof -
  obtain q st v where st: "vfs_stat (env_bridge env) path (env_stat env) (files k) = Some ((q, st), v)"
    using assms(2) by (auto simp: sys_execve_def split: bind_splits)
  define k1 where "k1 = k\<lparr>files := v\<rparr>"
  have k1: "kernel_ok k1" using assms(1) by (simp add: k1_def)
  show ?thesis
  proof (cases "q < 0")
    case True
    then show ?thesis using assms(2) st k1 by (simp add: sys_execve_def k1_def)
  next
    case q: False
    obtain b s where b: "kmalloc (st_size st) ALLOC_TAG_KERNEL (core k1) = Some (b, s)"
      using assms(2) st q by (auto simp: sys_execve_def k1_def split: bind_splits)
    define k2 where "k2 = k1\<lparr>core := s\<rparr>"
    have k2: "kernel_ok k2" using kernel_ok_heap(1)[OF k1 b] by (simp add: k2_def)
    show ?thesis
    proof (cases b)
      case None
      then show ?thesis using assms(2) st q b k2 by (simp add: sys_execve_def k1_def k2_def)
    next
      case (Some a)
      obtain res v' where rd: "vfs_read (env_bridge env) path 0 (st_size st) (files k2) = Some (res, v')"
        using assms(2) st q b Some by (auto simp: sys_execve_def k1_def k2_def Let_def split: bind_splits)
      define data where "data = (case res of Inl _ \<Rightarrow> [] | Inr bs \<Rightarrow> bs)"
      define k3 where "k3 = k2\<lparr>files := v', core := (core k2)\<lparr>kheap := (kheap (core k2))\<lparr>bytes := store a data (bytes (kheap (core k2)))\<rparr>\<rparr>\<rparr>"
      have k3: "kernel_ok k3" using k2 by (simp add: k3_def kernel_ok_def)
      have "exec_image env b (data @ replicate (unat (st_size st) - length data) 0) argv envp k3 = Some (r, k') \<or>
          (\<exists>s2. kfree b (core k3) = Some s2 \<and> k' = k3\<lparr>core := s2\<rparr>)"
        using assms(2) st q b Some rd by (auto simp: sys_execve_def k1_def k2_def k3_def data_def Let_def split: bind_splits if_splits)
      then show ?thesis using kernel_ok_exec_image[OF k3] kernel_ok_heap(2)[OF k3] by auto
    qed
  qed
qed

section \<open>Reachable states\<close>

lemma kernel_ok_from_ipc: "from_ipc k (q, s) = (r, k') \<Longrightarrow> ipc_inv s \<and> procs_ok s \<Longrightarrow> kernel_ok k'"
  by (cases q) auto

lemmas kernel_ok_calls = kernel_ok_write kernel_ok_read kernel_ok_open kernel_ok_getcwd kernel_ok_chdir kernel_ok_dup2
  kernel_ok_brk kernel_ok_nanosleep kernel_ok_vfork kernel_ok_execve kernel_ok_exit

lemma kernel_ok_path_calls:
  assumes "kernel_ok k"
  shows "sys_unlink env p k = Some (r, k') \<Longrightarrow> kernel_ok k'" "sys_mkdir env p k = Some (r, k') \<Longrightarrow> kernel_ok k'"
    "sys_reboot env k = Some (r, k') \<Longrightarrow> kernel_ok k'" "sys_shutdown env k = Some (r, k') \<Longrightarrow> kernel_ok k'"
    "sys_waitpid env pid want k = Some (r, k') \<Longrightarrow> kernel_ok k'"
    "sys_gettimeofday nn k = Some (r, k') \<Longrightarrow> kernel_ok k'" "sys_times nn k = Some (r, k') \<Longrightarrow> kernel_ok k'"
proof -
  obtain c where "the_task k = (Some c, k)" using kernel_ok_task[OF assms] .
  then show "sys_waitpid env pid want k = Some (r, k') \<Longrightarrow> kernel_ok k'"
    using kernel_ok_waitpid_round[OF assms] by (simp add: sys_waitpid_def)
qed (use assms kernel_ok_path_call[OF assms] kernel_ok_power[OF assms] in
    \<open>auto simp: sys_unlink_def sys_mkdir_def sys_reboot_def sys_shutdown_def sys_gettimeofday_def sys_times_def split: if_splits\<close>)

lemma kernel_ok_dispatch:
  assumes "kernel_ok k" "syscall_dispatch env num a1 a2 a3 k = Some (r, k')"
  shows "kernel_ok k'"
proof -
  obtain c where c: "the_task k = (Some c, k)" using kernel_ok_task[OF assms(1)] .
  define k0 where "k0 = k\<lparr>core := klog TRACE_SYSCALL_ENTER (word_of_int num) a1 (core k)\<rparr>"
  have k0: "kernel_ok k0" using assms(1) by (simp add: k0_def kernel_ok_def)
  have ipc: "ipc_inv s \<and> procs_ok s"
    if "ipc_syscall_dispatch (env_arch env) (env_msg env) (env_str env) num a1 a2 a3 (core k0) = Some (q, s)" for q s
    using dispatch_inv[OF kernel_okD(1)[OF k0] that] procs_dispatch[OF kernel_okD(2)[OF k0] that] by simp
  show ?thesis
    using assms(2) unfolding syscall_dispatch_def c prod.case Let_def k0_def[symmetric]
    by (simp only: split: if_split_asm)
      (use k0 in \<open>auto dest: kernel_ok_calls[OF k0] kernel_ok_fd_calls[OF k0] kernel_ok_path_calls[OF k0]
        kernel_ok_from_ipc[OF _ ipc]\<close>)
qed

text \<open>What a blocked call goes on with.\<close>
fun sys_cont_ok :: "sys_cont \<Rightarrow> bool" where
  "sys_cont_ok (Cont_ipc cont) = cont_ok cont"
| "sys_cont_ok _ = True"

lemma kernel_ok_resume:
  assumes "kernel_ok k" "sys_cont_ok cont" "sys_resume env cont k = Some (r, k')"
  shows "kernel_ok k'"
proof (cases cont)
  case (Cont_ipc x)
  have "ipc_inv s \<and> procs_ok s" if "ipc_resume (env_arch env) x (core k) = Some (q, s)" for q s
    using resume_inv(1)[OF kernel_okD(1)[OF assms(1)] _ that] procs_resume[OF kernel_okD(2)[OF assms(1)] that] assms(2) Cont_ipc by simp
  then show ?thesis using assms(3) Cont_ipc by (auto dest: kernel_ok_from_ipc)
next
  case (Cont_delay_irq target)
  then show ?thesis using kernel_ok_delay_yield[of "timer_irq_leave (core k)"] kernel_okD[OF assms(1)] assms(3)
    by (simp add: core_ok_clock)
qed (use assms kernel_ok_delay kernel_ok_waitpid_round in auto)

text \<open>
  Boot as in \<open>Sage_IPC_Inv\<close> with any file system, then system calls, continuations of blocked calls, the
  creation of kernel threads and of script tasks, and switches between threads. What a call finds in user
  memory and in uninitialised variables differs from call to call.
\<close>
inductive kernel_reach :: "timer_arch \<Rightarrow> 'w vfs_bridge \<Rightarrow> 'w kernel \<Rightarrow> bool" for arch br where
  boot: "\<lbrakk>heap_inv (kheap s); \<not> in_sched s; core k = ipc_subsystem_init (sched_init s)\<rbrakk> \<Longrightarrow> kernel_reach arch br k"
| call: "\<lbrakk>kernel_reach arch br k; env_arch env = arch; env_bridge env = br;
    syscall_dispatch env num a1 a2 a3 k = Some (r, k')\<rbrakk> \<Longrightarrow> kernel_reach arch br k'"
| resume: "\<lbrakk>kernel_reach arch br k; env_arch env = arch; env_bridge env = br; sys_cont_ok cont;
    sys_resume env cont k = Some (r, k')\<rbrakk> \<Longrightarrow> kernel_reach arch br k'"
| create: "\<lbrakk>kernel_reach arch br k; sched_create_thread nm ent a prio (core k) = Some (t, s)\<rbrakk> \<Longrightarrow> kernel_reach arch br (k\<lparr>core := s\<rparr>)"
| spawn: "\<lbrakk>kernel_reach arch br k; n_os_spawn_task env ent nm script k = Some (r, k')\<rbrakk> \<Longrightarrow> kernel_reach arch br k'"
| switch: "\<lbrakk>kernel_reach arch br k; sched_schedule (timer_idle_poll arch) (core k) = Some s\<rbrakk> \<Longrightarrow> kernel_reach arch br (k\<lparr>core := s\<rparr>)"

lemma procs_boot: "procs_ok (ipc_subsystem_init (sched_init s))"
  using procs_init[of s] by (simp add: procs_ok_def ipc_subsystem_init_def)

lemma kernel_reach_ok: "kernel_reach arch br k \<Longrightarrow> kernel_ok k"
proof (induction rule: kernel_reach.induct)
  case (boot s k)
  then show ?case using boot_inv[OF boot(1,2)] procs_boot[of s] by (simp add: kernel_ok_def)
next
  case (call k env num a1 a2 a3 r k')
  then show ?case using kernel_ok_dispatch by blast
next
  case (resume k env cont r k')
  then show ?case using kernel_ok_resume by blast
next
  case (create k nm ent a prio t s)
  then show ?case using kernel_ok_create(1,2)[OF create.IH create.hyps(2)] by simp
next
  case (spawn k env ent nm script r k')
  then show ?case using kernel_ok_spawn by blast
next
  case (switch k s)
  then show ?case using ipc_inv_schedule(1)[of "core k" arch s] procs_schedule[of "core k" arch s] by (simp add: kernel_ok_def)
qed

end
