(* ===== verification/Sage_IPC_Props.thy ===== *)
theory Sage_IPC_Props
  imports Sage_IPC_Inv
begin

text \<open>
  The properties of the IPC subsystem. The first group is about the states reachable from boot: no
  authority to send or revoke exists in them, and no system call faults unless the caller passes a
  null pointer. The second group is about
  the operations in any state: the message ring refines a bounded queue, calls other than the
  creation of an object derive capabilities from existing ones only, the wait queue is a queue, and
  what is lost when a transfer fails.
\<close>

unbundle bit_operations_syntax

section \<open>Reachable states\<close>

text \<open>
  C13. The invariant of the subsystem. In every state reachable from boot the scheduler runs a
  thread, every table and pool has its size, every object identifier in a capability is in bounds,
  no capability carries the right to revoke and none for an endpoint carries the right to send or
  call, endpoints hold no message and ports no pending connection, and namespace and heap are
  well-formed.
\<close>
theorem ipc_reachable_states:
  assumes "ipc_reach arch s"
  shows "running s \<and> objects_ok s"
  using reach_inv[OF assms] by (simp add: ipc_inv_def)

theorem ipc_reachable_states_witness: "running booted \<and> objects_ok booted"
  using ipc_reachable_states[OF booted_reach[of TIMER_ARCH_X86]] .

text \<open>
  C32. No message is ever delivered. In every reachable state \<^verbatim>\<open>sys_ipc_send\<close> and \<^verbatim>\<open>sys_ipc_call\<close> return
  -1 whatever their arguments, \<^verbatim>\<open>sys_ipc_recv\<close> either returns -1 or blocks, a blocked call that is
  resumed never returns a message, and the calls that destroy, revoke, pause or drain an object
  return -1 and change nothing.
\<close>
theorem ipc_no_message_delivered:
  assumes "ipc_reach arch s"
  shows "sys_ipc_send h msg fl s = Some (-1, klog TRACE_IPC_SEND (ucast h) (ucast fl) s) \<and>
    sys_ipc_call arch h msg um s = ret (-1) s \<and>
    (\<forall>r s'. sys_ipc_recv arch h um fl s = Some (r, s') \<longrightarrow>
      r = Done (-1) Out_none \<or> (\<exists>e. r = Wait (Recv_blocked e um))) \<and>
    (\<forall>k r s'. cont_ok k \<longrightarrow> ipc_resume arch k s = Some (r, s') \<longrightarrow> (\<nexists>m. r = Done 0 (Out_msg m))) \<and>
    sys_ipc_object_destroy h s = ret (-1) s \<and> sys_ipc_cap_revoke h s = ret (-1) s \<and>
    sys_ipc_object_pause h s = ret (-1) s \<and> sys_ipc_object_drain arch h s = ret (-1) s"
proof -
  note inv = reach_inv[OF assms]
  show ?thesis
    by (intro conjI allI impI send_refused[OF inv] call_refused[OF inv] teardown_refused[OF inv])
      (use recv_inv(2)[OF inv] resume_inv(2)[OF inv] in blast)+
qed

theorem ipc_no_message_delivered_witness:
  "sys_ipc_call TIMER_ARCH_X86 1 (Some zero_msg) 4096 booted = ret (-1) booted"
  using ipc_no_message_delivered[OF booted_reach] by blast

lemma wait_enqueue_returns:
  "queue_ok h l \<Longrightarrow> \<exists>h' l' s'. ipc_wait_enqueue t (h, l) s = Some ((h', l'), s')"
  by (cases h; cases l) (simp_all add: queue_ok_def ipc_wait_enqueue_def Let_def)

lemma block_returns:
  assumes "running s" "g_current_task s = Some c" "i < MAX_TASKS" "i \<noteq> c" "runnable (g_tasks s ! i)"
  shows "\<exists>s'. sched_block poll s = Some s'"
proof -
  let ?u = "upd_task c (state_update (\<lambda>_. THREAD_STATE_BLOCKED)) s"
  have "running ?u" "runnable (g_tasks ?u ! i)" using assms by simp_all
  from schedule_returns[OF this(1) assms(3) this(2), of poll] assms(2) show ?thesis by (simp add: sched_block_def)
qed

lemma enqueue_and_block:
  fixes s :: "'a ipc_scheme"
  assumes "running s" "g_current_task s = Some c" "i < MAX_TASKS" "i \<noteq> c" "runnable (g_tasks s ! i)"
    and upd: "\<And>u h l. g_tasks (f h l u) = g_tasks u" "\<And>u h l. g_current_task (f h l u) = g_current_task u"
      "\<And>u h l. running (f h l u) = running u"
    and "queue_ok h0 l0"
  shows "\<exists>h l u s'. ipc_wait_enqueue c (h0, l0) s = Some ((h, l), u) \<and> sched_block poll (f h l u) = Some s'"
proof -
  obtain h l u where w: "ipc_wait_enqueue c (h0, l0) s = Some ((h, l), u)"
    using wait_enqueue_returns[OF assms(9)] by blast
  note fr = wait_enqueue_frame[OF w]
  have "runnable (g_tasks u ! i)" using fr(7)[OF assms(4)] assms(5) by (simp add: runnable_def)
  then have "\<exists>s'. sched_block poll (f h l u) = Some s'"
    using block_returns[of "f h l u" c i poll] fr(2,6) assms(1-4) upd by simp
  with w show ?thesis by blast
qed

lemma recv_returns:
  assumes "ipc_inv s" "g_current_task s = Some c" "i < MAX_TASKS" "i \<noteq> c" "runnable (g_tasks s ! i)"
  shows "sys_ipc_recv arch h um fl s \<noteq> None"
proof -
  have c: "current_task s = (Some c, s)" "running s" "objects_ok s"
    using ipc_inv_current[OF assms(1)] assms(2) by auto
  show ?thesis
  proof (cases "ipc_cap_resolve (g_tasks s ! c) h s")
    case (Some cap)
    define e where "e = unat (object_id cap)"
    have inert: "cap_inert cap" using resolve_inert[OF c(3) Some] .
    show ?thesis
    proof (cases "e < IPC_MAX_ENDPOINTS")
      case True
      let ?ep = "g_endpoints s ! e"
      have "queue_ok (wait_head ?ep) (wait_tail ?ep)" using c(3) True by (simp add: objects_ok_def endpoint_ok_def)
      from enqueue_and_block[OF c(2) assms(2-5) _ _ _ this,
          of "\<lambda>h l. upd_endpoint e (\<lambda>ep. ep\<lparr>wait_head := h, wait_tail := l\<rparr>)" "timer_idle_poll arch"]
      obtain h' l' u s' where "ipc_wait_enqueue c (wait_head ?ep, wait_tail ?ep) s = Some ((h', l'), u)"
        "sched_block (timer_idle_poll arch) (upd_endpoint e (\<lambda>ep. ep\<lparr>wait_head := h', wait_tail := l'\<rparr>) u) = Some s'"
        by auto
      then show ?thesis
        using Some True dequeue_empty[OF c(3) True]
        by (simp add: sys_ipc_recv_def c(1) e_def[symmetric] ret_def recv_result_def)
    next
      case False
      then show ?thesis
        using Some inert by (auto simp: sys_ipc_recv_def c(1) e_def cap_inert_def ret_def)
    qed
  qed (simp add: sys_ipc_recv_def c(1) ret_def)
qed

lemma accept_returns:
  assumes "ipc_inv s" "g_current_task s = Some c" "i < MAX_TASKS" "i \<noteq> c" "runnable (g_tasks s ! i)"
  shows "sys_ipc_port_accept arch h oc s \<noteq> None"
proof -
  have c: "current_task s = (Some c, s)" "running s" "objects_ok s"
    using ipc_inv_current[OF assms(1)] assms(2) by auto
  have loop: "accept_loop arch p c oc s \<noteq> None" if p: "p < IPC_MAX_PORTS" for p
  proof -
    let ?pt = "g_ports s ! p"
    have ok: "port_ok p ?pt" using c(3) p by (simp add: objects_ok_def)
    then have "queue_ok (accept_head ?pt) (accept_tail ?pt)" by (simp add: port_ok_def)
    from enqueue_and_block[OF c(2) assms(2-5) _ _ _ this,
        of "\<lambda>h l. upd_port p (\<lambda>pt. pt\<lparr>accept_head := h, accept_tail := l\<rparr>)" "timer_idle_poll arch"]
    obtain h' l' u s' where "ipc_wait_enqueue c (accept_head ?pt, accept_tail ?pt) s = Some ((h', l'), u)"
      "sched_block (timer_idle_poll arch) (upd_port p (\<lambda>pt. pt\<lparr>accept_head := h', accept_tail := l'\<rparr>) u) = Some s'"
      by auto
    then show ?thesis using ok by (simp add: accept_loop_def Let_def port_ok_def ret_def)
  qed
  show ?thesis
  proof (cases "ipc_cap_resolve (g_tasks s ! c) h s")
    case (Some cap)
    then show ?thesis
      using resolve_inert[OF c(3) Some] loop[of "unat (object_id cap)"]
      by (auto simp: sys_ipc_port_accept_def c(1) cap_inert_def ret_def)
  qed (simp add: sys_ipc_port_accept_def c(1) ret_def)
qed

lemma endpoint_create_returns:
  assumes "ipc_inv s" "o1 \<noteq> 0" "o2 \<noteq> 0"
  shows "sys_ipc_endpoint_create o1 o2 s \<noteq> None"
proof -
  obtain c where c: "g_current_task s = Some c" "running s" "objects_ok s" using ipc_inv_current[OF assms(1)] .
  have "heap_inv (kheap s)" using c(3) by (simp add: objects_ok_def)
  with c(2,1) have "create_endpoints s \<noteq> None" by (cases rule: create_endpoints_cases) (simp_all add: ret_def)
  with assms(2,3) show ?thesis by (auto simp: sys_ipc_endpoint_create_def)
qed

lemma table_calls_return:
  assumes "ipc_inv s"
  shows "o1 \<noteq> 0 \<Longrightarrow> sys_ipc_port_create b o1 s \<noteq> None" "sys_ipc_ns_register (Some nm) h s \<noteq> None"
    "sys_ipc_object_resume h s \<noteq> None" "sys_ipc_cap_narrow h m s \<noteq> None"
    "o1 \<noteq> 0 \<Longrightarrow> sys_ipc_cap_dup h o1 s \<noteq> None"
proof -
  obtain c where c: "current_task s = (Some c, s)" "objects_ok s" using ipc_inv_current[OF assms] .
  show "sys_ipc_port_create b o1 s \<noteq> None" if "o1 \<noteq> 0"
    using that
    by (auto simp: sys_ipc_port_create_def c(1) Let_def ret_def split: option.splits)
  have "ns_ok (g_namespace s)" using c(2) by (simp add: objects_ok_def)
  then have "\<exists>v ns. ipc_ns_insert nm h (tid (g_tasks s ! c)) (g_namespace s) = Some (v, ns)"
    by (rule ns_insert_cases[of _ nm h "tid (g_tasks s ! c)"]) blast
  then show "sys_ipc_ns_register (Some nm) h s \<noteq> None"
    by (auto simp: sys_ipc_ns_register_def c(1) Let_def ret_def split: option.splits)
  have "cap_inert cap" if "ipc_cap_resolve (g_tasks s ! c) h s = Some cap" for cap
    using resolve_inert[OF c(2) that] .
  then have "\<not> (is_endpoint cap \<and> unat (object_id cap) \<ge> IPC_MAX_ENDPOINTS)"
    if "ipc_cap_resolve (g_tasks s ! c) h s = Some cap" for cap
    using that by (fastforce simp: is_endpoint_def cap_inert_def)
  then show "sys_ipc_object_resume h s \<noteq> None"
    by (auto simp: sys_ipc_object_resume_def c(1) ret_def split: option.splits)
  show "sys_ipc_cap_narrow h m s \<noteq> None" by (simp add: sys_ipc_cap_narrow_def c(1) Let_def ret_def)
  show "sys_ipc_cap_dup h o1 s \<noteq> None" if "o1 \<noteq> 0"
    using that
    by (auto simp: sys_ipc_cap_dup_def c(1) Let_def ret_def split: option.splits)
qed

text \<open>
  The pointers of the caller that a call uses in a reachable state: the two handles of a new channel,
  the handle of a duplicate or of a new port, and the name to register.
\<close>
definition pointers_ok :: "int \<Rightarrow> u64 \<Rightarrow> u64 \<Rightarrow> bool" where
  "pointers_ok num a1 a2 \<longleftrightarrow>
    (num = 210 \<longrightarrow> a1 \<noteq> 0) \<and> (num \<in> {203, 210, 212} \<longrightarrow> a2 \<noteq> 0) \<and> (num = 230 \<longrightarrow> a1 \<noteq> 0)"

text \<open>
  C33. No fault and no hang in the kernel's own data. In every reachable state with a runnable thread
  besides the current one, every IPC system call other than a namespace lookup returns or blocks: it
  stays within the bounds of all tables, follows no null link of the kernel and terminates. The
  caller has to pass no null pointer for the handles of a new channel, of a new port and of a
  duplicate, nor for a name to register: the code uses these without a test. The other calls return
  or block before they use a pointer of the caller.
\<close>
theorem ipc_dispatch_returns:
  assumes "ipc_reach arch s" "g_current_task s = Some c" "i < MAX_TASKS" "i \<noteq> c" "runnable (g_tasks s ! i)"
    "num \<noteq> 231" "pointers_ok num a1 a2"
  shows "\<exists>r s'. ipc_syscall_dispatch arch umsg ustr num a1 a2 a3 s = Some (r, s')"
proof -
  note inv = reach_inv[OF assms(1)]
  have "ipc_syscall_dispatch arch umsg ustr num a1 a2 a3 s \<noteq> None"
    using assms(6,7) recv_returns[OF inv assms(2-5)] accept_returns[OF inv assms(2-5)] endpoint_create_returns[OF inv]
      table_calls_return[OF inv] teardown_refused[OF inv] send_refused[OF inv] call_refused[OF inv]
    by (simp add: ipc_syscall_dispatch_def pointers_ok_def user_at_def ret_def)
  then show ?thesis by auto
qed

lemma booted_fields:
  "g_current_task booted = Some 0" "length (g_tasks booted) = MAX_TASKS" "kheap booted = heap0"
  "g_tasks booted ! 0 = zero_thread\<lparr>state := THREAD_STATE_RUNNING, name := ''idle'', cwd := ''/''\<rparr>"
  "length (g_thread_ipc_ext booted) = SCHED_MAX_THREADS"
  "0 < i \<Longrightarrow> i < MAX_TASKS \<Longrightarrow> g_tasks booted ! i = zero_thread"
  "i < SCHED_MAX_THREADS \<Longrightarrow> g_thread_ipc_ext booted ! i = zero_ext"
  by (simp_all add: booted_def ipc_subsystem_init_def sched_init_def sched_ipc_init_thread_def Let_def MAX_TASKS_def
      cold_def demo_sched_def sched.defs timer.defs ipc.defs zero_thread_def nth_Cons')

text \<open>A second thread created after boot.\<close>
lemma two_threads:
  obtains i s where "ipc_reach arch s" "g_current_task s = Some 0" "i < MAX_TASKS" "i \<noteq> 0" "runnable (g_tasks s ! i)"
proof -
  have inv: "heap_inv (kheap booted)" "length (g_thread_ipc_ext booted) = SCHED_MAX_THREADS"
    by (simp_all add: booted_fields heap0_inv)
  show thesis
  proof (cases rule: create_thread_cases[OF inv, where nm = "''worker''" and ent = 0 and a = 0 and prio = THREAD_PRIORITY_NORMAL])
    case 1
    have "g_tasks booted ! 1 \<in> set (g_tasks booted)" by (rule nth_mem) (simp add: booted_fields MAX_TASKS_def)
    then have "state (g_tasks booted ! 1) \<noteq> THREAD_STATE_UNUSED" using 1(2) by blast
    then show thesis using booted_fields(6)[of 1] by (simp add: zero_thread_def MAX_TASKS_def)
  next
    case (2 i p h)
    let ?t = "new_thread (g_next_pid booted) ''worker'' 0 0 THREAD_PRIORITY_NORMAL"
    have i: "i < MAX_TASKS" "i \<noteq> 0"
      using 2(2,3) booted_fields(4) by (cases i, auto simp: booted_fields(2))+
    show thesis
    proof (rule that[OF ipc_reach.create[OF booted_reach 2(5)] _ i])
      show "g_current_task (upd_task i (stack_base_update (\<lambda>_. Some p)) (set_heap h (sched_ipc_init_thread ?t
          (booted\<lparr>g_tasks := (g_tasks booted)[i := ?t], g_next_pid := g_next_pid booted + 1\<rparr>)))) = Some 0"
        by (simp add: upd_task_def sched_ipc_init_thread_def booted_fields(1))
      show "runnable (g_tasks (upd_task i (stack_base_update (\<lambda>_. Some p)) (set_heap h (sched_ipc_init_thread ?t
          (booted\<lparr>g_tasks := (g_tasks booted)[i := ?t], g_next_pid := g_next_pid booted + 1\<rparr>)))) ! i)"
        using i(1) by (simp add: upd_task_def sched_ipc_init_thread_def booted_fields(2) runnable_def new_thread_def)
    qed
  qed (simp add: booted_fields(3) heap0_fits)
qed

theorem ipc_dispatch_returns_witness:
  "\<exists>s r s'. ipc_reach TIMER_ARCH_X86 s \<and>
    ipc_syscall_dispatch TIMER_ARCH_X86 (\<lambda>_. zero_msg) (\<lambda>_. []) 210 4096 4100 0 s = Some (r, s')"
proof -
  obtain i s where s: "ipc_reach TIMER_ARCH_X86 s" "g_current_task s = Some 0" "i < MAX_TASKS" "i \<noteq> 0" "runnable (g_tasks s ! i)"
    by (rule two_threads)
  from ipc_dispatch_returns[OF s, of 210 4096 4100 "\<lambda>_. zero_msg" "\<lambda>_. []" 0] s(1) show ?thesis
    by (auto simp: pointers_ok_def)
qed

text \<open>
  The two halves of a channel coincide. When \<^verbatim>\<open>sys_ipc_endpoint_create\<close> succeeds it returns the same
  handle twice: the capability there conveys the rights to receive and to duplicate, not those to
  send and to call, and its endpoint is active and its own peer.
\<close>
theorem endpoint_create_collides:
  assumes "running s" "g_current_task s = Some c" "heap_inv (kheap s)" "objects_ok s"
    "sys_ipc_endpoint_create out_send out_recv s = Some (Done 0 (Out_pair hs hr), s')"
  shows "hs = hr \<and> (\<exists>i<IPC_MAX_ENDPOINTS. ipc_cap_resolve (g_tasks s ! c) hs s' = Some (recv_cap i (tid (g_tasks s ! c))) \<and>
    \<not> ipc_cap_has_right (recv_cap i (tid (g_tasks s ! c))) (IPC_CAP_RIGHT_SEND OR IPC_CAP_RIGHT_CALL) \<and>
    ep_state (g_endpoints s' ! i) = IPC_STATE_ACTIVE \<and> peer_cap (g_endpoints s' ! i) = of_nat i)"
  using assms(1-3)
proof (cases rule: create_endpoints_cases)
  case (created i q h u)
  let ?t = "g_tasks s ! c"
  let ?tab = "task_ipc_cap_table ?t u"
  have i: "i < IPC_MAX_ENDPOINTS" using created(2) assms(4) by (simp add: objects_ok_def)
  have tab: "?tab = task_ipc_cap_table ?t s" using created(4) by (simp add: same_elsewhere_def task_ipc_cap_table_def)
  have len: "length (caps ?tab) = IPC_CAP_MAX_PER_TASK"
    using objects_table[OF assms(4), of ?t] by (simp add: tab table_ok_def cap_table_ok_def)
  have h: "h < IPC_CAP_MAX_PER_TASK" using alloc_slot_SomeD(1)[OF created(7)] len by (simp add: tab)
  have hw: "unat (of_nat h :: u32) = h" using h by (simp add: unat_of_nat IPC_CAP_MAX_PER_TASK_def)
  have r: "hs = of_nat h" "hr = of_nat h" "s' = upd_cap_table ?t (set_cap h (recv_cap i (tid ?t))) u"
    using created(1) assms(5) by (simp_all add: sys_ipc_endpoint_create_def)
  have "ext_index ?t < length (g_thread_ipc_ext u)"
    using created(4) assms(4) ext_index_bound by (simp add: same_elsewhere_def objects_ok_def)
  then have "task_ipc_cap_table ?t s' = set_cap h (recv_cap i (tid ?t)) ?tab"
    by (simp add: r(3) upd_cap_table_def task_ipc_cap_table_def)
  then have "ipc_cap_resolve ?t hs s' = Some (recv_cap i (tid ?t))"
    using h len by (simp add: ipc_cap_resolve_def ipc_cap_resolve_in_def r(1) hw Let_def set_cap_def ipc_cap_is_valid_def
        recv_cap_def mk_cap_def zero_cap_def)
  moreover have "\<not> ipc_cap_has_right (recv_cap i (tid ?t)) (IPC_CAP_RIGHT_SEND OR IPC_CAP_RIGHT_CALL)"
    by (simp add: ipc_cap_has_right_def recv_cap_def mk_cap_def zero_cap_def right_defs)
  moreover have "ep_state (g_endpoints s' ! i) = IPC_STATE_ACTIVE \<and> peer_cap (g_endpoints s' ! i) = of_nat i"
    using created(2,6) r(3) by (simp add: created_endpoint_def)
  ultimately show ?thesis using i r(1,2) by blast
qed (use assms(5) in \<open>simp_all add: sys_ipc_endpoint_create_def ret_def\<close>)

text \<open>On a heap without free blocks a ring is cut from the arena.\<close>
lemma ring_malloc_bump:
  assumes "g_free_list h = []" "sage_bump h = b" "b + 66512 \<le> SAGE_ARENA_SIZE"
  shows "\<exists>h'. sage_malloc_tagged (sizeof_ipc_msg * 16) tag h = Some (Some (b + 16), h') \<and>
    g_free_list h' = [] \<and> sage_bump h' = b + 66512"
proof -
  have "ALIGN (sizeof_ipc_msg * 16 + of_nat ALLOC_HEADER_SIZE) = 66512"
    by (simp add: ALIGN_def sizeof_ipc_msg_def ALLOC_HEADER_SIZE_def ALIGNMENT_def)
  moreover have "\<not> of_nat b + (66512 :: u64) > of_nat SAGE_ARENA_SIZE"
    using assms(3) by (simp add: SAGE_ARENA_SIZE_def word_less_nat_alt unat_word_ariths unat_of_nat)
  moreover have "sizeof_ipc_msg * 16 \<noteq> 0" by (simp add: sizeof_ipc_msg_def)
  ultimately show ?thesis
    using assms by (simp add: sage_malloc_tagged_def Let_def ALLOC_HEADER_SIZE_def)
qed

lemma alloc_rings_bump:
  assumes "g_free_list (kheap s) = []" "sage_bump (kheap s) = 0" "i < length (g_endpoints s)"
    "alloc_rings i i s = Some u"
  shows "msg_ring (g_endpoints u ! i) \<noteq> None"
proof -
  obtain h where h: "sage_malloc_tagged (sizeof_ipc_msg * 16) ALLOC_TAG_IPC (kheap s) = Some (Some 16, h)"
      "g_free_list h = []" "sage_bump h = 66512"
    using ring_malloc_bump[OF assms(1,2)] by (auto simp: SAGE_ARENA_SIZE_def)
  obtain k where "sage_malloc_tagged (sizeof_ipc_msg * 16) ALLOC_TAG_IPC (h\<lparr>emitted := []\<rparr>) = Some (Some 66528, k)"
    using ring_malloc_bump[of "h\<lparr>emitted := []\<rparr>" 66512] h by (auto simp: SAGE_ARENA_SIZE_def)
  with h(1) assms(3,4) show ?thesis by (auto simp: alloc_rings_def Let_def kmalloc_def upd_endpoint_def)
qed

lemma booted_creates: "\<exists>h s'. create_endpoints booted = Some (Done 0 (Out_pair h h), s')"
proof -
  have inv: "ipc_inv booted" by (rule reach_inv[OF booted_reach])
  then have ok: "running booted" "heap_inv (kheap booted)" "objects_ok booted" by (simp_all add: ipc_inv_def objects_ok_def)
  have len: "length (g_endpoints booted) = IPC_MAX_ENDPOINTS" using ok(3) by (simp add: objects_ok_def)
  show ?thesis
    using ok(1) booted_fields(1) ok(2)
  proof (cases rule: create_endpoints_cases)
    case full
    have "g_endpoints booted ! 0 \<in> set (g_endpoints booted)" by (rule nth_mem) (simp add: len IPC_MAX_ENDPOINTS_def)
    moreover have "pool_free (ep_state (g_endpoints booted ! 0))"
      by (simp add: booted_def ipc_subsystem_init_def IPC_MAX_ENDPOINTS_def pool_free_def)
    ultimately show ?thesis using full(2) by blast
  next
    case (failed i ep s')
    have "ipc_cap_alloc_slot (task_ipc_cap_table (g_tasks booted ! 0) booted) \<noteq> None"
      by (simp add: ipc_cap_alloc_slot_def task_ipc_cap_table_def booted_fields(7)[OF ext_index_bound] zero_ext_def
          zero_cap_table_def zero_cap_def IPC_CAP_MAX_PER_TASK_def)
    moreover have "msg_ring (g_endpoints u ! i) \<noteq> None"
      if "alloc_rings i i (booted\<lparr>g_endpoints := (g_endpoints booted)[i := new_endpoint i]\<rparr>) = Some u" for u
      using alloc_rings_bump[OF _ _ _ that] failed(2) by (simp add: booted_fields(3) heap0_def)
    ultimately show ?thesis using failed(10) by (elim disjE exE conjE) simp_all
  next
    case created
    then show ?thesis by blast
  qed
qed

theorem endpoint_create_collides_witness:
  "\<exists>h s'. sys_ipc_endpoint_create 4096 4100 booted = Some (Done 0 (Out_pair h h), s') \<and>
    (\<exists>i. ipc_cap_resolve (g_tasks booted ! 0) h s' = Some (recv_cap i 0))"
proof -
  have inv: "ipc_inv booted" by (rule reach_inv[OF booted_reach])
  then have ok: "running booted" "heap_inv (kheap booted)" "objects_ok booted" by (simp_all add: ipc_inv_def objects_ok_def)
  obtain h s' where s': "sys_ipc_endpoint_create 4096 4100 booted = Some (Done 0 (Out_pair h h), s')"
    using booted_creates by (auto simp: sys_ipc_endpoint_create_def)
  have "tid (g_tasks booted ! 0) = 0" by (simp add: booted_fields(4) zero_thread_def)
  with endpoint_create_collides[OF ok(1) booted_fields(1) ok(2,3) s'] s' show ?thesis by auto
qed

text \<open>
  The handles of a new channel are stored through the pointers of the caller without a test: on the
  booted kernel a creation with a null pointer faults.
\<close>
theorem endpoint_create_null_faults:
  "ipc_syscall_dispatch arch umsg ustr 210 0 a2 a3 booted = None"
  using booted_creates by (auto simp: ipc_syscall_dispatch_def sys_ipc_endpoint_create_def user_store.simps)

section \<open>The message queue\<close>

text \<open>The messages of an endpoint, oldest first.\<close>
definition ep_queue :: "ipc_endpoint \<Rightarrow> ipc_msg list" where
  "ep_queue ep = map (\<lambda>i. ring_mem ep ! ((unat (ep_tail ep) + i) mod unat (ring_size ep))) [0..<unat (msg_count ep)]"

lemma ep_queue_ring: "ep_queue ep = ep_ring.queue ep"
  by (simp add: ep_queue_def ep_ring.queue_def)

text \<open>Statistics and wait queue are not part of the ring.\<close>
lemma ring_part:
  "ep_queue (ep\<lparr>msgs_sent := a, bytes_moved := b\<rparr>) = ep_queue ep" "ep_queue (ep\<lparr>msgs_recv := a\<rparr>) = ep_queue ep"
  "ep_queue (drops_update f ep) = ep_queue ep" "ep_queue (ep\<lparr>wait_head := h, wait_tail := l\<rparr>) = ep_queue ep"
  "ring_ok (ep\<lparr>msgs_sent := a, bytes_moved := b\<rparr>) = ring_ok ep" "ring_ok (ep\<lparr>msgs_recv := a\<rparr>) = ring_ok ep"
  "ring_ok (drops_update f ep) = ring_ok ep" "ring_ok (ep\<lparr>wait_head := h, wait_tail := l\<rparr>) = ring_ok ep"
  by (simp_all add: ep_queue_def ring_ok_def)

lemma unblock_endpoints [simp]: "g_endpoints (sched_unblock t s) = g_endpoints s"
  by (simp add: sched_unblock_def split: option.split)

lemma enqueue_fifo:
  assumes e: "e < length (g_endpoints s)" and ok: "ring_ok (g_endpoints s ! e)"
    and ring: "msg_ring (g_endpoints s ! e) \<noteq> None" and act: "ep_state (g_endpoints s ! e) = IPC_STATE_ACTIVE"
  shows "\<exists>s'. ipc_msg_enqueue e msg s =
      Some (if length (ep_queue (g_endpoints s ! e)) = unat (ring_size (g_endpoints s ! e)) then -1 else 0, s') \<and>
    ep_queue (g_endpoints s' ! e) = ep_queue (g_endpoints s ! e) @
      (if length (ep_queue (g_endpoints s ! e)) = unat (ring_size (g_endpoints s ! e)) then [] else [msg]) \<and>
    ring_ok (g_endpoints s' ! e) \<and> (\<forall>j. j \<noteq> e \<longrightarrow> g_endpoints s' ! j = g_endpoints s ! j)"
proof -
  define ep where "ep = g_endpoints s ! e"
  have full: "ring_push msg ep = None \<longleftrightarrow> length (ep_queue ep) = unat (ring_size ep)"
    using ep_ring.push_fails_iff[of ep msg] ok by (simp add: ep_queue_ring ep_def)
  show ?thesis
  proof (cases "ring_push msg ep")
    case None
    then have "ipc_msg_enqueue e msg s = Some (-1, upd_endpoint e (drops_update (\<lambda>d. d + 1)) s)"
      using act by (simp add: ipc_msg_enqueue_def ep_def[symmetric])
    then show ?thesis
      using full None e ok by (simp add: ep_def nth_upd_endpoint ring_part)
  next
    case (Some ep1)
    note q = ep_ring.queue_push[of ep msg ep1]
    have q1: "ep_queue ep1 = ep_queue ep @ [msg]" "ring_ok ep1" using q Some ok by (simp_all add: ep_queue_ring ep_def)
    let ?s1 = "upd_endpoint e (\<lambda>_. ep1\<lparr>msgs_sent := msgs_sent ep1 + 1, bytes_moved := bytes_moved ep1 + ucast (payload_len msg)\<rparr>) s"
    let ?n = "\<lambda>w. wait_next (g_tasks ?s1 ! w)"
    have "ipc_msg_enqueue e msg s = Some (0, case wait_head ep of None \<Rightarrow> ?s1
        | Some w \<Rightarrow> sched_unblock (Some w) (upd_endpoint e (\<lambda>x. x\<lparr>wait_head := ?n w,
            wait_tail := if ?n w = None then None else wait_tail x\<rparr>) ?s1))"
      using act ring Some by (simp add: ipc_msg_enqueue_def ep_def[symmetric] Let_def split: option.split)
    then show ?thesis
      using full Some e q1 by (cases "wait_head ep") (simp_all add: ep_def nth_upd_endpoint ring_part)
  qed
qed

lemma dequeue_fifo:
  assumes e: "e < length (g_endpoints s)" and ok: "ring_ok (g_endpoints s ! e)"
    and ring: "msg_ring (g_endpoints s ! e) \<noteq> None" and act: "ep_state (g_endpoints s ! e) = IPC_STATE_ACTIVE"
  shows "\<exists>s'. ipc_msg_dequeue e s = Some (case ep_queue (g_endpoints s ! e) of [] \<Rightarrow> Inl (-2) | m # _ \<Rightarrow> Inr m, s') \<and>
    ep_queue (g_endpoints s' ! e) = tl (ep_queue (g_endpoints s ! e)) \<and>
    ring_ok (g_endpoints s' ! e) \<and> (\<forall>j. j \<noteq> e \<longrightarrow> g_endpoints s' ! j = g_endpoints s ! j)"
proof -
  define ep where "ep = g_endpoints s ! e"
  have empty: "ring_pop ep = None \<longleftrightarrow> ep_queue ep = []"
    using ep_ring.pop_fails_iff[of ep] ok by (simp add: ep_queue_ring ep_def)
  show ?thesis
  proof (cases "ring_pop ep")
    case None
    then show ?thesis using empty ok act by (simp add: ipc_msg_dequeue_def ep_def[symmetric])
  next
    case (Some p)
    then obtain m ep1 where p: "ring_pop ep = Some (m, ep1)" by (cases p) auto
    have q: "ep_queue ep = m # ep_queue ep1" "ring_ok ep1"
      using ep_ring.queue_pop[of ep m ep1] p ok by (simp_all add: ep_queue_ring ep_def)
    have "ring_size ep \<noteq> 0" using ok by (auto simp: ring_ok_def ep_def)
    then have "ipc_msg_dequeue e s = Some (Inr m, upd_endpoint e (\<lambda>_. ep1\<lparr>msgs_recv := msgs_recv ep1 + 1\<rparr>) s)"
      using ring p by (simp add: ipc_msg_dequeue_def ep_def[symmetric])
    then show ?thesis using q e by (simp add: ep_def[symmetric] nth_upd_endpoint ring_part)
  qed
qed

text \<open>
  C15. The message ring refines a bounded first-in first-out queue. On an active endpoint \<^verbatim>\<open>ipc_msg_enqueue\<close>
  returns: with -1 and the queue unchanged exactly when it holds \<^verbatim>\<open>ring_size\<close> messages, otherwise with 0
  and the message appended. \<^verbatim>\<open>ipc_msg_dequeue\<close> removes the oldest message and returns it, or reports that
  it would block when there is none. Other endpoints are not touched.
\<close>
theorem endpoint_queue_fifo:
  assumes "e < length (g_endpoints s)" "ring_ok (g_endpoints s ! e)" "msg_ring (g_endpoints s ! e) \<noteq> None"
    "ep_state (g_endpoints s ! e) = IPC_STATE_ACTIVE"
  shows "(\<exists>s'. ipc_msg_enqueue e msg s =
      Some (if length (ep_queue (g_endpoints s ! e)) = unat (ring_size (g_endpoints s ! e)) then -1 else 0, s') \<and>
    ep_queue (g_endpoints s' ! e) = ep_queue (g_endpoints s ! e) @
      (if length (ep_queue (g_endpoints s ! e)) = unat (ring_size (g_endpoints s ! e)) then [] else [msg]) \<and>
    ring_ok (g_endpoints s' ! e) \<and> (\<forall>j. j \<noteq> e \<longrightarrow> g_endpoints s' ! j = g_endpoints s ! j)) \<and>
   (\<exists>s'. ipc_msg_dequeue e s = Some (case ep_queue (g_endpoints s ! e) of [] \<Rightarrow> Inl (-2) | m # _ \<Rightarrow> Inr m, s') \<and>
    ep_queue (g_endpoints s' ! e) = tl (ep_queue (g_endpoints s ! e)) \<and>
    ring_ok (g_endpoints s' ! e) \<and> (\<forall>j. j \<noteq> e \<longrightarrow> g_endpoints s' ! j = g_endpoints s ! j))"
  using enqueue_fifo[OF assms] dequeue_fifo[OF assms] by blast

text \<open>A kernel whose first endpoint is active with an empty ring.\<close>
definition with_endpoint :: ipc where
  "with_endpoint = upd_endpoint 0 (\<lambda>_. created_endpoint 0 (Some 16) 0) booted"

lemma with_endpoint_fields:
  "length (g_endpoints with_endpoint) = 128" "g_endpoints with_endpoint ! 0 = created_endpoint 0 (Some 16) 0"
  "ring_ok (created_endpoint 0 (Some 16) 0)" "ep_queue (created_endpoint 0 (Some 16) 0) = []"
  by (simp_all add: with_endpoint_def upd_endpoint_def booted_def ipc_subsystem_init_def IPC_MAX_ENDPOINTS_def
      created_endpoint_def new_endpoint_def zero_endpoint_def ring_ok_def ep_queue_def)

theorem endpoint_queue_fifo_witness:
  "\<exists>s'. ipc_msg_enqueue 0 zero_msg with_endpoint = Some (0, s') \<and> ep_queue (g_endpoints s' ! 0) = [zero_msg]"
  using endpoint_queue_fifo[of 0 with_endpoint zero_msg] with_endpoint_fields
  by (simp add: created_endpoint_def) blast

section \<open>Derivation of capabilities\<close>

definition cap_at :: "nat \<Rightarrow> nat \<Rightarrow> 'a sched_scheme \<Rightarrow> ipc_capability" where
  "cap_at x k s = caps (cap_table (g_thread_ipc_ext s ! x)) ! k"

text \<open>The same object with no further rights.\<close>
definition weaker :: "ipc_capability \<Rightarrow> ipc_capability \<Rightarrow> bool" where
  "weaker c d \<longleftrightarrow> object_type c = object_type d \<and> object_id c = object_id d \<and> cap_path c = cap_path d \<and>
    rights c AND NOT (rights d) = 0"

definition has_source :: "ipc_capability \<Rightarrow> 'a sched_scheme \<Rightarrow> bool" where
  "has_source c s \<longleftrightarrow> object_type c = IPC_OBJ_NONE \<or>
    (\<exists>y<SCHED_MAX_THREADS. \<exists>j<IPC_CAP_MAX_PER_TASK. weaker c (cap_at y j s))"

text \<open>Every capability of \<open>s'\<close>, in whatever table, is one of \<open>s\<close> with no further rights.\<close>
definition derives :: "'a sched_scheme \<Rightarrow> 'a sched_scheme \<Rightarrow> bool" where
  "derives s s' \<longleftrightarrow> (\<forall>x<SCHED_MAX_THREADS. \<forall>k<IPC_CAP_MAX_PER_TASK. has_source (cap_at x k s') s)"

definition tables_sized :: "'a sched_scheme \<Rightarrow> bool" where
  "tables_sized s \<longleftrightarrow> length (g_thread_ipc_ext s) = SCHED_MAX_THREADS \<and>
    (\<forall>x<SCHED_MAX_THREADS. length (caps (cap_table (g_thread_ipc_ext s ! x))) = IPC_CAP_MAX_PER_TASK)"

lemma weaker_refl [simp]: "weaker c c"
  by (simp add: weaker_def)

lemma subset_bits: "(a :: u32) AND NOT b = 0 \<longleftrightarrow> (\<forall>n<32. bit a n \<longrightarrow> bit b n)"
  by (auto simp: bit_eq_iff bit_and_iff bit_not_iff dest: bit_imp_le_length)

lemma weaker_trans: "\<lbrakk>weaker c d; weaker d e\<rbrakk> \<Longrightarrow> weaker c e"
  by (auto simp: weaker_def subset_bits)

lemma has_source_self: "\<lbrakk>x < SCHED_MAX_THREADS; k < IPC_CAP_MAX_PER_TASK\<rbrakk> \<Longrightarrow> has_source (cap_at x k s) s"
  using weaker_refl unfolding has_source_def by blast

lemma has_source_weaker: "\<lbrakk>weaker c d; has_source d s\<rbrakk> \<Longrightarrow> has_source c s"
  unfolding has_source_def using weaker_trans by (metis weaker_def)

lemma derives_trans:
  assumes "derives s t" "derives t u"
  shows "derives s u"
proof -
  have "has_source c s" if "has_source c t" for c
    using that assms(1) has_source_weaker unfolding derives_def has_source_def[of c t] by (metis has_source_def)
  then show ?thesis using assms(2) by (simp add: derives_def)
qed

lemma derives_same: "g_thread_ipc_ext s' = g_thread_ipc_ext s \<Longrightarrow> derives s s'"
  using has_source_self[of _ _ s] by (simp add: derives_def cap_at_def)

lemma derives_set_cap:
  assumes "tables_sized s" "has_source c s"
  shows "derives s (upd_cap_table t (set_cap h c) s)" "tables_sized (upd_cap_table t (set_cap h c) s)"
proof -
  have x: "ext_index t < length (g_thread_ipc_ext s)" using assms(1) ext_index_bound by (simp add: tables_sized_def)
  show "tables_sized (upd_cap_table t (set_cap h c) s)"
    using assms(1) x by (auto simp: tables_sized_def upd_cap_table_def set_cap_def task_ipc_cap_table_def nth_list_update)
  have "cap_at y k (upd_cap_table t (set_cap h c) s) = c \<or> cap_at y k (upd_cap_table t (set_cap h c) s) = cap_at y k s"
    if "y < SCHED_MAX_THREADS" "k < IPC_CAP_MAX_PER_TASK" for y k
    using that x assms(1)
    by (auto simp: tables_sized_def cap_at_def upd_cap_table_def set_cap_def task_ipc_cap_table_def nth_list_update nth_update_if)
  then show "derives s (upd_cap_table t (set_cap h c) s)"
    using assms(2) has_source_self unfolding derives_def by metis
qed

lemma derives_free_slot:
  assumes "tables_sized s"
  shows "derives s (upd_cap_table t (ipc_cap_free_slot h) s)" "tables_sized (upd_cap_table t (ipc_cap_free_slot h) s)"
proof -
  have z: "has_source zero_cap s" by (simp add: has_source_def zero_cap_def)
  have "ext_index t < length (g_thread_ipc_ext s)" using assms ext_index_bound by (simp add: tables_sized_def)
  then have "upd_cap_table t (\<lambda>tab. tab) s = s" by (simp add: upd_cap_table_def task_ipc_cap_table_def)
  then have eq: "upd_cap_table t (ipc_cap_free_slot h) s = s \<or>
      upd_cap_table t (ipc_cap_free_slot h) s = upd_cap_table t (set_cap (unat h) zero_cap) s"
    by (cases "unat h < IPC_CAP_MAX_PER_TASK") (simp_all add: ipc_cap_free_slot_def[abs_def] set_cap_def[abs_def])
  show "derives s (upd_cap_table t (ipc_cap_free_slot h) s)" "tables_sized (upd_cap_table t (ipc_cap_free_slot h) s)"
    using eq derives_set_cap[OF assms z, of t "unat h"] derives_same[of s s] assms by metis+
qed

lemma resolve_source:
  assumes "tables_sized s" "ipc_cap_resolve t h s = Some cap"
  shows "has_source cap s"
  using resolve_SomeD[OF assms(2)[unfolded ipc_cap_resolve_def]] has_source_self[OF ext_index_bound, of "unat h" t s]
  by (simp add: cap_at_def task_ipc_cap_table_def)

lemma kfree_ext: "kfree p s = Some s' \<Longrightarrow> g_thread_ipc_ext s' = g_thread_ipc_ext s \<and> running s' = running s"
  by (auto simp: kfree_def running_def)

lemma destroy_object_ext: "destroy_object cap s = Some s' \<Longrightarrow> g_thread_ipc_ext s' = g_thread_ipc_ext s"
  by (auto simp: destroy_object_def free_ring_def Let_def bind_eq_Some_conv dest!: kfree_ext
      split: ipc_obj_type.splits if_splits)

lemma enqueue_ext: "ipc_msg_enqueue e msg s = Some (r, s') \<Longrightarrow> g_thread_ipc_ext s' = g_thread_ipc_ext s \<and> running s' = running s"
  by (auto simp: ipc_msg_enqueue_def Let_def sched_unblock_def split: if_splits option.splits)

lemma dequeue_ext: "ipc_msg_dequeue e s = Some (r, s') \<Longrightarrow> g_thread_ipc_ext s' = g_thread_ipc_ext s \<and> running s' = running s"
  by (auto simp: ipc_msg_dequeue_def Let_def split: if_splits option.splits)

lemma send_caps_derives:
  assumes "send_caps t fl hs s = (b, s')" "tables_sized s"
  shows "derives s s' \<and> tables_sized s' \<and> running s' = running s"
  using assms
proof (induction hs arbitrary: s)
  case Nil
  then show ?case using derives_same by auto
next
  case (Cons h hs)
  show ?case
  proof (cases "ipc_cap_resolve t h s")
    case None
    then show ?thesis using Cons.prems derives_same by auto
  next
    case (Some cap)
    let ?u = "if fl AND IPC_MSGF_CAP_TRANSFER \<noteq> 0 then upd_cap_table t (ipc_cap_free_slot h) s else s"
    have "derives s ?u" "tables_sized ?u" "running ?u = running s"
      using derives_free_slot[OF Cons.prems(2), of t h] derives_same[of s s] Cons.prems(2)
      by (simp_all add: running_def upd_cap_table_def)
    then show ?thesis using Cons.IH[of ?u] Cons.prems(1) Some derives_trans by auto
  qed
qed

lemma send_derives:
  assumes "running s" "tables_sized s" "sys_ipc_send h msg fl s = Some (r, s')"
  shows "derives s s' \<and> tables_sized s' \<and> running s'"
proof -
  obtain c where c: "current_task s = (Some c, s)" using running_current[OF assms(1)] .
  let ?s1 = "klog TRACE_IPC_SEND (ucast h) (ucast fl) s"
  have k: "g_thread_ipc_ext ?s1 = g_thread_ipc_ext s" "running ?s1" using assms(1) by (simp_all add: klog_def running_def)
  have k': "derives s ?s1" "tables_sized ?s1" using derives_same[OF k(1)] assms(2) k(1) by (simp_all add: tables_sized_def)
  show ?thesis
  proof (cases "s' = ?s1")
    case False
    then obtain e m hs b s2 where sc: "send_caps (g_tasks s ! c) fl hs ?s1 = (b, s2)"
        "s' = s2 \<or> (\<exists>r'. ipc_msg_enqueue e m s2 = Some (r', s'))"
      using assms(3)
      by (auto simp: sys_ipc_send_def c Let_def bind_eq_Some_conv split: option.splits if_splits prod.splits bool.splits) blast+
    note d = send_caps_derives[OF sc(1) k'(2)]
    have x: "g_thread_ipc_ext s' = g_thread_ipc_ext s2" "running s' = running s2" using sc(2) enqueue_ext by blast+
    have "derives s s2" using derives_trans[OF k'(1)] d by blast
    then have "derives s s'" using derives_trans[OF _ derives_same[OF x(1)]] by blast
    moreover have "tables_sized s'" "running s'" using d k(2) x by (simp_all add: tables_sized_def)
    ultimately show ?thesis by blast
  qed (use k k' in simp)
qed

lemma recv_derives:
  assumes "running s" "sys_ipc_recv arch h um fl s = Some (r, s')"
  shows "derives s s'"
proof -
  obtain c where c: "current_task s = (Some c, s)" using running_current[OF assms(1)] .
  show ?thesis
  proof (cases "s' = s")
    case False
    then obtain e x s1 where d: "ipc_msg_dequeue e s = Some (x, s1)"
        "s' = s1 \<or> (\<exists>h' l' q u. ipc_wait_enqueue c q s1 = Some ((h', l'), u) \<and>
           sched_block (timer_idle_poll arch) (upd_endpoint e (\<lambda>ep. ep\<lparr>wait_head := h', wait_tail := l'\<rparr>) u) = Some s')"
      using assms(2)
      by (auto simp: sys_ipc_recv_def c Let_def bind_eq_Some_conv ret_def recv_result_def
          split: option.splits if_splits prod.splits sum.splits) blast+
    have d1: "g_thread_ipc_ext s1 = g_thread_ipc_ext s" "running s1" using dequeue_ext[OF d(1)] assms(1) by simp_all
    from d(2) have "g_thread_ipc_ext s' = g_thread_ipc_ext s1"
    proof (elim disjE exE conjE)
      fix h' l' q u
      assume w: "ipc_wait_enqueue c q s1 = Some ((h', l'), u)"
        "sched_block (timer_idle_poll arch) (upd_endpoint e (\<lambda>ep. ep\<lparr>wait_head := h', wait_tail := l'\<rparr>) u) = Some s'"
      have "same_objects s1 u" "running u" using wait_enqueue_frame(1,2) w(1) d1(2) by (cases q; blast)+
      then show ?thesis using block_frame(2)[OF _ w(2)] by (simp add: same_objects_def)
    qed simp
    then have "g_thread_ipc_ext s' = g_thread_ipc_ext s" using d1(1) by simp
    then show ?thesis by (rule derives_same)
  qed (simp add: derives_same)
qed

lemma call_derives:
  assumes "running s" "tables_sized s" "sys_ipc_call arch h req resp s = Some (r, s')"
  shows "derives s s'"
proof -
  obtain c where c: "current_task s = (Some c, s)" using running_current[OF assms(1)] .
  show ?thesis
  proof (cases "s' = s")
    case False
    then obtain v s1 where v: "sys_ipc_send h req 0 s = Some (v, s1)"
        "s' = s1 \<or> (\<exists>k r'. sys_ipc_recv arch k resp 0 s1 = Some (r', s'))"
      using assms(3)
      by (auto simp: sys_ipc_call_def c Let_def bind_eq_Some_conv ret_def split: option.splits if_splits)
    note d = send_derives[OF assms(1,2) v(1)]
    then show ?thesis using v(2) recv_derives[of s1 arch] derives_trans by blast
  qed (simp add: derives_same)
qed

lemma table_calls_derive:
  assumes run: "running s" and sz: "tables_sized s"
  shows "sys_ipc_cap_narrow h m s = Some (r, s') \<Longrightarrow> derives s s'"
    "sys_ipc_cap_dup h oh s = Some (r, s') \<Longrightarrow> derives s s'"
    "sys_ipc_ns_lookup np oc s = Some (r, s') \<Longrightarrow> derives s s'"
    "sys_ipc_object_destroy h s = Some (r, s') \<Longrightarrow> derives s s'"
proof -
  obtain c where c: "current_task s = (Some c, s)" using running_current[OF run] .
  let ?t = "g_tasks s ! c"
  have self: "derives s s" by (simp add: derives_same)
  show "derives s s'" if "sys_ipc_cap_narrow h m s = Some (r, s')"
  proof (cases "s' = s")
    case False
    let ?cap = "caps (task_ipc_cap_table ?t s) ! unat h"
    have h: "unat h < IPC_CAP_MAX_PER_TASK"
      and s': "s' = upd_cap_table ?t (set_cap (unat h) (?cap\<lparr>rights := rights ?cap AND (m AND IPC_CAP_RIGHTS_ALL)\<rparr>)) s"
      using that False by (auto simp: sys_ipc_cap_narrow_def c Let_def ret_def not_le split: if_splits)
    have "has_source ?cap s" using has_source_self[OF ext_index_bound h, of ?t s] by (simp add: cap_at_def task_ipc_cap_table_def)
    moreover have "weaker (?cap\<lparr>rights := rights ?cap AND (m AND IPC_CAP_RIGHTS_ALL)\<rparr>) ?cap"
      by (simp add: weaker_def subset_bits bit_and_iff)
    ultimately show ?thesis unfolding s' by (intro derives_set_cap[OF sz]) (rule has_source_weaker)
  qed (use self in simp)
  show "derives s s'" if d: "sys_ipc_cap_dup h oh s = Some (r, s')"
  proof (cases "s' = s")
    case False
    then obtain src k where src: "ipc_cap_resolve ?t h s = Some src"
        and s': "s' = upd_cap_table ?t (set_cap k (src\<lparr>ref_count := ref_count src + 1\<rparr>)) s"
      using d by (auto simp: sys_ipc_cap_dup_def c Let_def ret_def split: option.splits if_splits)
    have "weaker (src\<lparr>ref_count := ref_count src + 1\<rparr>) src" by (simp add: weaker_def)
    then show ?thesis unfolding s' using resolve_source[OF sz src]
      by (intro derives_set_cap[OF sz]) (rule has_source_weaker)
  qed (use self in simp)
  show "derives s s'" if "sys_ipc_ns_lookup np oc s = Some (r, s')"
    using c that
  proof (cases rule: ns_lookup_cases)
    case (2 nm e h src)
    let ?en = "ns_entries (g_namespace s) ! e"
    obtain w where w: "unat (cap_handle ?en) < IPC_CAP_MAX_PER_TASK"
        "src = caps (task_ipc_cap_table (g_tasks s ! w) s) ! unat (cap_handle ?en)"
      using 2(4) by (auto simp: entry_cap_def bind_eq_Some_conv not_le split: if_splits)
    have "has_source src s"
      using has_source_self[OF ext_index_bound w(1), of "g_tasks s ! w" s] by (simp add: w(2) cap_at_def task_ipc_cap_table_def)
    moreover have "weaker (looked_up src own) src" for own by (simp add: weaker_def looked_up_def subset_bits bit_and_iff)
    ultimately show ?thesis unfolding 2(6) by (intro derives_set_cap[OF sz]) (rule has_source_weaker)
  qed (use self in simp)
  show "derives s s'" if d: "sys_ipc_object_destroy h s = Some (r, s')"
  proof (cases "s' = s")
    case False
    then obtain cap u where u: "destroy_object cap s = Some u" "s' = upd_cap_table ?t (ipc_cap_free_slot h) u"
      using d by (auto simp: sys_ipc_object_destroy_def c Let_def ret_def bind_eq_Some_conv split: option.splits if_splits)
    note x = destroy_object_ext[OF u(1)]
    then have "tables_sized u" using sz by (simp add: tables_sized_def)
    from derives_free_slot(1)[OF this] show ?thesis unfolding u(2) by (rule derives_trans[OF derives_same[OF x]])
  qed (use self in simp)
qed

lemma object_calls_derive:
  fixes s :: "'a ipc_scheme"
  assumes run: "running s"
  shows "sys_ipc_ns_register np h s = Some (r, s') \<Longrightarrow> derives s s'"
    "sys_ipc_object_pause h s = Some (r, s') \<Longrightarrow> derives s s'"
    "sys_ipc_object_resume h s = Some (r, s') \<Longrightarrow> derives s s'"
    "sys_ipc_object_drain arch h s = Some (r, s') \<Longrightarrow> derives s s'"
proof -
  obtain c where c: "current_task s = (Some c, s)" using running_current[OF run] .
  have yield: "g_thread_ipc_ext v = g_thread_ipc_ext u" if "sched_yield (timer_idle_poll arch) u = Some v" "running u" for u v :: "'a ipc_scheme"
    using schedule_frame(2)[OF that(2)] that(1) by (simp add: sched_yield_def same_objects_def)
  show "sys_ipc_ns_register np h s = Some (r, s') \<Longrightarrow> derives s s'"
    by (rule derives_same) (auto simp: sys_ipc_ns_register_def c Let_def ret_def bind_eq_Some_conv split: option.splits)
  show "sys_ipc_object_pause h s = Some (r, s') \<Longrightarrow> derives s s'"
    by (rule derives_same)
      (auto simp: sys_ipc_object_pause_def c ret_def ipc_lifecycle_transition_def split: option.splits if_splits)
  show "sys_ipc_object_resume h s = Some (r, s') \<Longrightarrow> derives s s'"
    by (rule derives_same) (auto simp: sys_ipc_object_resume_def c ret_def split: option.splits if_splits)
  show "derives s s'" if "sys_ipc_object_drain arch h s = Some (r, s')"
  proof (rule derives_same)
    show "g_thread_ipc_ext s' = g_thread_ipc_ext s"
      using that yield[of "upd_endpoint _ _ s" s'] run
      by (auto simp: sys_ipc_object_drain_def c ret_def ipc_lifecycle_transition_def drain_loop_def bind_eq_Some_conv
          split: option.splits if_splits)
  qed
qed

text \<open>
  C14. Capabilities are not forged. An IPC system call other than those that create an object leaves
  in every table of every thread only capabilities that some table held before, for the same object
  and with no further rights.
\<close>
theorem cap_rights_never_grow:
  assumes "running s" "tables_sized s" "num \<noteq> 210" "num \<noteq> 212" "num \<noteq> 224"
    "ipc_syscall_dispatch arch umsg ustr num a1 a2 a3 s = Some (r, s')"
  shows "derives s s'"
proof -
  note t = table_calls_derive[OF assms(1,2)] and o' = object_calls_derive[OF assms(1)]
  have "derives s s" by (simp add: derives_same)
  then show ?thesis
    using assms(3-6) t o' send_derives[OF assms(1,2)] recv_derives[OF assms(1)] call_derives[OF assms(1,2)]
    unfolding ipc_syscall_dispatch_def
    by (auto simp: sys_ipc_cap_revoke_def ret_def split: if_splits)
qed

theorem cap_rights_never_grow_witness:
  "\<exists>r s'. ipc_syscall_dispatch TIMER_ARCH_X86 (\<lambda>_. zero_msg) (\<lambda>_. []) 201 0 0 0 booted = Some (r, s') \<and> derives booted s'"
proof -
  have inv: "ipc_inv booted" by (rule reach_inv[OF booted_reach])
  have run: "running booted" using inv by (simp add: ipc_inv_def)
  have sz: "tables_sized booted"
    by (simp add: tables_sized_def booted_fields zero_ext_def zero_cap_table_def)
  have "sys_ipc_cap_narrow 0 0 booted \<noteq> None" by (rule table_calls_return(4)[OF inv])
  then obtain r s' where d: "ipc_syscall_dispatch TIMER_ARCH_X86 (\<lambda>_. zero_msg) (\<lambda>_. []) 201 0 0 0 booted = Some (r, s')"
    by (auto simp: ipc_syscall_dispatch_def)
  from cap_rights_never_grow[OF run sz _ _ _ d] d show ?thesis by auto
qed

section \<open>Wait queues\<close>

text \<open>The threads linked by their \<^verbatim>\<open>next\<close> fields.\<close>
fun chain :: "thread list \<Rightarrow> nat list \<Rightarrow> bool" where
  "chain ts [] \<longleftrightarrow> True"
| "chain ts [x] \<longleftrightarrow> wait_next (ts ! x) = None"
| "chain ts (x # y # xs) \<longleftrightarrow> wait_next (ts ! x) = Some y \<and> chain ts (y # xs)"

definition wait_queue :: "nat list \<Rightarrow> nat option \<times> nat option \<Rightarrow> 'a sched_scheme \<Rightarrow> bool" where
  "wait_queue xs q s \<longleftrightarrow> distinct xs \<and> set xs \<subseteq> {..<length (g_tasks s)} \<and> chain (g_tasks s) xs \<and>
    fst q = (if xs = [] then None else Some (hd xs)) \<and> (xs \<noteq> [] \<longrightarrow> snd q = Some (last xs))"

lemma chain_cong:
  "(\<And>x. x \<in> set xs \<Longrightarrow> wait_next (ts' ! x) = wait_next (ts ! x)) \<Longrightarrow> chain ts' xs = chain ts xs"
  by (induction ts xs rule: chain.induct) auto

lemma chain_snoc:
  assumes "chain ts xs" "xs \<noteq> []" "distinct xs" "t \<notin> set xs"
    "\<And>x. x \<in> set xs \<Longrightarrow> wait_next (ts' ! x) = (if x = last xs then Some t else wait_next (ts ! x))"
    "wait_next (ts' ! t) = None"
  shows "chain ts' (xs @ [t])"
  using assms
proof (induction ts xs rule: chain.induct)
  case (3 ts x y xs)
  then have "chain ts' ((y # xs) @ [t])" by simp
  moreover have "x \<noteq> last (y # xs)" using 3(4) by (auto dest: last_in_set)
  ultimately show ?case using 3(2) 3(6)[of x] by simp
qed auto

text \<open>
  Blocked receivers form a queue. Enqueueing a thread that is not in the wait queue returns, appends
  it at the end and marks it blocked; the others stay linked in their order.
\<close>
theorem wait_enqueue_appends:
  assumes "wait_queue xs q s" "t < length (g_tasks s)" "t \<notin> set xs"
  shows "\<exists>q' s'. ipc_wait_enqueue t q s = Some (q', s') \<and> wait_queue (xs @ [t]) q' s' \<and>
    state (g_tasks s' ! t) = THREAD_STATE_BLOCKED"
proof (cases xs)
  case Nil
  obtain l where q: "q = (None, l)" using assms(1) Nil by (cases q) (simp add: wait_queue_def)
  then show ?thesis
    using assms(2) Nil by (simp add: ipc_wait_enqueue_def Let_def wait_queue_def upd_task_def)
next
  case (Cons h ys)
  let ?l = "last xs"
  have q: "q = (Some h, Some ?l)" using assms(1) Cons by (cases q) (simp add: wait_queue_def)
  have l: "?l \<in> set xs" using Cons by simp
  have lt: "?l < length (g_tasks s)" "?l \<noteq> t" using assms l by (auto simp: wait_queue_def)
  let ?s1 = "upd_task ?l (wait_next_update (\<lambda>_. Some t)) (upd_task t (wait_next_update (\<lambda>_. None)) s)"
  let ?s' = "upd_task t (state_update (\<lambda>_. THREAD_STATE_BLOCKED)) ?s1"
  have en: "ipc_wait_enqueue t q s = Some ((Some h, Some t), ?s')" by (simp add: q ipc_wait_enqueue_def Let_def)
  have links: "wait_next (g_tasks ?s' ! x) = (if x = ?l then Some t else wait_next (g_tasks s ! x))" if "x \<in> set xs" for x
    using that assms(3) lt by (auto simp: upd_task_def nth_update_if)
  have "wait_next (g_tasks ?s' ! t) = None" using assms(2) lt by (simp add: upd_task_def nth_update_if)
  then have "chain (g_tasks ?s') (xs @ [t])"
    using assms(1,3) Cons by (intro chain_snoc[of "g_tasks s" xs t, OF _ _ _ _ links]) (simp_all add: wait_queue_def)
  then have "wait_queue (xs @ [t]) (Some h, Some t) ?s'"
    using assms Cons by (auto simp: wait_queue_def upd_task_def)
  moreover have "state (g_tasks ?s' ! t) = THREAD_STATE_BLOCKED" using assms(2) by (simp add: upd_task_def)
  ultimately show ?thesis using en by blast
qed

theorem wait_enqueue_appends_witness:
  "\<exists>q' s'. ipc_wait_enqueue 3 (None, None) booted = Some (q', s') \<and> wait_queue [3] q' s'"
  using wait_enqueue_appends[of "[]" "(None, None)" booted 3]
  by (simp add: wait_queue_def booted_fields(2) MAX_TASKS_def) blast

section \<open>Boot and transfer\<close>

text \<open>
  Boot takes the root directory away from the first thread: \<^verbatim>\<open>sched_init\<close> gives it a capability for
  \<^verbatim>\<open>/\<close> in slot 0, and \<^verbatim>\<open>ipc_subsystem_init\<close>, which \<^verbatim>\<open>virt_main\<close> calls afterwards, clears all tables, so
  no handle of the first thread resolves.
\<close>
theorem boot_drops_root_capability:
  assumes "length (g_thread_ipc_ext s) = SCHED_MAX_THREADS"
  shows "(\<exists>cap. ipc_cap_resolve (g_tasks (sched_init s) ! 0) 0 (sched_init s) = Some cap \<and>
      object_type cap = IPC_OBJ_DIR \<and> cap_path cap = ''/'') \<and>
    ipc_cap_resolve (g_tasks (ipc_subsystem_init (sched_init s)) ! 0) h (ipc_subsystem_init (sched_init s)) = None"
proof -
  let ?u = "sched_init s"
  have "cap_table (g_thread_ipc_ext ?u ! ext_index (g_tasks ?u ! 0)) = initial_cap_table"
    using assms ext_index_bound by (simp add: sched_init_def sched_ipc_init_thread_def Let_def)
  then have "ipc_cap_resolve (g_tasks ?u ! 0) 0 ?u = Some (caps initial_cap_table ! 0)"
    by (simp add: ipc_cap_resolve_def ipc_cap_resolve_in_def task_ipc_cap_table_def IPC_CAP_MAX_PER_TASK_def
        ipc_cap_is_valid_def initial_cap_table_def)
  moreover have "ipc_cap_resolve (g_tasks (ipc_subsystem_init ?u) ! 0) h (ipc_subsystem_init ?u) = None"
    using ext_index_bound
    by (simp add: ipc_cap_resolve_def ipc_cap_resolve_in_def task_ipc_cap_table_def ipc_subsystem_init_def zero_ext_def
        zero_cap_table_def ipc_cap_is_valid_def zero_cap_def)
  ultimately show ?thesis by (simp add: initial_cap_table_def)
qed

theorem boot_drops_root_capability_witness:
  "ipc_cap_resolve (g_tasks booted ! 0) 0 booted = None"
  using boot_drops_root_capability[of cold 0]
  by (simp add: booted_def cold_def demo_sched_def sched.defs timer.defs ipc.defs SCHED_MAX_THREADS_def)

end
