(* ===== verification/Sage_Syscall_Props.thy ===== *)
theory Sage_Syscall_Props
  imports Sage_Syscall_Inv Sage_IPC_Props
begin

text \<open>
  What the system calls guarantee to programs. In every reachable state processes are well-formed. The
  descriptor table of the running thread behaves as a map of independent entries on which \<^verbatim>\<open>open\<close>, \<^verbatim>\<open>close\<close>,
  \<^verbatim>\<open>dup2\<close> and \<^verbatim>\<open>lseek\<close> act as specified (\<open>fds\<close>, \<open>spec_open\<close> and the others). The errors of \<^verbatim>\<open>open\<close> are shown to be
  numbers that programs take for descriptors. A confined task without the right to write cannot change the file
  system, but loses its confinement in \<^verbatim>\<open>vfork\<close>. A directory listing fills the buffer with records one
  after the other.
\<close>

section \<open>A kernel with one program\<close>

definition demo_kernel :: "'w vfs \<Rightarrow> 'w kernel" where
  "demo_kernel v = \<lparr>core = booted, files = v, umem = \<lambda>_. 0, console = [], klogbuf = demo_log, power = []\<rparr>"

lemma demo_kernel_reach: "kernel_reach arch br (demo_kernel v)"
  by (rule kernel_reach.boot[of cold])
    (simp_all add: demo_kernel_def booted_def cold_def demo_sched_def sched.defs timer.defs ipc.defs heap0_inv)

definition demo_env :: "'w vfs_bridge \<Rightarrow> 'w sys_env" where
  "demo_env br = \<lparr>env_arch = TIMER_ARCH_RV64, env_bridge = br, env_kernel = (0x100000, 0x4000000), env_heap = 0x2000000, env_clock = \<lambda>_. 0,
    env_stat = \<lparr>st_name = [], st_type = 0, st_size = 0, st_mode = 0\<rparr>, env_dirents = replicate 64 (dir_entry []),
    env_msg = \<lambda>_. zero_msg, env_str = \<lambda>_. [], env_bytes = \<lambda>_ n. replicate n 0, env_strs = \<lambda>_. [], env_timespec = \<lambda>_. (0, 0)\<rparr>"

lemma demo_env_bridge [simp]: "env_bridge (demo_env br) = br"
  by (simp add: demo_env_def)

lemma demo_kernel_current: "g_current_task (core (demo_kernel v)) = Some 0" "task_at 0 (demo_kernel v) = g_tasks booted ! 0"
  by (simp_all add: demo_kernel_def booted_fields task_at_def)

lemma demo_kernel_fields [simp]: "files (demo_kernel v) = v" "console (demo_kernel v) = []"
  by (simp_all add: demo_kernel_def)

lemma demo_permissions: "permissions (task_at 0 (demo_kernel v)) = 0"
  by (simp add: demo_kernel_current booted_fields zero_thread_def)

section \<open>Well-formed processes\<close>

text \<open>
  C7. In every state reachable from boot by system calls, the resumption of blocked calls, the creation of
  threads and switches, the running thread and the IPC objects are well-formed, and every thread has
  exactly \<open>MAX_FD\<close> descriptors whose paths fit the buffer of 256 characters with their terminator, a working
  directory that fits, and no parent outside the thread table.
\<close>
theorem processes_well_formed:
  assumes "kernel_reach arch br k"
  shows "running (core k) \<and> objects_ok (core k) \<and>
    (\<forall>t\<in>set (g_tasks (core k)). length (fd_table t) = 32 \<and> (\<forall>e\<in>set (fd_table t). length (fd_path e) < 256) \<and>
      length (cwd t) < 256 \<and> (\<forall>p. parent t = Some p \<longrightarrow> p < length (g_tasks (core k))))"
  using kernel_reach_ok[OF assms]
  by (auto simp: kernel_ok_def ipc_inv_def running_def procs_ok_def proc_ok_def fd_ok_def MAX_FD_def VFS_MAX_PATH_def)

theorem processes_well_formed_witness:
  "length (fd_table (g_tasks (core (demo_kernel (demo_vfs demo_backend ()))) ! 5)) = 32 \<and>
    length (cwd (g_tasks (core (demo_kernel (demo_vfs demo_backend ()))) ! 5)) < 256"
proof -
  let ?k = "demo_kernel (demo_vfs demo_backend ())"
  have "g_tasks (core ?k) ! 5 \<in> set (g_tasks (core ?k))" by (rule nth_mem) (simp add: demo_kernel_def booted_fields MAX_TASKS_def)
  then show ?thesis using processes_well_formed[OF demo_kernel_reach[of TIMER_ARCH_RV64 demo_bridge]] by blast
qed

section \<open>Descriptors\<close>

text \<open>The descriptor table of a thread as a map: the path, the offset and the flags of each open descriptor.\<close>
definition fds :: "nat \<Rightarrow> 'w kernel \<Rightarrow> int \<rightharpoonup> string \<times> int \<times> u32" where
  "fds c k fd = (if fd_valid c fd k then Some (fd_path (fd_at c fd k), offset (fd_at c fd k), fd_flags (fd_at c fd k)) else None)"

definition runs :: "nat \<Rightarrow> 'w kernel \<Rightarrow> bool" where
  "runs c k \<longleftrightarrow> kernel_ok k \<and> g_current_task (core k) = Some c"

lemma runs_task:
  assumes "runs c k"
  shows "the_task k = (Some c, k)" "c < MAX_TASKS" "length (fd_table (task_at c k)) = MAX_FD" "length (g_tasks (core k)) = MAX_TASKS"
    "proc_ok (task_at c k)"
proof -
  obtain d where d: "the_task k = (Some d, k)" "d < MAX_TASKS" "proc_ok (task_at d k)" "g_current_task (core k) = Some d"
    using kernel_ok_task assms unfolding runs_def by blast
  then have "d = c" using assms by (simp add: runs_def)
  with d show "the_task k = (Some c, k)" "c < MAX_TASKS" "proc_ok (task_at c k)" "length (fd_table (task_at c k)) = MAX_FD"
    by (simp_all add: proc_ok_def)
  show "length (g_tasks (core k)) = MAX_TASKS" using assms by (simp add: runs_def kernel_ok_def ipc_inv_def running_def)
qed

text \<open>Two kernels that differ in the descriptor table of thread \<open>c\<close> at most.\<close>
definition only_fds :: "nat \<Rightarrow> 'w kernel \<Rightarrow> 'w kernel \<Rightarrow> bool" where
  "only_fds c k k' \<longleftrightarrow> (\<exists>tab. k' = set_task c (fd_table_update (\<lambda>_. tab)) k)"

lemma set_fd_only: "only_fds c k (set_fd c fd f k)"
proof -
  have "set_fd c fd f k = set_task c (fd_table_update (\<lambda>_. (fd_table (task_at c k))[nat fd := f (fd_table (task_at c k) ! nat fd)])) k"
    by (simp add: set_fd_def set_task_def task_at_def upd_task_def)
  then show ?thesis unfolding only_fds_def by blast
qed

lemma fds_set_fd:
  assumes "runs c k" "0 \<le> fd" "fd < int MAX_FD"
  shows "fds c (set_fd c fd f k) = (fds c k)(fd := let e = f (fd_at c fd k) in
    if valid e then Some (fd_path e, offset e, fd_flags e) else None)"
proof
  fix g
  have at: "fd_at c g (set_fd c fd f k) = (if g = fd then f (fd_at c fd k) else fd_at c g k)" if "0 \<le> g" "g < int MAX_FD"
    using runs_task[OF assms(1)] assms that
    by (simp add: fd_at_def set_fd_def set_task_def task_at_def upd_task_def nat_less_iff nth_list_update eq_nat_nat_iff)
  then show "fds c (set_fd c fd f k) g = ((fds c k)(fd := let e = f (fd_at c fd k) in
      if valid e then Some (fd_path e, offset e, fd_flags e) else None)) g"
    using assms(2,3) by (auto simp: fds_def fd_valid_def Let_def)
qed

lemma runs_set_fd: "runs c k \<Longrightarrow> (\<And>e. fd_ok e \<Longrightarrow> fd_ok (f e)) \<Longrightarrow> runs c (set_fd c fd f k)"
  using kernel_ok_set_fd[of k f] by (simp add: runs_def set_fd_def set_task_def)

lemma fd_valid_fds: "fd_valid c fd k \<longleftrightarrow> fds c k fd \<noteq> None" "fds c k fd = Some (p, q, fl) \<Longrightarrow> 0 \<le> fd \<and> fd < int MAX_FD"
  "fds c k fd = Some (p, q, fl) \<Longrightarrow> fd_path (fd_at c fd k) = p \<and> offset (fd_at c fd k) = q \<and> fd_flags (fd_at c fd k) = fl"
  by (auto simp: fds_def fd_valid_def split: if_splits)

lemma only_fds_refl:
  assumes "runs c k"
  shows "only_fds c k k"
  unfolding only_fds_def
  by (rule exI[of _ "fd_table (task_at c k)"]) (use runs_task[OF assms] in \<open>simp add: set_task_def upd_task_def task_at_def\<close>)

text \<open>What the calls promise: a table of independent descriptors.\<close>

definition spec_close :: "int \<Rightarrow> (int \<rightharpoonup> 'e) \<Rightarrow> int \<times> (int \<rightharpoonup> 'e)" where
  "spec_close fd D = (if D fd = None then (22, D) else (0, D(fd := None)))"

definition spec_dup2 :: "int \<Rightarrow> int \<Rightarrow> (int \<rightharpoonup> 'e) \<Rightarrow> int \<times> (int \<rightharpoonup> 'e)" where
  "spec_dup2 old new D = (if D old = None \<or> new < 0 \<or> new \<ge> 32 then (22, D) else (new, D(new := D old)))"

fun spec_seek :: "int \<Rightarrow> int \<Rightarrow> int \<Rightarrow> (int \<rightharpoonup> string \<times> int \<times> u32) \<Rightarrow> int \<times> (int \<rightharpoonup> string \<times> int \<times> u32)" where
  "spec_seek fd off whence D =
    (case D fd of
       None \<Rightarrow> (22, D)
     | Some (p, q, fl) \<Rightarrow> let r = (if whence = 0 then off else wrap64 (q + off)) in (r, D(fd \<mapsto> (p, r, fl))))"

definition spec_open :: "string \<Rightarrow> u32 \<Rightarrow> int \<Rightarrow> (int \<rightharpoonup> string \<times> int \<times> u32) \<Rightarrow> int \<times> (int \<rightharpoonup> string \<times> int \<times> u32)" where
  "spec_open p fl q D =
    (case find (\<lambda>i. D (int i) = None) [3..<32] of None \<Rightarrow> (28, D) | Some i \<Rightarrow> (int i, D(int i \<mapsto> (p, q, fl))))"

lemma close_refines:
  assumes "runs c k"
  shows "\<exists>r k'. sys_close fd k = Some (Ret r Sys_none, k') \<and> spec_close fd (fds c k) = (r, fds c k') \<and> runs c k' \<and> only_fds c k k'"
proof (cases "fd_valid c fd k")
  case True
  then have fd: "0 \<le> fd" "fd < int MAX_FD" by (simp_all add: fd_valid_def)
  have "sys_close fd k = Some (Ret 0 Sys_none, set_fd c fd (valid_update (\<lambda>_. False)) k)"
    using True runs_task(1)[OF assms] by (simp add: sys_close_def with_fd_def)
  moreover have "spec_close fd (fds c k) = (0, fds c (set_fd c fd (valid_update (\<lambda>_. False)) k))"
    using True fd_valid_fds(1)[of c fd k] fds_set_fd[OF assms fd] by (simp add: spec_close_def)
  moreover have "runs c (set_fd c fd (valid_update (\<lambda>_. False)) k)" using assms by (rule runs_set_fd) (simp add: fd_ok_def)
  ultimately show ?thesis using set_fd_only by blast
next
  case False
  then show ?thesis using only_fds_refl[OF assms] assms runs_task(1)[OF assms] fd_valid_fds(1)[of c fd k]
    by (simp add: sys_close_def with_fd_def spec_close_def VFS_EINVAL_def)
qed

lemma dup2_refines:
  assumes "runs c k"
  shows "\<exists>r k'. sys_dup2 old new k = Some (Ret r Sys_none, k') \<and> spec_dup2 old new (fds c k) = (r, fds c k') \<and> runs c k' \<and> only_fds c k k'"
proof (cases "fd_valid c old k \<and> 0 \<le> new \<and> new < int MAX_FD")
  case True
  let ?k = "set_fd c new (\<lambda>_. fd_at c old k) k"
  have ok: "fd_ok (fd_at c old k)" using True runs_task(3,5)[OF assms] nth_mem[of "nat old" "fd_table (task_at c k)"]
    by (auto simp: proc_ok_def fd_at_def fd_valid_def nat_less_iff)
  have "sys_dup2 old new k = Some (Ret new Sys_none, ?k)"
    using True runs_task(1)[OF assms] by (simp add: sys_dup2_def with_fd_def)
  moreover have "spec_dup2 old new (fds c k) = (new, fds c ?k)"
    using True fd_valid_fds(1)[of c old k] fds_set_fd[OF assms, of new "\<lambda>_. fd_at c old k"]
    by (simp add: spec_dup2_def MAX_FD_def Let_def) (simp add: fds_def fd_valid_def MAX_FD_def)
  moreover have "runs c ?k" by (rule runs_set_fd[OF assms ok])
  ultimately show ?thesis using set_fd_only by blast
next
  case False
  then have "sys_dup2 old new k = Some (Ret 22 Sys_none, k)"
    using runs_task(1)[OF assms] by (auto simp: sys_dup2_def with_fd_def VFS_EINVAL_def)
  then show ?thesis using False only_fds_refl[OF assms] assms fd_valid_fds(1)[of c old k]
    by (auto simp: spec_dup2_def MAX_FD_def)
qed

lemma seek_refines:
  assumes "runs c k" "whence = 0 \<or> whence = 1"
  shows "\<exists>r k'. sys_lseek env fd off whence k = Some (Ret r Sys_none, k') \<and> spec_seek fd off whence (fds c k) = (r, fds c k') \<and>
    runs c k' \<and> only_fds c k k'"
proof (cases "fds c k fd")
  case None
  then show ?thesis using only_fds_refl[OF assms(1)] assms(1) runs_task(1)[OF assms(1)] fd_valid_fds(1)[of c fd k]
    by (simp add: sys_lseek_def with_fd_def VFS_EINVAL_def)
next
  case (Some e)
  obtain p q fl where e: "e = (p, q, fl)" by (cases e)
  note at = fd_valid_fds(2,3)[OF Some[unfolded e]]
  have v: "fd_valid c fd k" using Some fd_valid_fds(1)[of c fd k] by simp
  define r where "r = (if whence = 0 then off else wrap64 (q + off))"
  let ?k = "set_fd c fd (offset_update (\<lambda>_. r)) k"
  have "sys_lseek env fd off whence k = Some (Ret r Sys_none, ?k)"
    using v at(2) runs_task(1)[OF assms(1)] assms(2) by (auto simp: sys_lseek_def with_fd_def r_def)
  moreover have "spec_seek fd off whence (fds c k) = (r, fds c ?k)"
    using Some e fds_set_fd[OF assms(1) conjunct1[OF at(1)] conjunct2[OF at(1)], of "offset_update (\<lambda>_. r)"] at(2) v
    by (simp add: r_def[symmetric] fd_valid_def Let_def)
  moreover have "runs c ?k" using assms(1) by (rule runs_set_fd) (simp add: fd_ok_def)
  ultimately show ?thesis using set_fd_only by blast
qed

lemma find_cong_upt: "(\<And>i. i \<in> set xs \<Longrightarrow> P i = Q i) \<Longrightarrow> find P xs = find Q xs"
  by (induction xs) auto

lemma open_fd_refines:
  assumes "runs c k" "length p < VFS_MAX_PATH"
  shows "\<exists>r k'. open_fd p fl st c k = Some (Ret r Sys_none, k') \<and>
    spec_open p fl (if fl AND O_APPEND \<noteq> 0 then sint (st_size st) else 0) (fds c k) = (r, fds c k') \<and> runs c k' \<and> only_fds c k k'"
proof -
  have free: "free_fd (fd_table (task_at c k)) = find (\<lambda>i. fds c k (int i) = None) [3..<32]"
    unfolding free_fd_def MAX_FD_def
    by (rule find_cong_upt) (auto simp: fds_def fd_valid_def fd_at_def MAX_FD_def simp del: upt_rec_numeral)
  show ?thesis
  proof (cases "find (\<lambda>i. fds c k (int i) = None) [3..<32]")
    case None
    then show ?thesis using only_fds_refl[OF assms(1)] assms(1) free
      by (simp add: open_fd_def spec_open_def VFS_ENOSPC_def del: upt_rec_numeral)
  next
    case (Some i)
    then have "i \<in> set [3..<32]" by (metis find_Some_iff nth_mem)
    then have i: "int i < int MAX_FD" by (simp add: MAX_FD_def del: upt_rec_numeral)
    define q where "q = (if fl AND O_APPEND \<noteq> 0 then sint (st_size st) else 0)"
    let ?f = "\<lambda>e. e\<lparr>valid := True, fd_path := take VFS_MAX_PATH p, fd_flags := fl, offset := q\<rparr>"
    have "open_fd p fl st c k = Some (Ret (int i) Sys_none, set_fd c (int i) ?f k)"
      using Some free by (simp add: open_fd_def q_def del: upt_rec_numeral)
    moreover have "fds c (set_fd c (int i) ?f k) = (fds c k)(int i \<mapsto> (p, q, fl))"
      using fds_set_fd[OF assms(1) _ i, of ?f] assms(2) by simp
    moreover have "runs c (set_fd c (int i) ?f k)" using assms(1) by (rule runs_set_fd) (use assms(2) in \<open>simp add: fd_ok_def\<close>)
    ultimately show ?thesis using Some set_fd_only[of c k] by (simp add: spec_open_def q_def del: upt_rec_numeral)
  qed
qed

lemma open_refines:
  assumes "runs c k" "length p < VFS_MAX_PATH" "task_has_vfs_cap (Some c) p
      (if fl AND (O_WRONLY OR O_RDWR OR O_CREAT OR O_TRUNC) \<noteq> 0 then IPC_CAP_RIGHT_VFS_WRITE else IPC_CAP_RIGHT_VFS_READ) k"
    "vfs_stat (env_bridge env) p (env_stat env) (files k) = Some ((x, st), v)" "0 \<le> x" "fl AND O_TRUNC = 0" "fl AND O_EXCL = 0"
  shows "\<exists>r k'. sys_open env (Some p) fl k = Some (Ret r Sys_none, k') \<and>
    spec_open p fl (if fl AND O_APPEND \<noteq> 0 then sint (st_size st) else 0) (fds c k) = (r, fds c k') \<and>
    runs c k' \<and> only_fds c (k\<lparr>files := v\<rparr>) k'"
proof -
  have "runs c (k\<lparr>files := v\<rparr>)" using assms(1) by (simp add: runs_def)
  moreover have "fds c (k\<lparr>files := v\<rparr>) = fds c k"
    by (rule ext) (simp add: fds_def fd_valid_def fd_at_def task_at_def)
  moreover have "sys_open env (Some p) fl k = open_fd p fl st c (k\<lparr>files := v\<rparr>)"
    using assms runs_task(1)[OF assms(1)] by (simp add: sys_open_def safe_strnlen_def Let_def VFS_MAX_PATH_def)
  ultimately show ?thesis using open_fd_refines[OF _ assms(2), of c "k\<lparr>files := v\<rparr>" fl st] by simp
qed

text \<open>
  C5. For the thread that runs, its descriptors are a table of independent entries (path, offset, flags), and
  closing, duplicating, seeking from the start or the current offset, and opening an existing file act on the
  table as the specifications do: \<^verbatim>\<open>close\<close> removes one entry, \<^verbatim>\<open>dup2\<close> copies one entry over
  another, \<^verbatim>\<open>lseek\<close> changes one offset, \<^verbatim>\<open>open\<close> fills the least free place from 3 on and
  answers 28 when there is none. Nothing but this thread's descriptor table changes, except the state of the file
  system where \<^verbatim>\<open>open\<close> looks the path up.
\<close>
theorem descriptors_refine:
  assumes "kernel_reach arch br k" "g_current_task (core k) = Some c"
  shows "(\<exists>r k'. sys_close fd k = Some (Ret r Sys_none, k') \<and> spec_close fd (fds c k) = (r, fds c k') \<and> only_fds c k k') \<and>
    (\<exists>r k'. sys_dup2 fd new k = Some (Ret r Sys_none, k') \<and> spec_dup2 fd new (fds c k) = (r, fds c k') \<and> only_fds c k k') \<and>
    (whence = 0 \<or> whence = 1 \<longrightarrow>
      (\<exists>r k'. sys_lseek env fd off whence k = Some (Ret r Sys_none, k') \<and> spec_seek fd off whence (fds c k) = (r, fds c k') \<and>
        only_fds c k k')) \<and>
    (length p < 256 \<and> permissions (task_at c k) AND PERM_VFS_CAP_ONLY = 0 \<and> fl AND O_TRUNC = 0 \<and> fl AND O_EXCL = 0 \<and>
        vfs_stat (env_bridge env) p (env_stat env) (files k) = Some ((x, st), v) \<and> 0 \<le> x \<longrightarrow>
      (\<exists>r k'. sys_open env (Some p) fl k = Some (Ret r Sys_none, k') \<and>
        spec_open p fl (if fl AND O_APPEND \<noteq> 0 then sint (st_size st) else 0) (fds c k) = (r, fds c k') \<and>
        only_fds c (k\<lparr>files := v\<rparr>) k'))"
proof -
  have k: "runs c k" using kernel_reach_ok[OF assms(1)] assms(2) by (simp add: runs_def)
  have "task_has_vfs_cap (Some c) p need k" if "permissions (task_at c k) AND PERM_VFS_CAP_ONLY = 0" for need
    using that by (simp add: task_has_vfs_cap_def)
  then show ?thesis
    using close_refines[OF k, of fd] dup2_refines[OF k, of fd new] seek_refines[OF k, of whence env fd off]
      open_refines[OF k, of p fl env x st v]
    by (auto simp: VFS_MAX_PATH_def)
qed

lemma demo_stat: "\<exists>st v. vfs_stat demo_bridge p out (demo_vfs demo_backend ()) = Some ((0, st), v)"
proof -
  obtain t where t: "norm_path p = Some t" using norm_path_returns by blast
  then show ?thesis
    using demo_lookup[of "demo_vfs demo_backend ()" be_stat t] by (auto simp: vfs_stat_def demo_backend_def same_setup_def VFS_OK_def)
qed

theorem descriptors_refine_witness:
  "\<exists>k'. sys_open (demo_env demo_bridge) (Some ''/f'') 0 (demo_kernel (demo_vfs demo_backend ())) = Some (Ret 3 Sys_none, k') \<and>
    fds 0 k' 3 = Some (''/f'', 0, 0)"
proof -
  let ?k = "demo_kernel (demo_vfs demo_backend ())" and ?env = "demo_env demo_bridge"
  obtain st v where st: "vfs_stat demo_bridge ''/f'' (env_stat ?env) (files ?k) = Some ((0, st), v)"
    using demo_stat[of "''/f''" "env_stat ?env"] by (auto simp: demo_kernel_def)
  have free: "fds 0 ?k fd = None" for fd
    by (simp add: fds_def fd_valid_def fd_at_def demo_kernel_current booted_fields zero_thread_def zero_fd_def MAX_FD_def nat_less_iff)
  obtain r k' where op: "sys_open ?env (Some ''/f'') 0 ?k = Some (Ret r Sys_none, k')"
      "spec_open ''/f'' 0 0 (fds 0 ?k) = (r, fds 0 k')"
    using descriptors_refine[OF demo_kernel_reach[of TIMER_ARCH_RV64 demo_bridge "demo_vfs demo_backend ()"] demo_kernel_current(1),
        where p = "''/f''" and fl = 0 and env = ?env and x = 0 and st = st and v = v,
        THEN conjunct2, THEN conjunct2, THEN conjunct2] st
    by (auto simp: demo_permissions)
  then have "r = 3" "fds 0 k' = (fds 0 ?k)(3 \<mapsto> (''/f'', 0, 0))" by (auto simp: spec_open_def free)
  then show ?thesis using op(1) by simp
qed

section \<open>Errors\<close>

text \<open>
  C39. Errors look like descriptors. The error codes are negated twice, so a failing \<^verbatim>\<open>open\<close> answers a small
  positive number: 2 for a file that does not exist, 28 when no descriptor is free (and 28 is then an open one), 13
  when a capability is missing, 22 for a path that is null or too long. A program that takes the answer 2 for a
  descriptor and writes to it prints on the console.
\<close>
theorem open_errors_are_descriptors:
  assumes "kernel_reach arch br k" "g_current_task (core k) = Some c" "length p < 256"
  shows "(permissions (task_at c k) AND PERM_VFS_CAP_ONLY = 0 \<and> fl AND O_CREAT = 0 \<and>
        vfs_stat (env_bridge env) p (env_stat env) (files k) = Some ((x, st), v) \<and> x < 0 \<longrightarrow>
      sys_open env (Some p) fl k = Some (Ret 2 Sys_none, k\<lparr>files := v\<rparr>) \<and>
      sys_write env 2 (Some data) (k\<lparr>files := v\<rparr>) =
        Some (Ret (int (length data)) Sys_none, k\<lparr>files := v, console := console k @ data\<rparr>)) \<and>
    (permissions (task_at c k) AND PERM_VFS_CAP_ONLY = 0 \<and> (\<forall>fd. 3 \<le> fd \<and> fd < 32 \<longrightarrow> fds c k fd \<noteq> None) \<and>
        fl AND O_TRUNC = 0 \<and> fl AND O_EXCL = 0 \<and>
        vfs_stat (env_bridge env) p (env_stat env) (files k) = Some ((x, st), v) \<and> 0 \<le> x \<longrightarrow>
      sys_open env (Some p) fl k = Some (Ret 28 Sys_none, k\<lparr>files := v\<rparr>) \<and> fds c k 28 \<noteq> None) \<and>
    (\<not> task_has_vfs_cap (Some c) p IPC_CAP_RIGHT_VFS_READ k \<longrightarrow>
      (\<exists>k'. sys_open env (Some p) 0 k = Some (Ret 13 Sys_none, k'))) \<and>
    sys_open env None fl k = Some (Ret 22 Sys_none, k)"
proof -
  have k: "runs c k" using kernel_reach_ok[OF assms(1)] assms(2) by (simp add: runs_def)
  have c: "the_task k = (Some c, k)" "the_task (k\<lparr>files := v\<rparr>) = (Some c, k\<lparr>files := v\<rparr>)"
    using runs_task(1)[OF k] runs_task(1)[of c "k\<lparr>files := v\<rparr>"] k by (simp_all add: runs_def)
  have short: "\<not> VFS_MAX_PATH \<le> safe_strnlen (Some p) 1024" using assms(3) by (simp add: safe_strnlen_def VFS_MAX_PATH_def)
  have full: "free_fd (fd_table (task_at c (k\<lparr>files := v\<rparr>))) = None" if "\<forall>fd. 3 \<le> fd \<and> fd < 32 \<longrightarrow> fds c k fd \<noteq> None"
  proof -
    have "valid (fd_table (task_at c k) ! i)" if "3 \<le> i" "i < 32" for i
      using \<open>\<forall>fd. 3 \<le> fd \<and> fd < 32 \<longrightarrow> fds c k fd \<noteq> None\<close>[rule_format, of "int i"] that
      by (auto simp: fds_def fd_valid_def fd_at_def split: if_splits)
    then show ?thesis by (auto simp: free_fd_def find_None_iff MAX_FD_def task_at_def simp del: upt_rec_numeral)
  qed
  show ?thesis
    using c short full
    by (auto simp: sys_open_def sys_write_def task_has_vfs_cap_def open_fd_def denied_def sret_def Let_def VFS_ENOENT_def
        VFS_ENOSPC_def VFS_EACCES_def VFS_EINVAL_def)
qed

text \<open>A file system with nothing mounted.\<close>
definition bare_vfs :: "unit vfs" where
  "bare_vfs = (demo_vfs demo_backend ())\<lparr>g_mounts := [], g_mount_count := 0\<rparr>"

lemma bare_stat: "vfs_stat demo_bridge p out bare_vfs = Some ((-2, out), bare_vfs)"
proof -
  obtain t where t: "norm_path p = Some t" using norm_path_returns by blast
  have "lookup_op be_stat t bare_vfs = None" by (simp add: lookup_op_def resolve_mount_def bare_vfs_def)
  then show ?thesis using t by (simp add: vfs_stat_def VFS_ENOENT_def VFS_OK_def use_bridge_def bare_vfs_def demo_vfs_def)
qed

theorem open_errors_are_descriptors_witness:
  "\<exists>k'. sys_open (demo_env demo_bridge) (Some ''/g'') 0 (demo_kernel bare_vfs) =
      Some (Ret 2 Sys_none, k') \<and>
    (\<exists>k''. sys_write (demo_env demo_bridge) 2 (Some [72, 105]) k' = Some (Ret 2 Sys_none, k'') \<and> console k'' = [72, 105])"
proof -
  let ?k = "demo_kernel bare_vfs"
  show ?thesis
    using open_errors_are_descriptors[OF demo_kernel_reach[of TIMER_ARCH_RV64 demo_bridge bare_vfs] demo_kernel_current(1),
        where p = "''/g''" and fl = 0 and env = "demo_env demo_bridge" and x = "-2" and st = "env_stat (demo_env demo_bridge)" and
        v = bare_vfs and data = "[72, 105]", THEN conjunct1]
    by (simp add: demo_permissions bare_stat)
qed

section \<open>Confinement\<close>

text \<open>A task that reaches files through its capabilities only.\<close>
definition confined :: "nat \<Rightarrow> 'w kernel \<Rightarrow> bool" where
  "confined c k \<longleftrightarrow> permissions (task_at c k) AND PERM_VFS_CAP_ONLY \<noteq> 0"

text \<open>The capabilities in the table of a thread.\<close>
definition holds :: "nat \<Rightarrow> 'w kernel \<Rightarrow> ipc_capability set" where
  "holds c k = set (take IPC_CAP_MAX_PER_TASK (caps (task_ipc_cap_table (task_at c k) (core k))))"

lemma confined_needs_right:
  assumes "confined c k" "\<forall>cap\<in>holds c k. rights cap AND r = 0"
  shows "\<not> task_has_vfs_cap (Some c) p r k"
  using assms by (auto simp: task_has_vfs_cap_def confined_def holds_def cap_grants_def)

lemma denied_files: "denied env msg k = Some (r, k') \<Longrightarrow> r = Ret 13 Sys_none \<and> files k' = files k"
  by (auto simp: denied_def security_log_def VFS_EACCES_def)

text \<open>
  C8. Confinement. A confined task none of whose capabilities carries the right to write does not change the file
  system: writing, unlinking, creating directories and opening for writing or creation leave it as it was, whatever the
  descriptor or the path; opening, unlinking and creating answer 13 for a path that is not null or too long.
\<close>
theorem confined_task_cannot_write:
  assumes k: "runs c k" and "confined c k" "\<forall>cap\<in>holds c k. rights cap AND IPC_CAP_RIGHT_VFS_WRITE = 0"
  shows "(\<forall>fd data r k'. sys_write env fd data k = Some (r, k') \<longrightarrow> files k' = files k) \<and>
    (\<forall>f p r k'. f \<in> {sys_unlink env, sys_mkdir env} \<and> f p k = Some (r, k') \<longrightarrow>
      files k' = files k \<and> (\<forall>q. p = Some q \<and> length q < 256 \<longrightarrow> r = Ret 13 Sys_none)) \<and>
    (\<forall>p fl r k'. fl AND (O_WRONLY OR O_RDWR OR O_CREAT OR O_TRUNC) \<noteq> 0 \<and> sys_open env p fl k = Some (r, k') \<longrightarrow>
      files k' = files k \<and> (\<forall>q. p = Some q \<and> length q < 256 \<longrightarrow> r = Ret 13 Sys_none))"
proof -
  note c = runs_task(1)[OF k] and no = confined_needs_right[OF assms(2,3)]
  have "files k' = files k" if "sys_write env fd data k = Some (r, k')" for fd data r k'
    using that c no by (auto simp: sys_write_def split: if_splits option.splits dest: denied_files)
  moreover have "files k' = files k \<and> (\<forall>q. p = Some q \<and> length q < 256 \<longrightarrow> r = Ret 13 Sys_none)"
    if "path_call g msg env p k = Some (r, k')" for g msg p r k'
    using that c no by (auto simp: path_call_def VFS_MAX_PATH_def safe_strnlen_def split: if_splits option.splits dest: denied_files)
  moreover have "files k' = files k \<and> (\<forall>q. p = Some q \<and> length q < 256 \<longrightarrow> r = Ret 13 Sys_none)"
    if "fl AND (O_WRONLY OR O_RDWR OR O_CREAT OR O_TRUNC) \<noteq> 0" "sys_open env p fl k = Some (r, k')" for p fl r k'
    using that c no by (auto simp: sys_open_def VFS_MAX_PATH_def safe_strnlen_def Let_def split: if_splits option.splits dest: denied_files)
  ultimately show ?thesis by (auto simp: sys_unlink_def sys_mkdir_def)
qed

text \<open>The program of the kernel after boot, confined, with the empty table that boot leaves.\<close>
definition demo_confined :: "unit kernel" where
  "demo_confined = set_task 0 (permissions_update (\<lambda>_. PERM_VFS_CAP_ONLY)) (demo_kernel bare_vfs)"

lemma demo_confined_facts:
  "runs 0 demo_confined" "confined 0 demo_confined" "\<forall>cap\<in>holds 0 demo_confined. rights cap AND IPC_CAP_RIGHT_VFS_WRITE = 0"
proof -
  have "kernel_ok demo_confined" unfolding demo_confined_def
    by (rule kernel_ok_set_task[OF kernel_reach_ok[OF demo_kernel_reach[of TIMER_ARCH_RV64 demo_bridge]]]) (simp add: proc_ok_def)
  then show "runs 0 demo_confined" by (simp add: runs_def demo_confined_def set_task_def demo_kernel_current)
  have t: "task_at 0 demo_confined = (g_tasks booted ! 0)\<lparr>permissions := PERM_VFS_CAP_ONLY\<rparr>"
    by (simp add: demo_confined_def set_task_def task_at_def demo_kernel_def upd_task_def booted_fields MAX_TASKS_def)
  then show "confined 0 demo_confined" by (simp add: confined_def PERM_VFS_CAP_ONLY_def)
  have "task_ipc_cap_table (task_at 0 demo_confined) (core demo_confined) = zero_cap_table"
    by (simp add: task_ipc_cap_table_def t ext_index_def booted_fields zero_thread_def demo_confined_def set_task_def demo_kernel_def
        SCHED_MAX_THREADS_def zero_ext_def)
  then show "\<forall>cap\<in>holds 0 demo_confined. rights cap AND IPC_CAP_RIGHT_VFS_WRITE = 0"
    by (auto simp: holds_def zero_cap_table_def zero_cap_def dest!: in_set_takeD)
qed

theorem confined_task_cannot_write_witness:
  "\<exists>k'. sys_unlink (demo_env demo_bridge) (Some ''/f'') demo_confined = Some (Ret 13 Sys_none, k') \<and> files k' = bare_vfs"
proof -
  obtain r k' where u: "sys_unlink (demo_env demo_bridge) (Some ''/f'') demo_confined = Some (r, k')"
    using confined_needs_right[OF demo_confined_facts(2,3)] runs_task(1)[OF demo_confined_facts(1)]
    by (simp add: sys_unlink_def path_call_def safe_strnlen_def VFS_MAX_PATH_def denied_def sret_def)
  have "files demo_confined = bare_vfs" by (simp add: demo_confined_def set_task_def)
  with confined_task_cannot_write[OF demo_confined_facts, of "demo_env demo_bridge", THEN conjunct2, THEN conjunct1,
      THEN spec[of _ "sys_unlink (demo_env demo_bridge)"], THEN spec[of _ "Some ''/f''"], THEN spec[of _ r], THEN spec[of _ k']] u
  show ?thesis by simp
qed

text \<open>
  The confinement does not outlive \<^verbatim>\<open>vfork\<close>. When \<^verbatim>\<open>sys_vfork\<close> of a confined task succeeds, the thread
  that runs next, in the same program, is not confined: it passes the test for every path and every right.
\<close>
theorem vfork_drops_confinement:
  assumes k: "runs c k" and "confined c k" "sys_vfork k = Some (Forked pid, k')"
  shows "\<exists>j. g_current_task (core k') = Some j \<and> tid (task_at j k') = pid \<and> parent (task_at j k') = Some c \<and>
    \<not> confined j k' \<and> (\<forall>p r. task_has_vfs_cap (Some j) p r k')"
proof -
  obtain t s where t: "sched_create_thread ''vfork_child'' 0 0 (priority (task_at c k)) (core k) = Some (t, s)"
    using assms(3) runs_task(1)[OF k] by (auto simp: sys_vfork_def split: bind_splits)
  obtain j where j: "t = Some j" using assms(3) runs_task(1)[OF k] t by (cases t) (auto simp: sys_vfork_def)
  have ok: "heap_inv (kheap (core k))" "length (g_thread_ipc_ext (core k)) = SCHED_MAX_THREADS"
    using k by (simp_all add: runs_def kernel_ok_def ipc_inv_def objects_ok_def)
  have "j < length (g_tasks s) \<and> permissions (g_tasks s ! j) = 0"
    using ok
  proof (cases rule: create_thread_cases[where nm = "''vfork_child''" and ent = 0 and a = 0 and prio = "priority (task_at c k)"])
    case 1
    then show ?thesis using t j by simp
  next
    case (2 i q h)
    then have "i = j" "g_tasks s ! j = (new_thread (g_next_pid (core k)) ''vfork_child'' 0 0 (priority (task_at c k)))\<lparr>stack_base := Some q\<rparr>"
        "length (g_tasks s) = length (g_tasks (core k))"
      using t j by (auto simp: upd_task_def sched_ipc_init_thread_def)
    then show ?thesis using 2(2) by (simp add: new_thread_def zero_thread_def)
  qed (use t in simp)
  then have "permissions (task_at j k') = 0" "g_current_task (core k') = Some j" "parent (task_at j k') = Some c" "tid (task_at j k') = pid"
    using assms(3) runs_task(1)[OF k] t j
    by (auto simp: sys_vfork_def Let_def task_at_def set_task_def upd_task_def nth_list_update)
  then show ?thesis by (simp add: confined_def task_has_vfs_cap_def)
qed

lemma vfork_returns:
  assumes "runs c k" "i < MAX_TASKS" "state (task_at i k) = THREAD_STATE_UNUSED" "malloc_fits SCHED_STACK_SIZE (kheap (core k))"
  shows "\<exists>pid k'. sys_vfork k = Some (Forked pid, k')"
proof -
  have ok: "heap_inv (kheap (core k))" "length (g_thread_ipc_ext (core k)) = SCHED_MAX_THREADS"
    using assms(1) by (simp_all add: runs_def kernel_ok_def ipc_inv_def objects_ok_def)
  have "task_at i k \<in> set (g_tasks (core k))" using assms(2) runs_task(4)[OF assms(1)] by (simp add: task_at_def)
  with assms(3,4) obtain j s where "sched_create_thread ''vfork_child'' 0 0 (priority (task_at c k)) (core k) = Some (Some j, s)"
    by (cases rule: create_thread_cases[OF ok, where nm = "''vfork_child''" and ent = 0 and a = 0 and prio = "priority (task_at c k)"]) auto
  then show ?thesis using runs_task(1)[OF assms(1)] by (simp add: sys_vfork_def Let_def)
qed

theorem vfork_drops_confinement_witness:
  "\<exists>pid k' j. sys_vfork demo_confined = Some (Forked pid, k') \<and> confined 0 demo_confined \<and> g_current_task (core k') = Some j \<and>
    task_has_vfs_cap (Some j) ''/etc/passwd'' IPC_CAP_RIGHT_VFS_WRITE k'"
proof -
  have "state (task_at 1 demo_confined) = THREAD_STATE_UNUSED"
    using booted_fields(6)[of 1] by (simp add: demo_confined_def set_task_def demo_kernel_def task_at_def upd_task_def MAX_TASKS_def zero_thread_def)
  moreover have "kheap (core demo_confined) = heap0"
    by (simp add: demo_confined_def set_task_def demo_kernel_def booted_fields(3))
  ultimately obtain pid k' where f: "sys_vfork demo_confined = Some (Forked pid, k')"
    using vfork_returns[OF demo_confined_facts(1), of 1] by (auto simp: MAX_TASKS_def heap0_fits)
  from vfork_drops_confinement[OF demo_confined_facts(1,2) f] f demo_confined_facts(2) show ?thesis by blast
qed

section \<open>Directory listings\<close>

text \<open>The records that \<^verbatim>\<open>getdents64\<close> stores: one after the other from \<open>start\<close> on, up to \<open>stop\<close>.\<close>
fun tiled :: "nat \<Rightarrow> nat \<Rightarrow> dirent list \<Rightarrow> nat \<Rightarrow> bool" where
  "tiled i start [] stop \<longleftrightarrow> stop = start"
| "tiled i start (d # ds) stop \<longleftrightarrow>
    unat (d_reclen d) mod 8 = 0 \<and> 20 + length (d_name d) \<le> unat (d_reclen d) \<and> unat (d_reclen d) < 28 + length (d_name d) \<and>
    d_off d = start + unat (d_reclen d) \<and> d_ino d = of_nat (Suc i) \<and> tiled (Suc i) (start + unat (d_reclen d)) ds stop"

lemma reclen_bounds:
  assumes "length nm < 64"
  shows "unat (of_nat (reclen nm) :: u16) = reclen nm" "reclen nm mod 8 = 0" "20 + length nm \<le> reclen nm" "reclen nm < 28 + length nm"
proof -
  have "reclen nm < 92" using assms by (simp add: reclen_def)
  then show "unat (of_nat (reclen nm) :: u16) = reclen nm" by (simp add: unat_of_nat)
  show "reclen nm mod 8 = 0" "20 + length nm \<le> reclen nm" "reclen nm < 28 + length nm" unfolding reclen_def by simp_all
qed

lemma fill_dirents_tiled:
  assumes "fill_dirents i es start count = (ds, stop)" "\<forall>e\<in>set es. length (de_name e) < 64" "start \<le> count"
  shows "tiled i start ds stop \<and> stop \<le> count \<and> length ds \<le> length es \<and> map d_name ds = map de_name (take (length ds) es) \<and>
    (length ds < length es \<longrightarrow> count < stop + reclen (de_name (es ! length ds)))"
  using assms
proof (induction i es start count arbitrary: ds rule: fill_dirents.induct)
  case (2 i e es start count)
  let ?r = "reclen (de_name e)"
  note r = reclen_bounds[of "de_name e"]
  show ?case
  proof (cases "start + ?r > count")
    case True
    then show ?thesis using "2.prems" by simp
  next
    case False
    obtain ds' n where f: "fill_dirents (Suc i) es (start + ?r) count = (ds', n)" by fastforce
    have ds: "ds = \<lparr>d_ino = of_nat i + 1, d_off = start + ?r, d_reclen = of_nat ?r, d_type = (if de_type e = VFS_DIRECTORY then 4 else 8),
        d_name = de_name e\<rparr> # ds'" "n = stop" using "2.prems"(1) False f by (auto simp: Let_def)
    have "tiled (Suc i) (start + ?r) ds' n \<and> n \<le> count \<and> length ds' \<le> length es \<and> map d_name ds' = map de_name (take (length ds') es) \<and>
        (length ds' < length es \<longrightarrow> count < n + reclen (de_name (es ! length ds')))"
      using "2.IH"[OF refl False f[unfolded ds(2)]] "2.prems"(2) False ds(2) by simp
    then show ?thesis using ds r "2.prems"(2) by simp
  qed
qed simp

text \<open>
  C40. Listing a directory. For a descriptor that may be read, \<^verbatim>\<open>getdents64\<close> fills the buffer with records that lie one
  after the other, each a multiple of 8 bytes with room for its name, never past the size of the buffer, and stops
  only at the end of the listing or before the first entry that does not fit; its answer is the number of bytes
  filled. It does not advance the descriptor, so the next call lists the same entries again.
\<close>
theorem getdents_fills_buffer:
  assumes "runs c k" "fd_valid c fd k" "task_has_vfs_cap (Some c) (fd_path (fd_at c fd k)) IPC_CAP_RIGHT_VFS_READ k"
    "vfs_readdir (env_bridge env) (fd_path (fd_at c fd k)) (env_dirents env) VFS_DIRENT_MAX (files k) = Some ((int m, es), v)"
    "m \<le> length es" "\<forall>e\<in>set (take m es). length (de_name e) < 64"
  shows "\<exists>ds n. sys_getdents64 env fd True count k = Some (Ret (int n) (Sys_dirents ds), k\<lparr>files := v\<rparr>) \<and>
    tiled 0 0 ds n \<and> n \<le> unat count \<and> length ds \<le> m \<and> map d_name ds = map de_name (take (length ds) es) \<and>
    (length ds < m \<longrightarrow> unat count < n + reclen (de_name (es ! length ds)))"
proof -
  obtain ds n where f: "fill_dirents 0 (take m es) 0 (unat count) = (ds, n)" by fastforce
  have "tiled 0 0 ds n \<and> n \<le> unat count \<and> length ds \<le> m \<and> map d_name ds = map de_name (take (length ds) es) \<and>
      (length ds < m \<longrightarrow> unat count < n + reclen (de_name (es ! length ds)))"
    using fill_dirents_tiled[OF f assms(6)] assms(5) by (auto simp: min_def split: if_splits)
  then show ?thesis using assms runs_task(1)[OF assms(1)] f
    by (simp add: sys_getdents64_def with_fd_def)
qed

text \<open>A kernel whose program has the root directory open.\<close>
definition demo_opened :: "unit kernel" where
  "demo_opened = set_fd 0 3 (\<lambda>e. e\<lparr>valid := True, fd_path := ''/''\<rparr>) (demo_kernel (demo_vfs demo_backend ()))"

lemma demo_opened_facts:
  "runs 0 demo_opened" "fd_valid 0 3 demo_opened" "fd_path (fd_at 0 3 demo_opened) = ''/''" "files demo_opened = demo_vfs demo_backend ()"
  "permissions (task_at 0 demo_opened) = 0"
proof -
  let ?k = "demo_kernel (demo_vfs demo_backend ())"
  have k: "runs 0 ?k" using kernel_reach_ok[OF demo_kernel_reach[of TIMER_ARCH_RV64 demo_bridge]] by (simp add: runs_def demo_kernel_current)
  show "runs 0 demo_opened" unfolding demo_opened_def by (rule runs_set_fd[OF k]) (simp add: fd_ok_def VFS_MAX_PATH_def)
  have "fds 0 demo_opened 3 = Some (''/'', offset (fd_at 0 3 ?k), fd_flags (fd_at 0 3 ?k))"
    using fds_set_fd[OF k, of 3 "\<lambda>e. e\<lparr>valid := True, fd_path := ''/''\<rparr>"] by (simp add: demo_opened_def MAX_FD_def)
  then show "fd_valid 0 3 demo_opened" "fd_path (fd_at 0 3 demo_opened) = ''/''" using fd_valid_fds(1)[of 0 3 demo_opened] fd_valid_fds(3)[of 0 demo_opened 3] by auto
  show "files demo_opened = demo_vfs demo_backend ()" by (simp add: demo_opened_def set_fd_def set_task_def)
  show "permissions (task_at 0 demo_opened) = 0"
    using demo_permissions[of "demo_vfs demo_backend ()"] runs_task(4)[OF k]
    by (simp add: demo_opened_def set_fd_def set_task_def task_at_def upd_task_def MAX_TASKS_def)
qed

theorem getdents_fills_buffer_witness:
  "\<exists>ds k'. sys_getdents64 (demo_env demo_bridge) 3 True 100 demo_opened = Some (Ret 24 (Sys_dirents ds), k') \<and>
    map d_name ds = [''f'']"
proof -
  let ?es = "(replicate 64 (dir_entry []))[0 := \<lparr>de_name = ''f'', de_type = VFS_FILE, de_size = 0\<rparr>]"
  obtain t where t: "norm_path ''/'' = Some t" using norm_path_returns by blast
  have env: "env_dirents (demo_env demo_bridge) = replicate 64 (dir_entry [])" by (simp add: demo_env_def)
  obtain v where v: "vfs_readdir demo_bridge ''/'' (replicate 64 (dir_entry [])) VFS_DIRENT_MAX (demo_vfs demo_backend ()) =
      Some ((int 1, ?es), v)"
    using t demo_lookup[of "demo_vfs demo_backend ()" be_readdir t] by (auto simp: vfs_readdir_def demo_backend_def same_setup_def)
  have one: "take 1 ?es = [\<lparr>de_name = ''f'', de_type = VFS_FILE, de_size = 0\<rparr>]" "1 \<le> length ?es" "?es ! 0 = \<lparr>de_name = ''f'', de_type = VFS_FILE, de_size = 0\<rparr>"
    by (simp_all add: numeral_eq_Suc)
  have cap: "task_has_vfs_cap (Some 0) (fd_path (fd_at 0 3 demo_opened)) IPC_CAP_RIGHT_VFS_READ demo_opened"
    by (simp add: task_has_vfs_cap_def demo_opened_facts)
  obtain ds n where d: "sys_getdents64 (demo_env demo_bridge) 3 True 100 demo_opened = Some (Ret (int n) (Sys_dirents ds), demo_opened\<lparr>files := v\<rparr>)"
      "tiled 0 0 ds n" "length ds \<le> 1" "map d_name ds = map de_name (take (length ds) ?es)" "length ds < 1 \<longrightarrow> 100 < n + reclen (de_name (?es ! length ds))"
    using getdents_fills_buffer[OF demo_opened_facts(1,2) cap, of "demo_env demo_bridge" 1 ?es v 100] v one env demo_opened_facts(3,4)
    by auto
  have "length ds = 1"
  proof (rule ccontr)
    assume "length ds \<noteq> 1"
    then have "ds = []" using d(3) by (cases ds) auto
    then show False using d(2,5) one(3) by (simp add: reclen_def)
  qed
  then obtain x where x: "ds = [x]" by (cases ds) auto
  then have "d_name x = ''f''" using d(4) one(1) by simp
  moreover from this have "n = 24" using d(2) x by auto
  ultimately show ?thesis using d(1) x by auto
qed

end
