(* ===== verification/Sage_ELF_Props.thy ===== *)
theory Sage_ELF_Props
  imports Sage_ELF
begin

text \<open>
  What the ELF loader guarantees. Loading builds exactly the image the program headers describe, inside
  the permitted range, provided that no header has more bytes in the file than in memory; the
  loader does not test this, and then writes outside the range. The initial stack has the layout that
  the start-up code of a program reads.
\<close>

section \<open>Segments\<close>

definition in_segment :: "phdr \<Rightarrow> u64 \<Rightarrow> bool" where
  "in_segment ph a \<longleftrightarrow> a - p_vaddr ph < p_memsz ph"

definition segment_byte :: "u8 list \<Rightarrow> phdr \<Rightarrow> u64 \<Rightarrow> u8" where
  "segment_byte d ph a = (let j = a - p_vaddr ph in if j < p_filesz ph then d ! (unat (p_offset ph) + unat j) else 0)"

text \<open>A loadable header among those with the given indices.\<close>
definition loaded :: "u8 list \<Rightarrow> nat list \<Rightarrow> phdr \<Rightarrow> bool" where
  "loaded d is ph \<longleftrightarrow> (\<exists>i\<in>set is. phdr_at d i = Some ph) \<and> p_type ph = PT_LOAD"

definition sane_segment :: "phdr \<Rightarrow> bool" where
  "sane_segment ph \<longleftrightarrow> p_filesz ph \<le> p_memsz ph \<and> unat (p_vaddr ph) + unat (p_memsz ph) < 2 ^ 64"

lemma loaded_Cons: "loaded d (i # is) ph \<longleftrightarrow> phdr_at d i = Some ph \<and> p_type ph = PT_LOAD \<or> loaded d is ph"
  by (auto simp: loaded_def)

lemma load_segment_at:
  assumes "load_segment kern d ph m = Some m'" "p_filesz ph \<le> p_memsz ph"
  shows "m' a = (if in_segment ph a then segment_byte d ph a else m a)"
proof -
  have "a - p_vaddr ph < p_filesz ph \<Longrightarrow> a - p_vaddr ph < p_memsz ph" using assms(2) by simp
  with assms(1) show ?thesis by (auto simp: load_segment_def Let_def segment_byte_def in_segment_def split: if_splits)
qed

lemma meets_iff: "meets rs a n \<longleftrightarrow> (\<exists>r\<in>set rs. \<exists>x. x - a < n \<and> in_range r x)"
proof -
  have "(n \<noteq> 0 \<and> (in_range r a \<or> snd r \<noteq> 0 \<and> fst r - a < n)) \<longleftrightarrow> (\<exists>x. x - a < n \<and> in_range r x)" for r
  proof
    assume "\<exists>x. x - a < n \<and> in_range r x"
    then obtain x where x: "x - a < n" "x - fst r < snd r" by (auto simp: in_range_def)
    show "n \<noteq> 0 \<and> (in_range r a \<or> snd r \<noteq> 0 \<and> fst r - a < n)"
    proof (cases "x - fst r \<le> x - a")
      case True
      have "fst r - a = (x - a) - (x - fst r)" by simp
      also have "\<dots> \<le> x - a" using True by (rule word_sub_le)
      finally show ?thesis using x by (auto dest: le_less_trans)
    next
      case False
      have "a - fst r = (x - fst r) - (x - a)" by simp
      also have "\<dots> \<le> x - fst r" using False by (intro word_sub_le) simp
      finally show ?thesis using x by (auto simp: in_range_def dest: le_less_trans)
    qed
  next
    assume "n \<noteq> 0 \<and> (in_range r a \<or> snd r \<noteq> 0 \<and> fst r - a < n)"
    then show "\<exists>x. x - a < n \<and> in_range r x"
      by (auto simp: in_range_def word_neq_0_conv intro: exI[of _ a] exI[of _ "fst r"])
  qed
  then show ?thesis unfolding meets_def list_ex_iff by blast
qed

text \<open>Whatever its sizes, a segment that is loaded leaves the kernel alone.\<close>
lemma load_segments_kernel:
  assumes "load_segments kern d is m = Some (ok, m')" "r \<in> set kern" "in_range r a"
  shows "m' a = m a"
  using assms(1)
proof (induction "is" arbitrary: m)
  case (Cons i "is")
  obtain ph where ph: "phdr_at d i = Some ph" using Cons.prems by (cases "phdr_at d i") auto
  have "m1 a = m a" if "load_segment kern d ph m = Some m1" for m1
  proof -
    have "\<not> a - p_vaddr ph < max (p_filesz ph) (p_memsz ph)"
      using that assms(2,3) by (auto simp: load_segment_def meets_iff split: if_splits)
    then show ?thesis using that by (auto simp: load_segment_def Let_def less_max_iff_disj split: if_splits)
  qed
  then show ?case using Cons.prems Cons.IH ph by (fastforce split: if_splits bind_splits)
qed simp

lemma load_segments_frame:
  assumes "load_segments kern d is m = Some (ok, m')" "\<And>ph. loaded d is ph \<Longrightarrow> p_filesz ph \<le> p_memsz ph \<and> \<not> in_segment ph a"
  shows "m' a = m a"
  using assms
proof (induction "is" arbitrary: m)
  case (Cons i "is")
  obtain ph where ph: "phdr_at d i = Some ph" using Cons.prems(1) by (cases "phdr_at d i") auto
  have rest: "\<And>p. loaded d is p \<Longrightarrow> p_filesz p \<le> p_memsz p \<and> \<not> in_segment p a" using Cons.prems(2) by (simp add: loaded_Cons)
  show ?case
  proof (cases "p_type ph = PT_LOAD \<and> segment_allowed ph")
    case True
    then obtain m1 where m1: "load_segment kern d ph m = Some m1" "load_segments kern d is m1 = Some (ok, m')"
      using Cons.prems(1) ph by (cases "load_segment kern d ph m") auto
    have "m1 a = m a" using load_segment_at[OF m1(1)] Cons.prems(2)[of ph] ph True by (simp add: loaded_Cons)
    then show ?thesis using Cons.IH[OF m1(2) rest] by simp
  next
    case False
    then show ?thesis using Cons.prems(1) Cons.IH[OF _ rest] ph by (auto split: if_splits)
  qed
qed simp

lemma load_segments_content:
  assumes "load_segments kern d is m = Some (True, m')" "loaded d is ph" "in_segment ph a"
    "\<And>p. loaded d is p \<Longrightarrow> p_filesz p \<le> p_memsz p" "\<And>p. loaded d is p \<Longrightarrow> in_segment p a \<Longrightarrow> p = ph"
  shows "m' a = segment_byte d ph a \<and> segment_allowed ph"
  using assms
proof (induction "is" arbitrary: m)
  case Nil
  from Nil.prems(2) show ?case by (simp add: loaded_def)
next
  case (Cons i "is")
  obtain p where p:
    "phdr_at d i = Some p" using Cons.prems(1) by (cases "phdr_at d i") auto
  have rest: "\<And>q. loaded d is q \<Longrightarrow> p_filesz q \<le> p_memsz q" "\<And>q. loaded d is q \<Longrightarrow> in_segment q a \<Longrightarrow> q = ph"
    using Cons.prems(4,5) by (simp_all add: loaded_Cons)
  show ?case
  proof (cases "p_type p = PT_LOAD")
    case True
    then obtain m1 where m1: "segment_allowed p" "load_segment kern d p m = Some m1" "load_segments kern d is m1 = Some (True, m')"
      using Cons.prems(1) p by (cases "load_segment kern d p m") (auto split: if_splits)
    show ?thesis
    proof (cases "loaded d is ph")
      case True
      show ?thesis using m1(3) True Cons.prems(3) rest by (rule Cons.IH)
    next
      case False
      then have "p = ph" using Cons.prems(2) p by (auto simp: loaded_Cons)
      have "m' a = m1 a"
        using load_segments_frame[OF m1(3)] rest False by blast
      also have "\<dots> = segment_byte d p a"
        using load_segment_at[OF m1(2), of a] Cons.prems(3,4) p True \<open>p = ph\<close> by (simp add: loaded_Cons)
      finally show ?thesis using m1(1) \<open>p = ph\<close> by simp
    qed
  next
    case False
    then have "load_segments kern d is m = Some (True, m')" "loaded d is ph" using Cons.prems(1,2) p by (auto simp: loaded_Cons)
    then show ?thesis using Cons.prems(3) rest by (rule Cons.IH)
  qed
qed

lemma in_segment_range:
  assumes "in_segment ph a" "segment_allowed ph" "unat (p_vaddr ph) + unat (p_memsz ph) < 2 ^ 64"
  shows "ELF_VADDR_MIN \<le> a \<and> a < ELF_VADDR_MAX"
proof -
  obtain j where aj: "a = p_vaddr ph + j" by (metis add_diff_cancel_left' diff_add_cancel)
  have j: "unat j < unat (p_memsz ph)" using assms(1) by (simp add: aj in_segment_def word_less_nat_alt)
  have a: "unat a = unat (p_vaddr ph) + unat j" using j assms(3) by (simp add: aj unat_word_ariths)
  have e: "unat (p_vaddr ph + p_memsz ph) = unat (p_vaddr ph) + unat (p_memsz ph)" using assms(3) by (simp add: unat_word_ariths)
  show ?thesis using assms(2) a e j unfolding segment_allowed_def word_less_nat_alt word_le_nat_alt by linarith
qed


text \<open>
  A segment outside the permitted range. The range test looks only at the size in memory: a header
  with more bytes in the file than in memory passes it, and all its bytes in the file are copied,
  wherever they end.
\<close>
theorem elf_segment_escapes:
  assumes "segment_allowed ph" "p_type ph = PT_LOAD" "phdr_at d i = Some ph" "j < p_filesz ph"
    "unat (p_offset ph) + unat (p_filesz ph) \<le> length d" "\<not> meets kern (p_vaddr ph) (max (p_filesz ph) (p_memsz ph))"
  shows "\<exists>m'. load_segments kern d [i] m = Some (True, m') \<and> m' (p_vaddr ph + j) = d ! (unat (p_offset ph) + unat j)"
  using assms by (simp add: load_segment_def)

section \<open>The initial stack\<close>

text \<open>The string \<open>x\<close>, with its terminator, at address \<open>p\<close>.\<close>
definition holds_string :: "(nat \<Rightarrow> u8) \<Rightarrow> nat \<Rightarrow> string \<Rightarrow> bool" where
  "holds_string m p x \<longleftrightarrow> (\<forall>j < length x. m (p + j) = of_char (x ! j)) \<and> m (p + length x) = 0"

definition strings_size :: "string list \<Rightarrow> nat" where
  "strings_size xs = sum_list (map (\<lambda>x. length x + 1) xs)"

lemma strings_size_simps [simp]:
  "strings_size [] = 0" "strings_size (x # xs) = length x + 1 + strings_size xs" "strings_size (rev xs) = strings_size xs"
  by (simp_all add: strings_size_def rev_map[symmetric])

lemma holds_string_cong:
  "holds_string m p x \<Longrightarrow> (\<And>a. p \<le> a \<Longrightarrow> a \<le> p + length x \<Longrightarrow> m' a = m a) \<Longrightarrow> holds_string m' p x"
  by (simp add: holds_string_def)

lemma holds_string_store: "holds_string (store p (map of_char x @ [0]) m) p x"
  by (auto simp: holds_string_def store_def nth_append)

lemma push_strings_spec:
  assumes "low + strings_size xs \<le> sp"
  shows "\<exists>m' qs. push_strings low xs sp m ptrs = Some (sp - strings_size xs, m', qs @ ptrs) \<and>
    list_all2 (\<lambda>q x. holds_string m' q x \<and> sp - strings_size xs \<le> q \<and> q + length x < sp) qs (rev xs) \<and>
    (\<forall>a. a < sp - strings_size xs \<or> sp \<le> a \<longrightarrow> m' a = m a)"
  using assms
proof (induction xs arbitrary: sp m ptrs)
  case (Cons x xs)
  let ?sp = "sp - (length x + 1)"
  let ?m = "store ?sp (map of_char x @ [0]) m"
  have sz: "low + strings_size xs \<le> ?sp" "?sp - strings_size xs = sp - strings_size (x # xs)" using Cons.prems by simp_all
  obtain m' qs where ih: "push_strings low xs ?sp ?m (?sp # ptrs) = Some (?sp - strings_size xs, m', qs @ ?sp # ptrs)"
    "list_all2 (\<lambda>q x. holds_string m' q x \<and> ?sp - strings_size xs \<le> q \<and> q + length x < ?sp) qs (rev xs)"
    "\<forall>a. a < ?sp - strings_size xs \<or> ?sp \<le> a \<longrightarrow> m' a = ?m a"
    using Cons.IH[OF sz(1)] by blast
  have "holds_string m' ?sp x"
    using holds_string_store by (rule holds_string_cong) (simp add: ih(3))
  moreover have "list_all2 (\<lambda>q x. holds_string m' q x \<and> ?sp - strings_size xs \<le> q \<and> q + length x < sp) qs (rev xs)"
    using ih(2) by (rule list_all2_mono) auto
  ultimately have "list_all2 (\<lambda>q x. holds_string m' q x \<and> ?sp - strings_size xs \<le> q \<and> q + length x < sp) (qs @ [?sp]) (rev (x # xs))"
    using Cons.prems by (simp add: list_all2_appendI)
  moreover have "push_strings low (x # xs) sp m ptrs = Some (?sp - strings_size xs, m', (qs @ [?sp]) @ ptrs)"
    using Cons.prems ih(1) by (simp add: Let_def)
  moreover have "\<forall>a. a < ?sp - strings_size xs \<or> sp \<le> a \<longrightarrow> m' a = m a"
    using ih(3) Cons.prems by (auto simp: store_def)
  ultimately show ?case unfolding sz(2) by blast
qed simp

lemma store_words_other: "a < p \<or> p + 8 * length vs \<le> a \<Longrightarrow> store_words p vs m a = m a"
proof (induction vs arbitrary: p m)
  case (Cons v vs)
  then show ?case by (subst store_words.simps, subst Cons.IH) (auto simp: store_def)
qed simp

lemma store_words_at: "i < length vs \<Longrightarrow> word_at (store_words p vs m) (p + 8 * i) = vs ! i"
proof (induction vs arbitrary: p m i)
  case (Cons v vs)
  show ?case
  proof (cases i)
    case 0
    have "word_at (store_words (p + 8) vs (store p (bytes64 v) m)) p = word_at (store p (bytes64 v) m) p"
      by (rule word_at_cong) (simp add: store_words_other)
    with 0 show ?thesis by (simp add: word_at_store_same)
  next
    case (Suc k)
    with Cons.IH[of k "p + 8"] Cons.prems show ?thesis by (simp add: add.assoc)
  qed
qed simp

lemma push_words_spec:
  assumes "low + 8 * length vs \<le> sp"
  shows "\<exists>m'. push_words low vs sp m = Some (sp - 8 * length vs, m') \<and>
    (\<forall>i < length vs. word_at m' (sp - 8 * length vs + 8 * i) = vs ! i) \<and>
    (\<forall>a. a < sp - 8 * length vs \<or> sp \<le> a \<longrightarrow> m' a = m a)"
proof (intro exI conjI allI impI)
  let ?p = "sp - 8 * length vs"
  show "push_words low vs sp m = Some (?p, store_words ?p vs m)" using assms by (simp add: push_words_def)
  show "word_at (store_words ?p vs m) (?p + 8 * i) = vs ! i" if "i < length vs" for i using that by (rule store_words_at)
  show "store_words ?p vs m a = m a" if "a < ?p \<or> sp \<le> a" for a using that assms by (intro store_words_other) auto
qed

lemma align_sp_spec:
  assumes "unat hb mod 16 = 0" "low + 8 * (argc + envc + 3) + 23 \<le> sp"
  shows "align_sp hb argc envc sp \<le> sp" "sp \<le> align_sp hb argc envc sp + 23"
    "(align_sp hb argc envc sp - 8 * (argc + envc + 3)) mod 16 = 0"
proof -
  have "unat ((hb + of_nat sp) AND 15) = unat ((hb + of_nat sp) mod 16)"
  proof -
    have "(hb + of_nat sp) AND 15 = take_bit 4 (hb + of_nat sp)" by (simp add: take_bit_eq_mask mask_eq_exp_minus_1)
    then show ?thesis by (simp add: take_bit_eq_mod)
  qed
  also have "\<dots> = (unat hb + sp) mod 16"
  proof -
    have "unat (hb + of_nat sp) mod 16 = (unat hb + sp mod 2 ^ 64) mod 2 ^ 64 mod 16" by (simp add: unat_word_ariths unat_of_nat)
    also have "\<dots> = (unat hb + sp mod 2 ^ 64) mod 16" by (rule mod_mod_cancel) simp
    also have "\<dots> = (unat hb + sp mod 2 ^ 64 mod 16) mod 16" by (rule mod_add_right_eq[symmetric])
    also have "sp mod 2 ^ 64 mod 16 = sp mod 16" by (rule mod_mod_cancel) simp
    finally show ?thesis by (simp add: unat_mod mod_add_right_eq)
  qed
  also have "\<dots> = sp mod 16" using mod_add_left_eq[of "unat hb" 16 sp] assms(1) by simp
  finally have u: "unat ((hb + of_nat sp) AND 15) = sp mod 16" .
  define q where "q = sp div 16"
  have q: "sp - sp mod 16 = 16 * q" by (simp add: q_def minus_mod_eq_mult_div)
  have "sp mod 16 < 16" by simp
  then have b: "16 * q \<le> sp" "sp < 16 * q + 16" using q by linarith+
  have al: "align_sp hb argc envc sp = (if (8 + (argc + 1) * 8 + (envc + 1) * 8) mod 16 \<noteq> 0 then 16 * q - 8 else 16 * q)"
    by (simp add: align_sp_def Let_def u q)
  show "align_sp hb argc envc sp \<le> sp" "sp \<le> align_sp hb argc envc sp + 23" using b by (auto simp: al)
  define n where "n = argc + envc + 3"
  have al': "align_sp hb argc envc sp = (if 8 * n mod 16 \<noteq> 0 then 16 * q - 8 else 16 * q)" by (simp add: al n_def algebra_simps)
  have "(align_sp hb argc envc sp - 8 * n) mod 16 = 0"
  proof (cases "even n")
    case True
    then obtain m where "n = 2 * m" by (rule evenE)
    then have "align_sp hb argc envc sp - 8 * n = 16 * (q - m)" by (simp add: al')
    then show ?thesis by simp
  next
    case False
    then obtain m where "n = 2 * m + 1" by (rule oddE)
    then have "align_sp hb argc envc sp - 8 * n = 16 * (q - (m + 1))" by (simp add: al')
    then show ?thesis by simp
  qed
  then show "(align_sp hb argc envc sp - 8 * (argc + envc + 3)) mod 16 = 0" by (simp add: n_def)
qed

lemma strings_kept:
  assumes "list_all2 (\<lambda>q x. holds_string m q x \<and> B q x) ps xs"
    "\<And>q x a. B q x \<Longrightarrow> q \<le> a \<Longrightarrow> a \<le> q + length x \<Longrightarrow> m' a = m a" "\<And>q x. B q x \<Longrightarrow> C q x"
  shows "list_all2 (\<lambda>q x. holds_string m' q x \<and> C q x) ps xs"
  using assms(1)
proof (rule list_all2_mono)
  fix q x
  assume "holds_string m q x \<and> B q x"
  then show "holds_string m' q x \<and> C q x" using holds_string_cong[of m q x m'] assms(2)[of q x] assms(3)[of q x] by blast
qed

text \<open>A null-terminated array of addresses at \<open>a\<close>, of the strings \<open>xs\<close> at \<open>ps\<close>.\<close>
definition vector_at :: "u64 \<Rightarrow> (nat \<Rightarrow> u8) \<Rightarrow> nat \<Rightarrow> nat list \<Rightarrow> string list \<Rightarrow> bool" where
  "vector_at hb m a ps xs \<longleftrightarrow> list_all2 (holds_string m) ps xs \<and>
    (\<forall>i \<le> length xs. word_at m (a + 8 * i) = (map (\<lambda>p. hb + of_nat p) ps @ [0]) ! i)"

lemma vector_at_above:
  assumes "vector_at hb m a ps xs" "\<And>x. b \<le> x \<Longrightarrow> m' x = m x" "b \<le> a" "\<forall>p\<in>set ps. b \<le> p"
  shows "vector_at hb m' a ps xs"
proof -
  have str: "list_all2 (holds_string m) ps xs" using assms(1) by (simp add: vector_at_def)
  have "holds_string m' (ps ! i) (xs ! i)" if "i < length ps" for i
  proof (rule holds_string_cong)
    show "holds_string m (ps ! i) (xs ! i)" using str that by (rule list_all2_nthD)
    show "m' y = m y" if "ps ! i \<le> y" for y using assms(2)[of y] assms(4) \<open>i < length ps\<close> that nth_mem[of i ps] by (meson le_trans)
  qed
  then have "list_all2 (holds_string m') ps xs" using str by (simp add: list_all2_conv_all_nth)
  moreover have
    "word_at m' (a + 8 * i) = word_at m (a + 8 * i)" for i
    by (rule word_at_cong) (use assms(3) in \<open>auto intro!: assms(2)\<close>)
  ultimately show ?thesis using assms(1) by (simp add: vector_at_def)
qed

lemma push_vector:
  assumes "list_all2 (\<lambda>q x. holds_string m q x \<and> sp \<le> q \<and> B q x) ps xs" "low + 8 * (length xs + 1) \<le> sp"
  shows "\<exists>m'. push_words low (map (\<lambda>p. hb + of_nat p) ps @ [0]) sp m = Some (sp - 8 * (length xs + 1), m') \<and>
    vector_at hb m' (sp - 8 * (length xs + 1)) ps xs \<and> (\<forall>a. a < sp - 8 * (length xs + 1) \<or> sp \<le> a \<longrightarrow> m' a = m a)"
proof -
  let ?vs = "map (\<lambda>p. hb + of_nat p) ps @ [0]"
  have len: "length ps = length xs" using assms(1) by (rule list_all2_lengthD)
  obtain m' where m': "push_words low ?vs sp m = Some (sp - 8 * (length xs + 1), m')"
    "\<forall>i < length xs + 1. word_at m' (sp - 8 * (length xs + 1) + 8 * i) = ?vs ! i"
    "\<forall>a. a < sp - 8 * (length xs + 1) \<or> sp \<le> a \<longrightarrow> m' a = m a"
    using push_words_spec[of low ?vs sp m] assms(2) len by auto
  have "list_all2 (\<lambda>q x. holds_string m' q x \<and> True) ps xs"
    by (rule strings_kept[OF assms(1)]) (use m'(3) in auto)
  then have "vector_at hb m' (sp - 8 * (length xs + 1)) ps xs" using m'(2) by (simp add: vector_at_def less_Suc_eq_le)
  with m'(1,3) show ?thesis by blast
qed

lemma push_all_strings:
  assumes "low + strings_size argv + strings_size envp \<le> high" "sp = high - strings_size envp - strings_size argv"
  shows "\<exists>sp1 m1 m2 envs args. push_strings low (rev envp) high m [] = Some (sp1, m1, envs) \<and>
    push_strings low (rev argv) sp1 m1 [] = Some (sp, m2, args) \<and>
    list_all2 (\<lambda>q x. holds_string m2 q x \<and> sp \<le> q) envs envp \<and> list_all2 (\<lambda>q x. holds_string m2 q x \<and> sp \<le> q) args argv \<and>
    (\<forall>a. a < sp \<or> high \<le> a \<longrightarrow> m2 a = m a)"
proof -
  define sp1 where "sp1 = high - strings_size envp"
  have n: "low + strings_size (rev envp) \<le> high" "low + strings_size (rev argv) \<le> sp1" "sp \<le> sp1" "sp1 \<le> high" and sp: "sp1 - strings_size argv = sp"
    using assms by (auto simp: sp1_def)
  obtain m1 envs where p1: "push_strings low (rev envp) high m [] = Some (sp1, m1, envs)"
    "list_all2 (\<lambda>q x. holds_string m1 q x \<and> sp1 \<le> q \<and> q + length x < high) envs envp"
    "\<forall>a. a < sp1 \<or> high \<le> a \<longrightarrow> m1 a = m a"
    using push_strings_spec[OF n(1), of m "[]"] by (auto simp: sp1_def)
  obtain m2 args where p2: "push_strings low (rev argv) sp1 m1 [] = Some (sp, m2, args)"
    "list_all2 (\<lambda>q x. holds_string m2 q x \<and> sp \<le> q \<and> q + length x < sp1) args argv"
    "\<forall>a. a < sp \<or> sp1 \<le> a \<longrightarrow> m2 a = m1 a"
    using push_strings_spec[OF n(2), of m1 "[]"] by (auto simp: sp)
  have "list_all2 (\<lambda>q x. holds_string m2 q x \<and> sp \<le> q) envs envp"
    by (rule strings_kept[OF p1(2)]) (use n p2(3) in auto)
  moreover have "list_all2 (\<lambda>q x. holds_string m2 q x \<and> sp \<le> q) args argv"
    using p2(2) by (rule list_all2_mono) simp
  moreover have "m2 a = m a" if "a < sp \<or> high \<le> a" for a
    using that n(3,4) p1(3)[rule_format, of a] p2(3)[rule_format, of a] by fastforce
  ultimately show ?thesis using p1(1) p2(1) by blast
qed

lemma push_all_vectors:
  assumes "list_all2 (\<lambda>q x. holds_string m q x \<and> sp \<le> q) envs envp" "list_all2 (\<lambda>q x. holds_string m q x \<and> sp \<le> q) args argv"
    "low + 8 * (length argv + length envp + 3) \<le> sp" "sp' = sp - 8 * (length argv + length envp + 3)"
  shows "\<exists>sp4 m4 sp5 m5 m6. push_words low (map (\<lambda>p. hb + of_nat p) envs @ [0]) sp m = Some (sp4, m4) \<and>
    push_words low (map (\<lambda>p. hb + of_nat p) args @ [0]) sp4 m4 = Some (sp5, m5) \<and>
    push_words low [of_nat (length argv)] sp5 m5 = Some (sp', m6) \<and>
    word_at m6 sp' = of_nat (length argv) \<and> vector_at hb m6 (sp' + 8) args argv \<and>
    vector_at hb m6 (sp' + 8 + 8 * (length argv + 1)) envs envp \<and> (\<forall>a. a < sp' \<or> sp \<le> a \<longrightarrow> m6 a = m a)"
proof -
  let ?A = "length argv" and ?E = "length envp"
  define sp4 where "sp4 = sp - 8 * (?E + 1)"
  define sp5 where "sp5 = sp4 - 8 * (?A + 1)"
  have q: "low + 8 * (?E + 1) \<le> sp" "low + 8 * (?A + 1) \<le> sp4" "low + 8 \<le> sp5" "sp5 \<le> sp4" "sp4 \<le> sp"
    "sp5 - 8 = sp'" "sp' + 8 = sp5" "sp5 + 8 * (?A + 1) = sp4"
    using assms(3,4) by (auto simp: sp4_def sp5_def)
  obtain m4 where p4: "push_words low (map (\<lambda>p. hb + of_nat p) envs @ [0]) sp m = Some (sp4, m4)" "vector_at hb m4 sp4 envs envp"
    "\<forall>a. a < sp4 \<or> sp \<le> a \<longrightarrow> m4 a = m a"
    using push_vector[of m sp "\<lambda>_ _. True" envs envp low hb] assms(1) q(1) unfolding sp4_def by auto
  have "list_all2 (\<lambda>q x. holds_string m4 q x \<and> sp4 \<le> q \<and> True) args argv"
    by (rule strings_kept[OF assms(2)]) (use q p4(3) in auto)
  from push_vector[OF this q(2), of hb, folded sp5_def] obtain m5 where p5:
    "push_words low (map (\<lambda>p. hb + of_nat p) args @ [0]) sp4 m4 = Some (sp5, m5)" "vector_at hb m5 sp5 args argv"
    "\<forall>a. a < sp5 \<or> sp4 \<le> a \<longrightarrow> m5 a = m4 a" by blast
  obtain m6 where p6: "push_words low [of_nat ?A] sp5 m5 = Some (sp', m6)" "word_at m6 sp' = of_nat ?A"
    "\<forall>a. a < sp' \<or> sp5 \<le> a \<longrightarrow> m6 a = m5 a" using push_words_spec[of low "[of_nat ?A]" sp5 m5] q(3,6) by auto
  have above: "sp \<le> x" if "x \<in> set envs \<or> x \<in> set args" for x
    using that assms(1,2) by (auto simp: list_all2_conv_all_nth in_set_conv_nth)
  have "vector_at hb m6 sp5 args argv" by (rule vector_at_above[OF p5(2), of sp5]) (use p6(3) above q in fastforce)+
  moreover have "vector_at hb m6 sp4 envs envp"
    by (rule vector_at_above[OF p4(2), of sp4]) (use p6(3) p5(3) above q in fastforce)+
  moreover have "m6 a = m a" if "a < sp' \<or> sp \<le> a" for a
  proof -
    have "a < sp5 \<or> sp4 \<le> a" "a < sp4 \<or> sp \<le> a" "a < sp' \<or> sp5 \<le> a" using that q by linarith+
    then show ?thesis using p6(3)[rule_format, of a] p5(3)[rule_format, of a] p4(3)[rule_format, of a] by argo
  qed
  ultimately show ?thesis using p4(1) p5(1) p6(1,2) q(7,8) by auto
qed

text \<open>
  C20. The arguments of a program. If the strings and the vectors fit, the stack is built: its pointer is a
  multiple of 16, the word there is the number of arguments, followed by the null-terminated array
  of addresses of the arguments and that of the environment, each address being that of the string
  with its terminator; nothing outside the stack's block changes.
\<close>
theorem elf_stack_layout:
  assumes "unat hb mod 16 = 0" "low + strings_size argv + strings_size envp + 8 * (length argv + length envp + 3) + 23 \<le> high"
  shows "\<exists>sp m' args envs. build_stack hb argv envp low high m = Some (sp, m') \<and>
    low \<le> sp \<and> sp < high \<and> (unat hb + sp) mod 16 = 0 \<and> word_at m' sp = of_nat (length argv) \<and>
    vector_at hb m' (sp + 8) args argv \<and> vector_at hb m' (sp + 8 + 8 * (length argv + 1)) envs envp \<and>
    (\<forall>a. a < low \<or> high \<le> a \<longrightarrow> m' a = m a)"
proof -
  let ?n = "8 * (length argv + length envp + 3)"
  define sp2 where "sp2 = high - strings_size envp - strings_size argv"
  have n: "low + ?n + 23 \<le> sp2" "low + strings_size argv + strings_size envp \<le> high" "sp2 \<le> high" using assms(2) by (auto simp: sp2_def)
  obtain sp1 m1 m2 envs args where p2: "push_strings low (rev envp) high m [] = Some (sp1, m1, envs)"
    "push_strings low (rev argv) sp1 m1 [] = Some (sp2, m2, args)"
    "list_all2 (\<lambda>q x. holds_string m2 q x \<and> sp2 \<le> q) envs envp" "list_all2 (\<lambda>q x. holds_string m2 q x \<and> sp2 \<le> q) args argv"
    "\<forall>a. a < sp2 \<or> high \<le> a \<longrightarrow> m2 a = m a"
    using push_all_strings[OF n(2) sp2_def, of m] by blast
  define sp3 where "sp3 = align_sp hb (length argv) (length envp) sp2"
  note al = align_sp_spec[OF assms(1) n(1), folded sp3_def]
  have b: "low + ?n \<le> sp3" "sp3 \<le> sp2" using al(1,2) n(1) by linarith+
  have "list_all2 (\<lambda>q x. holds_string m2 q x \<and> sp3 \<le> q) envs envp" "list_all2 (\<lambda>q x. holds_string m2 q x \<and> sp3 \<le> q) args argv"
    using p2(3,4) b(2) by (auto elim!: list_all2_mono)
  from push_all_vectors[OF this b(1) refl, of hb] obtain sp4 m4 sp5 m5 m6 where p6:
    "push_words low (map (\<lambda>p. hb + of_nat p) envs @ [0]) sp3 m2 = Some (sp4, m4)"
    "push_words low (map (\<lambda>p. hb + of_nat p) args @ [0]) sp4 m4 = Some (sp5, m5)"
    "push_words low [of_nat (length argv)] sp5 m5 = Some (sp3 - ?n, m6)" "word_at m6 (sp3 - ?n) = of_nat (length argv)"
    "vector_at hb m6 (sp3 - ?n + 8) args argv" "vector_at hb m6 (sp3 - ?n + 8 + 8 * (length argv + 1)) envs envp"
    "\<forall>a. a < sp3 - ?n \<or> sp3 \<le> a \<longrightarrow> m6 a = m2 a" by blast
  have "build_stack hb argv envp low high m = Some (sp3 - ?n, m6)"
    using p2(1,2) p6(1-3) by (simp add: build_stack_def Let_def sp3_def)
  moreover have "(unat hb + (sp3 - ?n)) mod 16 = 0" using al(3) assms(1) by presburger
  moreover have "m6 a = m a" if "a < low \<or> high \<le> a" for a
  proof -
    have "a < sp3 - ?n \<or> sp3 \<le> a" "a < sp2 \<or> high \<le> a" using that b n by linarith+
    then show ?thesis using p6(7)[rule_format, of a] p2(5)[rule_format, of a] by argo
  qed
  moreover have "sp3 - ?n < sp3" using b(1) by simp
  then have "low \<le> sp3 - ?n" "sp3 - ?n < high" using b n by linarith+
  ultimately show ?thesis using p6(4-6)
    by (intro exI[of _ "sp3 - ?n"] exI[of _ m6] exI[of _ args] exI[of _ envs] conjI allI impI) assumption+
qed

section \<open>A small program\<close>

text \<open>The ranges of a kernel loaded at 1 MiB, with its heap.\<close>
definition demo_ranges :: "range list" where
  "demo_ranges = [(0x100000, 0x4000000), (0x2000000, 0x2000000)]"

text \<open>One loadable segment of two bytes in the file and four in memory, above the kernel.\<close>
definition demo_elf :: "u8 list" where
  "demo_elf = [0x7F, 0x45, 0x4C, 0x46, 2, 1] @ replicate 10 0 @ [2, 0, 62, 0] @ replicate 4 0 @
    bytes64 0x8000000 @ bytes64 64 @ replicate 16 0 @ [1, 0] @ replicate 6 0 @
    [1, 0, 0, 0, 0, 0, 0, 0] @ bytes64 120 @ bytes64 0x8000000 @ bytes64 0 @ bytes64 2 @ bytes64 4 @ bytes64 0 @ [0xAB, 0xCD]"

definition demo_phdr :: phdr where
  "demo_phdr = \<lparr>p_type = 1, p_offset = 120, p_vaddr = 0x8000000, p_filesz = 2, p_memsz = 4\<rparr>"

lemma demo_phdr_at: "phdr_at demo_elf 0 = Some demo_phdr"
  by code_simp

lemma demo_loaded: "loaded demo_elf [0] ph \<longleftrightarrow> ph = demo_phdr"
  using demo_phdr_at by (auto simp: loaded_def demo_phdr_def PT_LOAD_def)


text \<open>The same file with its segment just below the upper bound and two bytes in the file, none in memory.\<close>
definition demo_escape :: "u8 list" where
  "demo_escape = take 80 demo_elf @ bytes64 0xFEFFFFFF @ bytes64 0 @ bytes64 2 @ bytes64 1 @ bytes64 0 @ [0xAB, 0xCD]"

theorem elf_segment_escapes_witness:
  "\<exists>m'. load_segments demo_ranges demo_escape [0] (\<lambda>_. 1) = Some (True, m') \<and> m' ELF_VADDR_MAX = 0xCD"
proof -
  let ?ph = "\<lparr>p_type = 1, p_offset = 120, p_vaddr = 0xFEFFFFFF, p_filesz = 2, p_memsz = 1\<rparr>"
  have "phdr_at demo_escape 0 = Some ?ph" "segment_allowed ?ph" "length demo_escape = 122" "demo_escape ! 121 = 0xCD" by (code_simp)+
  moreover have "\<not> meets demo_ranges 0xFEFFFFFF 2" by (simp add: demo_ranges_def meets_def in_range_def)
  ultimately show ?thesis using elf_segment_escapes[of ?ph demo_escape 0 1 demo_ranges "\<lambda>_. 1"] by (simp add: PT_LOAD_def ELF_VADDR_MAX_def)
qed

theorem elf_stack_layout_witness:
  "\<exists>sp m' args envs. build_stack 0x4000 [''sh'', ''-c''] [''A=1''] 16 65552 (\<lambda>_. 0) = Some (sp, m') \<and>
    word_at m' sp = 2 \<and> vector_at 0x4000 m' (sp + 8) args [''sh'', ''-c''] \<and> vector_at 0x4000 m' (sp + 8 + 8 * 3) envs [''A=1'']"
proof -
  have "unat (0x4000 :: u64) mod 16 = 0" "16 + strings_size [''sh'', ''-c''] + strings_size [''A=1''] +
      8 * (length [''sh'', ''-c''] + length [''A=1''] + 3) + 23 \<le> 65552" by simp_all
  from elf_stack_layout[OF this, of "\<lambda>_. 0"] obtain sp m' args envs where
    "build_stack 0x4000 [''sh'', ''-c''] [''A=1''] 16 65552 (\<lambda>_. 0) = Some (sp, m')"
    "word_at m' sp = of_nat (length [''sh'', ''-c''])" "vector_at 0x4000 m' (sp + 8) args [''sh'', ''-c'']"
    "vector_at 0x4000 m' (sp + 8 + 8 * (length [''sh'', ''-c''] + 1)) envs [''A=1'']" by blast
  moreover have "of_nat (length [''sh'', ''-c'']) = (2 :: u64)" "length [''sh'', ''-c''] + 1 = 3" by simp_all
  ultimately show ?thesis by (intro exI[of _ sp] exI[of _ m'] exI[of _ args] exI[of _ envs]) (simp only: HOL.simp_thms)
qed

end
