(* ===== verification/Sage_Process.thy ===== *)
theory Sage_Process
  imports Sage_Syscall_Props Sage_ELF_Props
begin

text \<open>
  The life of a child process: \<^verbatim>\<open>vfork\<close>, the program that the child loads over the one of its parent, its end,
  and what the parent finds afterwards. A live block of the heap is shown to survive the loading of a
  program and the stores of the program outside the kernel, so that the copy of the parent's image is
  still there when the child exits. Nothing in the code keeps a program from storing in the kernel,
  with which it shares the address space: a program is a list of stores, and one in the kernel that is not
  to the program's own stack is \<open>None\<close>.
\<close>

section \<open>Live blocks\<close>

text \<open>The live block with the payload at \<open>q\<close>, unchanged.\<close>
definition block_kept :: "nat \<Rightarrow> heap \<Rightarrow> heap \<Rightarrow> bool" where
  "block_kept q h h' \<longleftrightarrow> ALLOC_HEADER_SIZE \<le> q \<and> (\<exists>v t. headers h (q - ALLOC_HEADER_SIZE) = Some (v, t) \<and>
    headers h' (q - ALLOC_HEADER_SIZE) = Some (v, t) \<and> (\<forall>i<unat v. bytes h' (q + i) = bytes h (q + i)))"

lemma block_kept_trans: "block_kept q h h' \<Longrightarrow> block_kept q h' h'' \<Longrightarrow> block_kept q h h''"
  by (auto simp: block_kept_def)

lemma block_kept_live: "block_kept q h h' \<Longrightarrow> block_kept q h' h'"
  by (auto simp: block_kept_def)

lemma block_kept_emitted [simp]: "block_kept q h (h'\<lparr>emitted := es\<rparr>) = block_kept q h h'"
  by (simp add: block_kept_def)

lemma malloc_keeps_block:
  assumes "heap_inv h" "block_kept q h h" "sage_malloc_tagged n tag h = Some (p, h')"
  shows "block_kept q h h'"
    "\<And>a. p = Some a \<Longrightarrow> a \<noteq> q \<and> block_kept a h' h' \<and> (\<exists>u t. headers h' (a - ALLOC_HEADER_SIZE) = Some (u, t) \<and>
      (unat n + 31 < 2 ^ 64 \<longrightarrow> unat n \<le> unat u))"
proof -
  obtain v t where b: "ALLOC_HEADER_SIZE \<le> q" "headers h (q - ALLOC_HEADER_SIZE) = Some (v, t)"
    using assms(2) by (auto simp: block_kept_def)
  have some: "block_kept q h h' \<and> a \<noteq> q \<and> block_kept a h' h' \<and> (\<exists>u t. headers h' (a - ALLOC_HEADER_SIZE) = Some (u, t) \<and>
      (unat n + 31 < 2 ^ 64 \<longrightarrow> unat n \<le> unat u))" if p: "p = Some a" for a
  proof -
    have m: "sage_malloc_tagged n tag h = Some (Some a, h')" using assms(3) p by simp
    obtain hd where hd: "a = hd + ALLOC_HEADER_SIZE" "headers h hd = None"
      using malloc_granted[OF assms(1) m] by (auto simp: granted_def)
    from malloc_block_facts[OF assms(1) m] obtain u where u: "headers h' (a - ALLOC_HEADER_SIZE) = Some (u, tag)"
        "unat n + 31 < 2 ^ 64 \<longrightarrow> unat n \<le> unat u"
        "\<And>k v t. headers h k = Some (v, t) \<Longrightarrow> headers h' k = Some (v, t) \<and>
          (\<forall>i<unat v. bytes h' (k + ALLOC_HEADER_SIZE + i) = bytes h (k + ALLOC_HEADER_SIZE + i))" by blast
    have "a \<noteq> q" using hd b by auto
    moreover have "block_kept q h h'" using u(3)[OF b(2)] b by (auto simp: block_kept_def)
    moreover have "block_kept a h' h'" using u(1) hd(1) by (auto simp: block_kept_def)
    ultimately show ?thesis using u(1,2) by blast
  qed
  show "block_kept q h h'"
  proof (cases p)
    case None
    have "h' = h" using malloc_Some(2)[OF assms(1,3)] None by simp
    then show ?thesis using assms(2) by simp
  qed (use some in blast)
  show "\<And>a. p = Some a \<Longrightarrow> a \<noteq> q \<and> block_kept a h' h' \<and> (\<exists>u t. headers h' (a - ALLOC_HEADER_SIZE) = Some (u, t) \<and>
      (unat n + 31 < 2 ^ 64 \<longrightarrow> unat n \<le> unat u))" using some by blast
qed

lemma free_keeps_block:
  assumes "heap_inv h" "block_kept q h h" "sage_free (Some p) h = Some h'" "p \<noteq> q"
  shows "block_kept q h h'"
proof -
  obtain sz t where f: "ALLOC_HEADER_SIZE \<le> p" "headers h' = (headers h)(p - ALLOC_HEADER_SIZE := None)" "bytes h' = bytes h"
    using sage_free_Some[OF assms(1,3)] by metis
  have "p - ALLOC_HEADER_SIZE \<noteq> q - ALLOC_HEADER_SIZE" using assms(2,4) f(1) by (auto simp: block_kept_def)
  then show ?thesis using assms(2) f(2,3) by (auto simp: block_kept_def)
qed

lemma kmalloc_keeps_block:
  assumes "ipc_inv s" "block_kept q (kheap s) (kheap s)" "kmalloc n tag s = Some (p, s')"
  shows "block_kept q (kheap s) (kheap s')" "\<And>a. p = Some a \<Longrightarrow> a \<noteq> q \<and> block_kept a (kheap s') (kheap s')"
proof -
  obtain h where h: "sage_malloc_tagged n tag (kheap s) = Some (p, h)" "s' = set_heap h s" using assms(3) by (auto simp: kmalloc_def)
  note m = malloc_keeps_block[OF ipc_inv_kheap[OF assms(1)] assms(2) h(1)]
  show "block_kept q (kheap s) (kheap s')" using m(1) by (simp add: h(2))
  show "a \<noteq> q \<and> block_kept a (kheap s') (kheap s')" if "p = Some a" for a
    using m(2)[OF that] by (simp add: h(2) block_kept_def)
qed

lemma kfree_keeps_block:
  assumes "ipc_inv s" "block_kept q (kheap s) (kheap s)" "kfree (Some p) s = Some s'" "p \<noteq> q"
  shows "block_kept q (kheap s) (kheap s')"
  using free_keeps_block[OF ipc_inv_kheap[OF assms(1)] assms(2) _ assms(4)] assms(3) by (auto simp: kfree_def)

section \<open>The stack of a program\<close>

lemma push_strings_frame: "push_strings low xs sp m ptrs = Some (sp', m', ps) \<Longrightarrow> a < low \<or> sp \<le> a \<Longrightarrow> m' a = m a \<and> sp' \<le> sp"
proof (induction xs arbitrary: sp m ptrs)
  case (Cons x xs)
  let ?sp = "sp - (length x + 1)"
  have "\<not> sp < low + length x + 1" "push_strings low xs ?sp (store ?sp (map of_char x @ [0]) m) (?sp # ptrs) = Some (sp', m', ps)"
    using Cons.prems(1) by (auto simp: Let_def split: if_splits)
  moreover have "a < low \<or> ?sp \<le> a" using Cons.prems(2) by auto
  moreover have "store ?sp (map of_char x @ [0]) m a = m a" using Cons.prems(2) calculation(1) by (auto simp: store_def)
  ultimately show ?case using Cons.IH[of ?sp] by fastforce
qed simp

lemma push_words_frame: "push_words low vs sp m = Some (sp', m') \<Longrightarrow> a < low \<or> sp \<le> a \<Longrightarrow>
    m' a = m a \<and> low \<le> sp' \<and> sp' + 8 * length vs = sp"
  using store_words_other[of a "sp - 8 * length vs" vs m] by (auto simp: push_words_def split: if_splits)

lemma build_stack_frame:
  assumes "build_stack hb argv envp low high m = Some (sp, m')" "a < low \<or> high \<le> a"
  shows "m' a = m a \<and> low \<le> sp \<and> sp < high"
proof -
  obtain sp1 m1 envs sp2 m2 args sp4 m4 sp5 m5 where
    p: "push_strings low (rev envp) high m [] = Some (sp1, m1, envs)" "push_strings low (rev argv) sp1 m1 [] = Some (sp2, m2, args)"
    "push_words low (map (\<lambda>p. hb + of_nat p) envs @ [0]) (align_sp hb (length argv) (length envp) sp2) m2 = Some (sp4, m4)"
    "push_words low (map (\<lambda>p. hb + of_nat p) args @ [0]) sp4 m4 = Some (sp5, m5)"
    "push_words low [of_nat (length argv)] sp5 m5 = Some (sp, m')"
    using assms(1) by (auto simp: build_stack_def Let_def split: bind_splits)
  have al: "align_sp hb (length argv) (length envp) sp2 \<le> sp2" by (auto simp: align_sp_def Let_def)
  have 1: "m1 a = m a" "sp1 \<le> high" using push_strings_frame[OF p(1) assms(2)] by auto
  have "a < low \<or> sp1 \<le> a" using assms(2) 1 by auto
  then have 2: "m2 a = m1 a" "sp2 \<le> sp1" using push_strings_frame[OF p(2)] by auto
  have "a < low \<or> align_sp hb (length argv) (length envp) sp2 \<le> a" using assms(2) 1 2 al by auto
  then have 4: "m4 a = m2 a" "sp4 \<le> align_sp hb (length argv) (length envp) sp2" using push_words_frame[OF p(3), of a] by auto
  have "a < low \<or> sp4 \<le> a" using assms(2) 1 2 4 al by auto
  then have 5: "m5 a = m4 a" "sp5 \<le> sp4" using push_words_frame[OF p(4), of a] by auto
  have "a < low \<or> sp5 \<le> a" using assms(2) 1 2 4 5 al by auto
  then show ?thesis using push_words_frame[OF p(5), of a] 1 2 4 5 al by auto
qed

lemma kmalloc_apart:
  assumes "ipc_inv s" "block_kept q (kheap s) h" "kmalloc n tag s = Some (Some a, s')" "unat n + 31 < 2 ^ 64"
    "headers (kheap s) (q - ALLOC_HEADER_SIZE) = Some (v, t)" "i < unat v"
  shows "q + i < a \<or> a + unat n \<le> q + i"
proof -
  obtain h' where h: "sage_malloc_tagged n tag (kheap s) = Some (Some a, h')" using assms(3) by (auto simp: kmalloc_def)
  have q: "q = q - ALLOC_HEADER_SIZE + ALLOC_HEADER_SIZE" using assms(2) by (simp add: block_kept_def)
  from malloc_block_facts[OF ipc_inv_kheap[OF assms(1)] h] obtain u :: u64 where u: "unat n + 31 < 2 ^ 64 \<longrightarrow> unat n \<le> unat u"
      "\<forall>h v t. headers (kheap s) h = Some (v, t) \<longrightarrow> headers h' h = Some (v, t) \<and>
        (a + unat u \<le> h \<or> h + ALLOC_HEADER_SIZE + unat v \<le> a - ALLOC_HEADER_SIZE) \<and>
        (\<forall>i<unat v. bytes h' (h + ALLOC_HEADER_SIZE + i) = bytes (kheap s) (h + ALLOC_HEADER_SIZE + i))" by blast
  have "a + unat u \<le> q - ALLOC_HEADER_SIZE \<or> q - ALLOC_HEADER_SIZE + ALLOC_HEADER_SIZE + unat v \<le> a - ALLOC_HEADER_SIZE"
    using u(2)[rule_format, OF assms(5)] by blast
  then show ?thesis using assms(4,6) u(1) q by linarith
qed

text \<open>Loading a program keeps every live block.\<close>
lemma elf_exec_keeps_block:
  assumes "ipc_inv s" "block_kept q (kheap s) (kheap s)" "elf_exec arch hb kern d argv envp s m = Some (r, s', m')"
  shows "block_kept q (kheap s) (kheap s')"
proof -
  consider "s' = s"
    | a s1 e s2 st s3 where "kmalloc (of_nat ((length argv + 1) * 8)) ALLOC_TAG_KERNEL s = Some (a, s1)"
        "kmalloc (of_nat ((length envp + 1) * 8)) ALLOC_TAG_KERNEL s1 = Some (e, s2)" "kmalloc 65536 ALLOC_TAG_KERNEL s2 = Some (st, s3)"
        "s' = s3 \<or> (\<exists>low sp bs s5 ap ep. st = Some low \<and> a = Some ap \<and> e = Some ep \<and>
          build_stack hb argv envp low (low + 65536) (bytes (kheap s3)) = Some (sp, bs) \<and>
          kfree e (s3\<lparr>kheap := (kheap s3)\<lparr>bytes := bs\<rparr>\<rparr>) = Some s5 \<and> kfree a s5 = Some s')"
    using assms(3) by (fastforce simp: elf_exec_def sage_alloc_ptrs_def Let_def split: if_splits bind_splits option.splits)
  then show ?thesis
  proof cases
    case (2 a s1 e s2 st s3)
    note b1 = kmalloc_keeps_block[OF assms(1,2) 2(1)] and i1 = ipc_inv_kmalloc[OF assms(1) 2(1)]
    note b2 = kmalloc_keeps_block[OF i1 block_kept_live[OF b1(1)] 2(2)] and i2 = ipc_inv_kmalloc[OF i1 2(2)]
    note b3 = kmalloc_keeps_block[OF i2 block_kept_live[OF b2(1)] 2(3)] and i3 = ipc_inv_kmalloc[OF i2 2(3)]
    have k2: "block_kept q (kheap s) (kheap s2)" using block_kept_trans[OF b1(1) b2(1)] .
    have k3: "block_kept q (kheap s) (kheap s3)" using block_kept_trans[OF k2 b3(1)] .
    show ?thesis using 2(4)
    proof (elim disjE exE conjE)
      fix low sp bs s5 ap ep
      assume r: "st = Some low" "a = Some ap" "e = Some ep" "build_stack hb argv envp low (low + 65536) (bytes (kheap s3)) = Some (sp, bs)"
        "kfree e (s3\<lparr>kheap := (kheap s3)\<lparr>bytes := bs\<rparr>\<rparr>) = Some s5" "kfree a s5 = Some s'"
      define s4 where "s4 = s3\<lparr>kheap := (kheap s3)\<lparr>bytes := bs\<rparr>\<rparr>"
      have "bs (q + i) = bytes (kheap s3) (q + i)" if "headers (kheap s2) (q - ALLOC_HEADER_SIZE) = Some (v, t)" "i < unat v" for v t i
        using build_stack_frame[OF r(4)] kmalloc_apart[OF i2 block_kept_live[OF k2] 2(3)[unfolded r(1)] _ that] by simp
      then have k4: "block_kept q (kheap s) (kheap s4)" using k2 k3 by (auto simp: block_kept_def s4_def)
      have i4: "ipc_inv s4" using i3 by (simp add: s4_def)
      have f5: "kfree (Some ep) s4 = Some s5" and f6: "kfree (Some ap) s5 = Some s'" using r by (simp_all add: s4_def)
      have k5: "block_kept q (kheap s) (kheap s5)"
        using block_kept_trans[OF k4 kfree_keeps_block[OF i4 block_kept_live[OF k4] f5]] b2(2)[OF r(3)] by simp
      then show ?thesis
        using block_kept_trans[OF k5 kfree_keeps_block[OF ipc_inv_kfree[OF i4 f5] block_kept_live[OF k5] f6]] b1(2)[OF r(2)] by simp
    qed (use k3 in simp)
  qed (use assms(2) in simp)
qed

text \<open>The program starts with its stack pointer in a block of its own.\<close>
lemma elf_exec_stack:
  assumes "ipc_inv s" "block_kept q (kheap s) (kheap s)" "headers (kheap s) (q - ALLOC_HEADER_SIZE) = Some (v, t)"
    "elf_exec arch hb kern d argv envp s m = Some (Exec_jump sp ent, s', m')"
  shows "\<not> (q \<le> unat (sp - hb) \<and> unat (sp - hb) < q + unat v)"
proof -
  obtain a s1 e s2 low s3 n bs where x: "kmalloc (of_nat ((length argv + 1) * 8)) ALLOC_TAG_KERNEL s = Some (a, s1)"
      "kmalloc (of_nat ((length envp + 1) * 8)) ALLOC_TAG_KERNEL s1 = Some (e, s2)" "kmalloc 65536 ALLOC_TAG_KERNEL s2 = Some (Some low, s3)"
      "build_stack hb argv envp low (low + 65536) (bytes (kheap s3)) = Some (n, bs)" "sp = hb + of_nat n"
    using assms(4) by (fastforce simp: elf_exec_def sage_alloc_ptrs_def Let_def split: if_splits bind_splits option.splits)
  note i1 = ipc_inv_kmalloc[OF assms(1) x(1)] and b1 = kmalloc_keeps_block(1)[OF assms(1,2) x(1)]
  note i2 = ipc_inv_kmalloc[OF i1 x(2)] and b2 = kmalloc_keeps_block(1)[OF i1 block_kept_live[OF b1] x(2)]
  have h2: "headers (kheap s2) (q - ALLOC_HEADER_SIZE) = Some (v, t)" using assms(3) b1 b2 by (auto simp: block_kept_def)
  have n: "low \<le> n" "n < low + 65536" using build_stack_frame[OF x(4), of "low + 65536"] by auto
  obtain h' where "sage_malloc_tagged 65536 ALLOC_TAG_KERNEL (kheap s2) = Some (Some low, h')" using x(3) by (auto simp: kmalloc_def)
  from malloc_block_facts[OF ipc_inv_kheap[OF i2] this] have "low + 65536 \<le> SAGE_ARENA_SIZE" by auto
  then have "unat (sp - hb) = n" using n by (simp add: x(5) unat_of_nat SAGE_ARENA_SIZE_def)
  moreover have "\<not> (q \<le> n \<and> n < q + unat v)"
  proof
    assume q: "q \<le> n \<and> n < q + unat v"
    then have "n - q < unat v" by linarith
    from kmalloc_apart[OF i2 block_kept_live[OF b2] x(3) _ h2 this] n q show False by auto
  qed
  ultimately show ?thesis by simp
qed

section \<open>Stores of a program\<close>

text \<open>The live block of the heap that holds the stack pointer.\<close>
definition stack_block :: "'w sys_env \<Rightarrow> u64 \<Rightarrow> nat \<Rightarrow> 'w kernel \<Rightarrow> bool" where
  "stack_block env sp b k \<longleftrightarrow> ALLOC_HEADER_SIZE \<le> b \<and> b \<le> unat (sp - env_heap env) \<and>
    unat (sp - env_heap env) < b + unat (block_room (kheap (core k)) b)"

text \<open>A store of the byte \<open>x\<close> at the address \<open>a\<close>, by a program with its stack in the block \<open>b\<close>.\<close>
definition program_store :: "'w sys_env \<Rightarrow> nat \<Rightarrow> u64 \<Rightarrow> u8 \<Rightarrow> 'w kernel \<Rightarrow> 'w kernel option" where
  "program_store env b a x k =
    (let i = unat (a - env_heap env) in
     if b \<le> i \<and> i < b + unat (block_room (kheap (core k)) b)
     then Some (k\<lparr>core := (core k)\<lparr>kheap := (kheap (core k))\<lparr>bytes := (bytes (kheap (core k)))(i := x)\<rparr>\<rparr>\<rparr>)
     else if list_ex (\<lambda>r. in_range r a) (kernel_ranges env) then None
     else Some (k\<lparr>umem := (umem k)(a := x)\<rparr>))"

fun program_stores :: "'w sys_env \<Rightarrow> nat \<Rightarrow> (u64 \<times> u8) list \<Rightarrow> 'w kernel \<Rightarrow> 'w kernel option" where
  "program_stores env b [] k = Some k"
| "program_stores env b ((a, x) # ws) k = program_store env b a x k \<bind> program_stores env b ws"

lemma program_stores_frame:
  assumes "program_stores env b ws k = Some k'"
  obtains bs m where "k' = k\<lparr>core := (core k)\<lparr>kheap := (kheap (core k))\<lparr>bytes := bs\<rparr>\<rparr>, umem := m\<rparr>"
    "\<And>i. \<not> (b \<le> i \<and> i < b + unat (block_room (kheap (core k)) b)) \<Longrightarrow> bs i = bytes (kheap (core k)) i"
proof -
  have "\<exists>bs m. k' = k\<lparr>core := (core k)\<lparr>kheap := (kheap (core k))\<lparr>bytes := bs\<rparr>\<rparr>, umem := m\<rparr> \<and>
      (\<forall>i. \<not> (b \<le> i \<and> i < b + unat (block_room (kheap (core k)) b)) \<longrightarrow> bs i = bytes (kheap (core k)) i)"
    using assms
  proof (induction ws arbitrary: k)
    case Nil
    then show ?case by (intro exI[of _ "bytes (kheap (core k))"] exI[of _ "umem k"]) simp
  next
    case (Cons w ws)
    obtain a x where w: "w = (a, x)" by fastforce
    obtain u where u: "program_store env b a x k = Some u" "program_stores env b ws u = Some k'"
      using Cons.prems by (auto simp: w split: bind_splits)
    let ?i = "unat (a - env_heap env)" and ?bs = "bytes (kheap (core k))"
    define own where "own \<longleftrightarrow> b \<le> ?i \<and> ?i < b + unat (block_room (kheap (core k)) b)"
    have s: "u = k\<lparr>core := (core k)\<lparr>kheap := (kheap (core k))\<lparr>bytes := if own then ?bs(?i := x) else ?bs\<rparr>\<rparr>,
        umem := if own then umem k else (umem k)(a := x)\<rparr>"
      using u(1) by (auto simp: program_store_def Let_def own_def split: if_splits)
    show ?case using Cons.IH[OF u(2)] by (fastforce simp: s block_room_def own_def)
  qed
  then show thesis using that by blast
qed

section \<open>The parent's image\<close>

lemma heap_frames:
  "kmalloc n tag s = Some (p, s') \<Longrightarrow> g_tasks s' = g_tasks s \<and> g_current_task s' = g_current_task s"
  "kfree q s = Some s' \<Longrightarrow> g_tasks s' = g_tasks s \<and> g_current_task s' = g_current_task s"
  by (auto simp: kmalloc_def kfree_def)

lemma elf_exec_frame:
  "elf_exec arch hb kern d argv envp s m = Some (r, s', m') \<Longrightarrow> g_tasks s' = g_tasks s \<and> g_current_task s' = g_current_task s"
  by (auto simp: elf_exec_def sage_alloc_ptrs_def Let_def split: if_splits bind_splits option.splits dest!: heap_frames)

lemma nth_upd_task: "i < length (g_tasks s) \<Longrightarrow> g_tasks (upd_task j f s) ! i = (if i = j then f (g_tasks s ! i) else g_tasks s ! i)"
  by (simp add: upd_task_def nth_list_update)

text \<open>The memory of the parent is in a live block.\<close>
definition image_saved :: "nat \<Rightarrow> nat \<Rightarrow> memory \<Rightarrow> 'w kernel \<Rightarrow> bool" where
  "image_saved p q m k \<longleftrightarrow> (\<exists>v t. ALLOC_HEADER_SIZE \<le> q \<and> headers (kheap (core k)) (q - ALLOC_HEADER_SIZE) = Some (v, t) \<and>
    elf_size (task_at p k) \<le> v \<and> saved_elf_data (task_at p k) = Some q \<and>
    (\<forall>i<unat (elf_size (task_at p k)). bytes (kheap (core k)) (q + i) = m (elf_base (task_at p k) + of_nat i)))"

lemma save_parent_saves:
  assumes "kernel_ok k" "parent (task_at c k) = Some p" "p < MAX_TASKS" "elf_size (task_at p k) \<noteq> 0" "saved_elf_data (task_at p k) = None"
    "save_parent env c k = Some k'" "saved_elf_data (task_at p k') = Some q"
  shows "image_saved p q (umem k) k' \<and> task_at p k' = (task_at p k)\<lparr>saved_elf_data := Some q\<rparr> \<and> umem k' = umem k \<and>
    g_current_task (core k') = g_current_task (core k) \<and> parent (task_at c k') = parent (task_at c k)"
proof -
  let ?n = "elf_size (task_at p k)" and ?b = "elf_base (task_at p k)"
  have len: "length (g_tasks (core k)) = MAX_TASKS" using assms(1) by (simp add: kernel_ok_def ipc_inv_def running_def)
  obtain r s where s: "kmalloc ?n ALLOC_TAG_KERNEL (core k) = Some (r, s)"
    using assms(2,4,5,6) by (auto simp: save_parent_def word_neq_0_conv split: bind_splits)
  note fr = heap_frames(1)[OF s]
  show ?thesis
  proof (cases r)
    case None
    then have "saved_elf_data (task_at p k') = None"
      using assms(2-6) s fr len by (auto simp: save_parent_def word_neq_0_conv set_task_def task_at_def nth_upd_task)
    then show ?thesis using assms(7) by simp
  next
    case (Some a)
    let ?bs = "\<lambda>i. if a \<le> i \<and> i < a + unat ?n then umem k (?b + of_nat (i - a)) else bytes (kheap s) i"
    have k': "\<not> block_room (kheap s) a < ?n" "k' = set_task p (saved_elf_data_update (\<lambda>_. Some a)) (k\<lparr>core := s\<lparr>kheap := (kheap s)\<lparr>bytes := ?bs\<rparr>\<rparr>\<rparr>)"
      using assms(2,4,5,6) s Some by (auto simp: save_parent_def word_neq_0_conv split: if_splits)
    from k'(2) have t: "task_at p k' = (task_at p k)\<lparr>saved_elf_data := Some a\<rparr>" "parent (task_at c k') = parent (task_at c k)"
      using fr assms(3) len by (auto simp: set_task_def task_at_def upd_task_def nth_list_update nth_update_if)
    obtain h where h: "sage_malloc_tagged ?n ALLOC_TAG_KERNEL (kheap (core k)) = Some (Some a, h)" "s = set_heap h (core k)"
      using s Some by (auto simp: kmalloc_def)
    have inv: "heap_inv (kheap (core k))" using assms(1) by (simp add: kernel_ok_def ipc_inv_kheap)
    obtain hd where hd: "a = hd + ALLOC_HEADER_SIZE" using malloc_granted[OF inv h(1)] by (auto simp: granted_def)
    obtain u t where u: "headers h (a - ALLOC_HEADER_SIZE) = Some (u, t)" "?n \<le> u"
      using malloc_block_facts[OF inv h(1)] k'(1) h(2) by (auto simp: block_room_def)
    have "image_saved p a (umem k) k'" unfolding image_saved_def
      using t(1) u hd h(2) by (auto simp: k'(2) set_task_def)
    then show ?thesis using t assms(7) fr by (simp add: k'(2) set_task_def)
  qed
qed

lemma exec_keeps_image:
  assumes "runs c k" "parent (task_at c k) = Some p" "p \<noteq> c" "elf_size (task_at p k) \<noteq> 0" "saved_elf_data (task_at p k) = None"
    "exec_image env b file argv envp k = Some (Jump sp ent, k')"
    "saved_elf_data (task_at p k') = Some q"
  shows "image_saved p q (umem k) k' \<and> task_at p k' = (task_at p k)\<lparr>saved_elf_data := Some q\<rparr> \<and> runs c k' \<and>
    parent (task_at c k') = Some p \<and>
    \<not> (q \<le> unat (sp - env_heap env) \<and> unat (sp - env_heap env) < q + unat (block_room (kheap (core k')) q))"
proof -
  have p: "p < MAX_TASKS" using runs_task(5)[OF assms(1)] assms(2) by (simp add: proc_ok_def)
  obtain k1 k2 s m where ex: "save_parent env c k = Some k1" "record_span c file k1 = Some k2"
      "elf_exec (env_arch env) (env_heap env) (kernel_ranges env) file argv envp (core k2) (umem k2) = Some (Exec_jump sp ent, s, m)"
      "k' = k2\<lparr>core := s, umem := m\<rparr>"
    using assms(6) runs_task(1)[OF assms(1)] by (auto simp: exec_image_def Let_def split: bind_splits exec_result.splits)
  have k1: "kernel_ok k1" using kernel_ok_save_parent[OF _ ex(1)] assms(1) by (simp add: runs_def)
  have len: "length (g_tasks (core k1)) = MAX_TASKS" using k1 by (simp add: kernel_ok_def ipc_inv_def running_def)
  obtain f where k2: "k2 = set_task c f k1" "\<And>t. parent (f t) = parent t"
  proof -
    obtain lo hi where "k2 = set_task c (\<lambda>t. t\<lparr>elf_base := lo, elf_size := hi - lo, heap_base := (hi + 4095) AND NOT 4095,
        heap_end := (hi + 4095) AND NOT 4095, heap_limit := ((hi + 4095) AND NOT 4095) + 64 * 1024 * 1024\<rparr>) k1"
      using ex(2) by (auto simp: record_span_def Let_def split: if_splits bind_splits)
    then show thesis by (rule that) simp
  qed
  have t2: "task_at p k2 = task_at p k1" "kheap (core k2) = kheap (core k1)" "g_current_task (core k2) = g_current_task (core k1)"
      "parent (task_at c k2) = parent (task_at c k1)"
    using p assms(3) len runs_task(2)[OF assms(1)] k2(2) by (simp_all add: k2(1) set_task_def task_at_def nth_upd_task)
  have t': "task_at i k' = task_at i k2" "g_current_task (core k') = g_current_task (core k2)" "kheap (core k') = kheap s" for i
    using elf_exec_frame[OF ex(3)] by (simp_all add: ex(4) task_at_def)
  have "saved_elf_data (task_at p k1) = Some q" using assms(7) t' t2 by simp
  from save_parent_saves[OF _ assms(2) p assms(4,5) ex(1) this] assms(1)
  have im: "image_saved p q (umem k) k1" "task_at p k1 = (task_at p k)\<lparr>saved_elf_data := Some q\<rparr>"
      "g_current_task (core k1) = g_current_task (core k)" "parent (task_at c k1) = parent (task_at c k)" by (auto simp: runs_def)
  have ok2: "ipc_inv (core k2)" using kernel_ok_record_span[OF k1 ex(2)] by (simp add: kernel_ok_def)
  have "block_kept q (kheap (core k2)) (kheap (core k2))" using im(1) t2 by (auto simp: image_saved_def block_kept_def)
  note live = this
  from elf_exec_keeps_block[OF ok2 live ex(3)] have kept: "block_kept q (kheap (core k1)) (kheap (core k'))" using t2 t' by simp
  have "\<not> (q \<le> unat (sp - env_heap env) \<and> unat (sp - env_heap env) < q + unat (block_room (kheap (core k')) q))"
    using elf_exec_stack[OF ok2 live _ ex(3)] kept t2(2) by (auto simp: block_kept_def block_room_def)
  moreover from kept have "image_saved p q (umem k) k'" using im(1) t'(1)[of p] t2(1)
    by (auto simp: image_saved_def block_kept_def word_le_nat_alt)
  moreover have "kernel_ok k'" using kernel_ok_exec_image[OF _ assms(6)] assms(1) by (simp add: runs_def)
  ultimately show ?thesis using im t' t2 assms(1,2) by (simp add: runs_def)
qed

lemma program_keeps_image:
  assumes "image_saved p q m k \<and> runs c k" "stack_block env sp b k"
    "\<not> (q \<le> unat (sp - env_heap env) \<and> unat (sp - env_heap env) < q + unat (block_room (kheap (core k)) q))"
    "program_stores env b ws k = Some k'"
  shows "image_saved p q m k' \<and> runs c k' \<and> g_tasks (core k') = g_tasks (core k)"
proof -
  obtain bs m' where k': "k' = k\<lparr>core := (core k)\<lparr>kheap := (kheap (core k))\<lparr>bytes := bs\<rparr>\<rparr>, umem := m'\<rparr>"
    "\<And>i. \<not> (b \<le> i \<and> i < b + unat (block_room (kheap (core k)) b)) \<Longrightarrow> bs i = bytes (kheap (core k)) i"
    by (rule program_stores_frame[OF assms(4)]) (rule that)
  obtain v t where v: "ALLOC_HEADER_SIZE \<le> q" "headers (kheap (core k)) (q - ALLOC_HEADER_SIZE) = Some (v, t)"
      "elf_size (task_at p k) \<le> v" using assms(1) by (auto simp: image_saved_def)
  obtain w t' where w: "ALLOC_HEADER_SIZE \<le> b" "headers (kheap (core k)) (b - ALLOC_HEADER_SIZE) = Some (w, t')"
    using assms(2) by (auto simp: stack_block_def block_room_def split: option.splits)
  have "b \<noteq> q" using assms(2,3) by (auto simp: stack_block_def)
  then have "b - ALLOC_HEADER_SIZE \<noteq> q - ALLOC_HEADER_SIZE" using v(1) w(1) by auto
  from live_regions_disjoint[OF _ w(2) v(2) this] assms(1)
  have d: "b + unat w \<le> q - ALLOC_HEADER_SIZE \<or> q + unat v \<le> b - ALLOC_HEADER_SIZE"
    using v(1) w(1) by (auto simp: runs_def kernel_ok_def ipc_inv_kheap)
  have "bs (q + i) = bytes (kheap (core k)) (q + i)" if "i < unat (elf_size (task_at p k))" for i
  proof (rule k'(2))
    have "unat (block_room (kheap (core k)) b) = unat w" "i < unat v"
      using w(2) that v(3) by (auto simp: block_room_def word_le_nat_alt)
    then show "\<not> (b \<le> q + i \<and> q + i < b + unat (block_room (kheap (core k)) b))" using d by linarith
  qed
  then have "image_saved p q m k'" using assms(1) by (auto simp: image_saved_def k'(1) task_at_def)
  moreover have "runs c k'" using assms(1) by (simp add: runs_def kernel_ok_def k'(1))
  ultimately show ?thesis by (simp add: k'(1))
qed

text \<open>
  C6. A child cannot destroy the memory of its parent by loading a program. When a child of \<^verbatim>\<open>vfork\<close> executes a
  program and the copy of the parent's image could be allocated, then whatever bytes the new program stores
  (\<open>ws\<close>) on its stack and outside the kernel, the child's \<^verbatim>\<open>exit\<close> puts every byte of the parent's image back
  to what it was before the call, and changes nothing else in the memory of programs. The code does not
  keep a program from storing in the kernel, and then nothing is guaranteed.
\<close>
theorem parent_image_survives_exec:
  assumes "runs c k" "parent (task_at c k) = Some p" "p \<noteq> c" "elf_size (task_at p k) \<noteq> 0" "saved_elf_data (task_at p k) = None"
    "exec_image env b file argv envp k = Some (Jump sp ent, k1)" "saved_elf_data (task_at p k1) \<noteq> None"
    "stack_block env sp st k1" "program_stores env st ws k1 = Some k1'" "sys_exit env code k1' = Some (r, k2)"
  shows "umem k2 a = (if a - elf_base (task_at p k) < elf_size (task_at p k) then umem k a else umem k1' a)"
proof -
  obtain q where q: "saved_elf_data (task_at p k1) = Some q" using assms(7) by auto
  note ex = exec_keeps_image[OF assms(1-6) q]
  note ps = program_keeps_image[OF _ assms(8) _ assms(9), of p q "umem k" c]
  have run: "runs c k1'" and im: "image_saved p q (umem k) k1'" and tk: "g_tasks (core k1') = g_tasks (core k1)"
    using ps ex by auto
  have p: "p < MAX_TASKS" using runs_task(5)[OF assms(1)] assms(2) by (simp add: proc_ok_def)
  let ?k' = "set_task c (exit_code_update (\<lambda>_. code)) k1'"
  have t: "task_at p ?k' = task_at p k1" "parent (task_at c ?k') = Some p" "kheap (core ?k') = kheap (core k1')" "umem ?k' = umem k1'"
    using p assms(3) ex tk runs_task(2,4)[OF run] by (simp_all add: set_task_def task_at_def nth_upd_task)
  have "Some (umem k2) = restore_image env (task_at p k1) q (bytes (kheap (core k1'))) (umem k1')"
    using assms(10) runs_task(1)[OF run] t q
    by (auto simp: sys_exit_def restore_parent_def set_task_def Let_def split: bind_splits)
  moreover have "bytes (kheap (core k1')) (q + unat j) = umem k (elf_base (task_at p k) + j)" if "j < elf_size (task_at p k)" for j
    using im ex that tk by (auto simp: image_saved_def word_less_nat_alt task_at_def)
  ultimately show ?thesis using ex by (auto simp: restore_image_def Let_def split: if_splits)
qed

section \<open>A parent and a child\<close>

lemma kmalloc_bump:
  assumes "g_free_list (kheap s) = []" "sage_bump (kheap s) = b" "ALIGN (n + of_nat ALLOC_HEADER_SIZE) = of_nat need" "n \<noteq> 0"
    "b + need \<le> SAGE_ARENA_SIZE" "16 \<le> need" "q = b + 16" "b' = b + need" "w = of_nat (need - 16)"
  obtains s' where "kmalloc n tag s = Some (Some q, s')" "g_free_list (kheap s') = []" "sage_bump (kheap s') = b'"
    "headers (kheap s') = (headers (kheap s))(b \<mapsto> (w, tag))"
proof -
  have "unat (of_nat need :: u64) = need" "\<not> of_nat b + (of_nat need :: u64) > of_nat SAGE_ARENA_SIZE"
    using assms(5) by (simp_all add: SAGE_ARENA_SIZE_def word_less_nat_alt unat_word_ariths unat_of_nat)
  then show ?thesis using assms that by (simp add: kmalloc_def sage_malloc_tagged_def Let_def ALLOC_HEADER_SIZE_def)
qed

lemma kfree_defined: "headers (kheap s) q = Some u \<Longrightarrow> a = q + 16 \<Longrightarrow> \<exists>s'. kfree (Some a) s = Some s' \<and>
    headers (kheap s') = (headers (kheap s))(q := None)"
  by (cases u) (simp add: kfree_def sage_free_def Let_def ALLOC_HEADER_SIZE_def)

lemma build_empty_stack: "\<exists>sp m'. build_stack hb [] [] low (low + 65536) m = Some (sp, m')"
proof -
  have "unat ((hb + of_nat (low + 65536)) AND (15 :: u64)) \<le> 15"
    using word_and_le1[of "hb + of_nat (low + 65536)" "15 :: u64"] by (simp add: word_le_nat_alt)
  then have "low + 64 \<le> align_sp hb 0 0 (low + 65536)" unfolding align_sp_def Let_def by simp
  then have "\<not> align_sp hb 0 0 (low + 65536) < low + 8" "\<not> align_sp hb 0 0 (low + 65536) - 8 < low + 8"
      "\<not> align_sp hb 0 0 (low + 65536) - 16 < low + 8" by linarith+
  then show ?thesis by (simp add: build_stack_def push_words_def Let_def)
qed

lemma demo_elf_valid: "elf_validate TIMER_ARCH_X86 demo_elf" "e_phnum demo_elf = 1" "length demo_elf = 122"
  by (code_simp)+

lemma demo_elf_loads: "\<exists>m'. load_segments demo_ranges demo_elf [0] m = Some (True, m')"
  using demo_phdr_at by (simp add: load_segment_def demo_phdr_def PT_LOAD_def demo_elf_valid(3) segment_allowed_def ELF_VADDR_MIN_def ELF_VADDR_MAX_def
      demo_ranges_def meets_def in_range_def)

lemma demo_exec:
  assumes "g_free_list (kheap s) = []" "sage_bump (kheap s) = b" "b + 70000 \<le> SAGE_ARENA_SIZE" "b mod 16 = 0"
  shows "\<exists>sp ent s' m'. elf_exec TIMER_ARCH_X86 hb demo_ranges demo_elf [] [] s m = Some (Exec_jump sp ent, s', m') \<and>
    b + 80 \<le> unat (sp - hb) \<and> unat (sp - hb) < b + 80 + 65536 \<and> headers (kheap s') (b + 64) = Some (65536, ALLOC_TAG_KERNEL)"
proof -
  have al: "ALIGN (8 + of_nat ALLOC_HEADER_SIZE) = of_nat 32" "ALIGN (65536 + of_nat ALLOC_HEADER_SIZE) = of_nat 65552"
    by (simp_all add: ALIGN_def ALLOC_HEADER_SIZE_def ALIGNMENT_def)
  obtain s1 where s1: "kmalloc 8 ALLOC_TAG_KERNEL s = Some (Some (b + 16), s1)" "g_free_list (kheap s1) = []" "sage_bump (kheap s1) = b + 32"
      "headers (kheap s1) = (headers (kheap s))(b \<mapsto> (16, ALLOC_TAG_KERNEL))"
    by (rule kmalloc_bump[OF assms(1,2) al(1), where q = "b + 16" and b' = "b + 32" and w = 16 and tag = ALLOC_TAG_KERNEL]) (use assms(3) in auto)
  obtain s2 where s2: "kmalloc 8 ALLOC_TAG_KERNEL s1 = Some (Some (b + 48), s2)" "g_free_list (kheap s2) = []" "sage_bump (kheap s2) = b + 64"
      "headers (kheap s2) = (headers (kheap s1))(b + 32 \<mapsto> (16, ALLOC_TAG_KERNEL))"
    by (rule kmalloc_bump[OF s1(2,3) al(1), where q = "b + 48" and b' = "b + 64" and w = 16 and tag = ALLOC_TAG_KERNEL]) (use assms(3) in auto)
  obtain s3 where s3: "kmalloc 65536 ALLOC_TAG_KERNEL s2 = Some (Some (b + 80), s3)"
      "headers (kheap s3) = (headers (kheap s2))(b + 64 \<mapsto> (65536, ALLOC_TAG_KERNEL))"
    by (rule kmalloc_bump[OF s2(2,3) al(2), where q = "b + 80" and b' = "b + 65616" and w = 65536 and tag = ALLOC_TAG_KERNEL]) (use assms(3) in auto)
  obtain sp bs where st: "build_stack hb [] [] (b + 80) (b + 80 + 65536) (bytes (kheap s3)) = Some (sp, bs)"
    using build_empty_stack by blast
  have sp: "b + 80 \<le> sp" "sp < b + 80 + 65536" "unat (of_nat sp :: u64) = sp"
    using build_stack_frame[OF st, of 0] assms(3) by (auto simp: SAGE_ARENA_SIZE_def unat_of_nat)
  define s4 where "s4 = s3\<lparr>kheap := (kheap s3)\<lparr>bytes := bs\<rparr>\<rparr>"
  obtain s5 where s5: "kfree (Some (b + 48)) s4 = Some s5" "headers (kheap s5) = (headers (kheap s4))(b + 32 := None)"
    using kfree_defined[of s4 "b + 32" _ "b + 48"] s2(4) s3(2) by (auto simp: s4_def)
  obtain s6 where s6: "kfree (Some (b + 16)) s5 = Some s6" "headers (kheap s6) = (headers (kheap s5))(b := None)"
    using kfree_defined[of s5 b _ "b + 16"] s1(4) s2(4) s3(2) s5(2) by (auto simp: s4_def)
  obtain m' where "load_segments demo_ranges demo_elf [0] m = Some (True, m')" using demo_elf_loads by blast
  moreover have "headers (kheap s6) (b + 64) = Some (65536, ALLOC_TAG_KERNEL)" using s3(2) s5(2) s6(2) by (simp add: s4_def)
  ultimately show ?thesis using s1(1) s2(1) s3(1) st s5(1) s6(1) demo_elf_valid sp
    by (simp add: elf_exec_def sage_alloc_ptrs_def Let_def s4_def)
qed

text \<open>The thread of the kernel with a program of four bytes, and a child that runs.\<close>
definition demo_family :: "unit kernel" where
  "demo_family = (let k = set_task 1 (\<lambda>t. t\<lparr>parent := Some 0, state := THREAD_STATE_RUNNING\<rparr>)
     (set_task 0 (\<lambda>t. t\<lparr>elf_base := 0x8000000, elf_size := 4\<rparr>) (demo_kernel bare_vfs))
   in k\<lparr>core := (core k)\<lparr>g_current_task := Some 1\<rparr>\<rparr>)"

definition x86_env :: "unit sys_env" where
  "x86_env = (demo_env demo_bridge)\<lparr>env_arch := TIMER_ARCH_X86\<rparr>"

lemma x86_env_fields: "env_arch x86_env = TIMER_ARCH_X86" "kernel_ranges x86_env = demo_ranges" "env_heap x86_env = 0x2000000"
  by (simp_all add: x86_env_def demo_env_def kernel_ranges_def demo_ranges_def SAGE_ARENA_SIZE_def)

lemma demo_family_runs: "runs 1 demo_family"
proof -
  have "kernel_ok (set_task 0 (\<lambda>t. t\<lparr>elf_base := 0x8000000, elf_size := 4\<rparr>) (demo_kernel bare_vfs))"
    by (rule kernel_ok_set_task[OF kernel_reach_ok[OF demo_kernel_reach[of TIMER_ARCH_X86 demo_bridge]]]) (simp add: proc_ok_def)
  then have "kernel_ok (set_task 1 (\<lambda>t. t\<lparr>parent := Some 0, state := THREAD_STATE_RUNNING\<rparr>)
      (set_task 0 (\<lambda>t. t\<lparr>elf_base := 0x8000000, elf_size := 4\<rparr>) (demo_kernel bare_vfs)))"
    by (rule kernel_ok_set_task) (simp add: proc_ok_def MAX_TASKS_def)
  then show ?thesis using kernel_ok_switch[of _ 1] by (simp add: runs_def demo_family_def Let_def MAX_TASKS_def)
qed

lemma demo_family_tasks:
  "task_at 1 demo_family = zero_thread\<lparr>parent := Some 0, state := THREAD_STATE_RUNNING\<rparr>"
  "task_at 0 demo_family = zero_thread\<lparr>state := THREAD_STATE_RUNNING, name := ''idle'', cwd := ''/'', elf_base := 0x8000000, elf_size := 4\<rparr>"
  "umem demo_family = (\<lambda>_. 0)" "kheap (core demo_family) = heap0"
  using booted_fields(6)[of 1]
  by (simp_all add: demo_family_def Let_def set_task_def task_at_def demo_kernel_def nth_upd_task booted_fields MAX_TASKS_def)

lemma demo_exec_image: "\<exists>sp ent k1. exec_image x86_env None demo_elf [] [] demo_family = Some (Jump sp ent, k1) \<and>
    saved_elf_data (task_at 0 k1) = Some 16 \<and> stack_block x86_env sp 112 k1 \<and>
    block_room (kheap (core k1)) 112 = 65536"
proof -
  have al: "ALIGN (4 + of_nat ALLOC_HEADER_SIZE) = of_nat 32" by (simp add: ALIGN_def ALLOC_HEADER_SIZE_def ALIGNMENT_def)
  obtain s where s: "kmalloc 4 ALLOC_TAG_KERNEL (core demo_family) = Some (Some 16, s)" "g_free_list (kheap s) = []" "sage_bump (kheap s) = 32"
      "headers (kheap s) 0 = Some (16, ALLOC_TAG_KERNEL)"
    by (rule kmalloc_bump[OF _ _ al, where s = "core demo_family" and b = 0 and q = 16 and b' = 32 and w = 16 and tag = ALLOC_TAG_KERNEL]) (auto simp: demo_family_tasks heap0_def SAGE_ARENA_SIZE_def)
  note fr = heap_frames(1)[OF s(1)]
  define bs where "bs = (\<lambda>i. if 16 \<le> i \<and> i < 16 + unat (4 :: u64) then umem demo_family (elf_base (task_at 0 demo_family) + of_nat (i - 16)) else bytes (kheap s) i)"
  have room: "\<not> block_room (kheap s) 16 < 4" "\<not> meets demo_ranges 0x8000000 4"
    using s(4) by (simp_all add: block_room_def ALLOC_HEADER_SIZE_def demo_ranges_def meets_def in_range_def)
  have "save_parent x86_env 1 demo_family =
      Some (set_task 0 (saved_elf_data_update (\<lambda>_. Some 16)) (demo_family\<lparr>core := s\<lparr>kheap := (kheap s)\<lparr>bytes := bs\<rparr>\<rparr>\<rparr>))"
    using s(1) room by (simp add: save_parent_def demo_family_tasks x86_env_fields zero_thread_def bs_def del: One_nat_def)
  then obtain k1 where k1: "save_parent x86_env 1 demo_family = Some k1" "saved_elf_data (task_at 0 k1) = Some 16"
      "g_free_list (kheap (core k1)) = []" "sage_bump (kheap (core k1)) = 32" "length (g_tasks (core k1)) = MAX_TASKS"
    using s(2,3) fr runs_task(4)[OF demo_family_runs] by (auto simp: set_task_def task_at_def nth_upd_task MAX_TASKS_def)
  obtain k2 where k2: "record_span 1 demo_elf k1 = Some k2" "task_at 0 k2 = task_at 0 k1" "kheap (core k2) = kheap (core k1)"
    using demo_phdr_at k1(5) demo_elf_valid by (auto simp: demo_phdr_def PT_LOAD_def record_span_def Let_def set_task_def task_at_def nth_upd_task MAX_TASKS_def)
  have h: "g_free_list (kheap (core k2)) = []" "sage_bump (kheap (core k2)) = 32" using k1(3,4) k2(3) by simp_all
  obtain sp ent s' m' where ex: "elf_exec TIMER_ARCH_X86 (env_heap x86_env) demo_ranges demo_elf [] [] (core k2) (umem k2)
        = Some (Exec_jump sp ent, s', m')"
      "112 \<le> unat (sp - env_heap x86_env)" "unat (sp - env_heap x86_env) < 112 + 65536" "headers (kheap s') 96 = Some (65536, ALLOC_TAG_KERNEL)"
    using demo_exec[OF h, of "env_heap x86_env" "umem k2"] by (auto simp: SAGE_ARENA_SIZE_def)
  then show ?thesis using k1(1,2) k2(1,2) runs_task(1)[OF demo_family_runs] elf_exec_frame[OF ex(1)]
    by (simp add: exec_image_def x86_env_fields task_at_def stack_block_def block_room_def ALLOC_HEADER_SIZE_def)
qed

lemma exit_returns:
  assumes "ipc_inv s" "g_current_task s = Some c" "i < MAX_TASKS" "i \<noteq> c" "runnable (g_tasks s ! i) \<or> state (g_tasks s ! i) = THREAD_STATE_BLOCKED"
  shows "\<exists>s'. sched_exit (poll env) s = Some s'"
proof -
  let ?u = "upd_task c (state_update (\<lambda>_. THREAD_STATE_TERMINATED)) s"
  let ?v = "?u\<lparr>g_tasks := map (\<lambda>t. if state t = THREAD_STATE_BLOCKED then t\<lparr>state := THREAD_STATE_READY\<rparr> else t) (g_tasks ?u)\<rparr>"
  have run: "running s" using assms(1) by (simp add: ipc_inv_def)
  then have len: "length (g_tasks s) = MAX_TASKS" by (simp add: running_def)
  have "runnable (g_tasks ?v ! i)" using assms(3-5) len by (auto simp: upd_task_def runnable_def)
  moreover have "running ?v" using run by (simp add: running_def)
  ultimately obtain s' where "sched_schedule (poll env) ?v = Some s'" using schedule_returns[of ?v i "poll env"] assms(3) by blast
  then show ?thesis using assms(2) by (simp add: sched_exit_def Let_def)
qed

text \<open>The stores of the example: a byte of the parent's image, one after it and one on the stack.\<close>
definition demo_stores :: "(u64 \<times> u8) list" where
  "demo_stores = [(0x8000001, 0xCD), (0x8000004, 0xCD), (0x2000070, 0xCD)]"

theorem parent_image_survives_exec_witness:
  "\<exists>sp ent k1 k1' r k2. exec_image x86_env None demo_elf [] [] demo_family = Some (Jump sp ent, k1) \<and>
    program_stores x86_env 112 demo_stores k1 = Some k1' \<and> umem k1' 0x8000001 = 0xCD \<and>
    sys_exit x86_env 0 k1' = Some (r, k2) \<and> umem k2 0x8000001 = 0 \<and> umem k2 0x8000004 = 0xCD"
proof -
  obtain sp ent k1 where k1: "exec_image x86_env None demo_elf [] [] demo_family = Some (Jump sp ent, k1)"
      "saved_elf_data (task_at 0 k1) = Some 16" "stack_block x86_env sp 112 k1"
      "block_room (kheap (core k1)) 112 = 65536" using demo_exec_image by blast
  have pre: "parent (task_at 1 demo_family) = Some 0" "0 \<noteq> (1 :: nat)" "elf_size (task_at 0 demo_family) \<noteq> 0"
      "saved_elf_data (task_at 0 demo_family) = None"
    by (simp_all only: demo_family_tasks) (simp_all add: zero_thread_def)
  note ex = exec_keeps_image[OF demo_family_runs pre k1(1,2)]
  obtain k where k: "program_stores x86_env 112 demo_stores k1 = Some k" "umem k 0x8000001 = 0xCD" "umem k 0x8000004 = 0xCD"
    using k1(4) by (auto simp: demo_stores_def program_store_def Let_def x86_env_fields demo_ranges_def in_range_def block_room_def)
  have st: "image_saved 0 16 (umem demo_family) k" "runs 1 k" "g_tasks (core k) = g_tasks (core k1)"
    using program_keeps_image[OF _ k1(3) _ k(1), of 0 16 "umem demo_family" 1] ex by auto
  let ?k' = "set_task 1 (exit_code_update (\<lambda>_. 0)) k"
  have ok': "kernel_ok ?k'" using st(2) by (simp add: runs_def kernel_ok_set_task)
  have t: "task_at 0 ?k' = task_at 0 k1" "parent (task_at 1 ?k') = Some 0" "kheap (core ?k') = kheap (core k)"
    using ex st(3) runs_task(4)[OF st(2)] by (simp_all add: set_task_def task_at_def nth_upd_task MAX_TASKS_def)
  obtain u where "headers (kheap (core ?k')) (16 - ALLOC_HEADER_SIZE) = Some u" using st(1) t(3) by (auto simp: image_saved_def)
  then obtain s where s: "kfree (Some 16) (core ?k') = Some s"
    using sage_free_defined[of 16 "kheap (core ?k')"] by (auto simp: kfree_def ALLOC_HEADER_SIZE_def)
  have "\<not> meets (kernel_ranges x86_env) (elf_base (task_at 0 k1)) (elf_size (task_at 0 k1))"
    using ex demo_family_tasks(2) by (simp add: x86_env_fields demo_ranges_def meets_def in_range_def)
  then obtain k3 where k3: "restore_parent x86_env 1 ?k' = Some k3" "g_tasks (core k3) = (g_tasks s)[0 := (g_tasks s ! 0)\<lparr>saved_elf_data := None\<rparr>]"
      "g_current_task (core k3) = g_current_task s"
    using t k1(2) s by (auto simp: restore_parent_def restore_image_def set_task_def upd_task_def Let_def)
  have k3ok: "ipc_inv (core k3)" using kernel_ok_restore_parent[OF ok' k3(1)] by (simp add: kernel_ok_def)
  have cur: "g_current_task (core k3) = Some 1" using k3(3) heap_frames(2)[OF s] st(2) by (simp add: runs_def set_task_def)
  have "runnable (g_tasks (core k3) ! 0)"
    using k3(2) heap_frames(2)[OF s] t(1) ex runs_task(4)[OF st(2)] demo_family_tasks(2)
    by (simp add: runnable_def task_at_def set_task_def MAX_TASKS_def upd_task_def)
  then obtain s' where "sched_exit (poll x86_env) (core k3) = Some s'" using exit_returns[OF k3ok cur, of 0] by (auto simp: MAX_TASKS_def)
  then have "sys_exit x86_env 0 k = Some (Exited, k3\<lparr>core := s'\<rparr>)"
    using runs_task(1)[OF st(2)] k3(1) by (simp add: sys_exit_def)
  with parent_image_survives_exec[OF demo_family_runs pre k1(1) _ k1(3) k(1) this] k1(2) k show ?thesis
    using k1(1) by (auto simp: demo_family_tasks zero_thread_def)
qed

section \<open>The exit status\<close>

definition active :: "thread_state \<Rightarrow> bool" where
  "active x \<longleftrightarrow> x = THREAD_STATE_READY \<or> x = THREAD_STATE_RUNNING"

text \<open>A switch changes states between ready and running only.\<close>
lemma schedule_states:
  fixes s :: ipc
  assumes "running s" "sched_schedule (poll env) s = Some s'" "i < MAX_TASKS"
  obtains x where "g_tasks s' ! i = (g_tasks s ! i)\<lparr>state := x\<rparr>" "x = state (g_tasks s ! i) \<or> active x \<and> active (state (g_tasks s ! i))"
proof -
  obtain c where c: "g_current_task s = Some c" "c < MAX_TASKS" "length (g_tasks s) = MAX_TASKS" using assms(1) by (auto simp: running_def)
  obtain n u where u: "wait_runnable (timer_idle_poll (env_arch env)) c (s\<lparr>in_sched := True\<rparr>) = Some (n, u)"
      "s' = (if n = c then u\<lparr>in_sched := False\<rparr> else (switch_to (Some c) n u)\<lparr>in_sched := False\<rparr>)"
    using assms(1,2) c by (auto simp: sched_schedule_def running_def Let_def poll_def bind_eq_Some_conv split: if_splits)
  have f: "g_tasks u = g_tasks s" "find_runnable c (g_tasks s) = Some n" using wait_runnable_frame[OF u(1)] by simp_all
  have "runnable (g_tasks s ! n)" using f(2)[unfolded find_runnable_Some] by blast
  then have n: "n < MAX_TASKS" "active (state (g_tasks s ! n))"
    using find_runnable_bound[OF f(2)] by (simp_all add: runnable_def active_def)
  show thesis
  proof (cases "n = c")
    case True
    then show thesis using that[of "state (g_tasks s ! i)"] u(2) f(1) by simp
  next
    case False
    then have "g_tasks s' ! i = (g_tasks s ! i)\<lparr>state := if i = n then THREAD_STATE_RUNNING
        else if i = c \<and> state (g_tasks s ! c) = THREAD_STATE_RUNNING then THREAD_STATE_READY else state (g_tasks s ! i)\<rparr>"
      using u(2) switch_to_fields(3)[of c u n i] c n f(1) by simp
    then show thesis by (rule that) (use n in \<open>auto simp: active_def\<close>)
  qed
qed

lemma get_thread_cong:
  assumes "length (g_tasks s') = length (g_tasks s)" "\<And>i. i < length (g_tasks s) \<Longrightarrow>
      tid (g_tasks s' ! i) = tid (g_tasks s ! i) \<and> (state (g_tasks s' ! i) = THREAD_STATE_UNUSED \<longleftrightarrow> state (g_tasks s ! i) = THREAD_STATE_UNUSED)"
  shows "sched_get_thread_by_id pid s' = sched_get_thread_by_id pid s"
  unfolding sched_get_thread_by_id_def by (rule first_index_cong) (use assms in auto)

text \<open>What \<^verbatim>\<open>sched_exit\<close> does to the threads.\<close>
lemma exit_states:
  fixes s :: ipc
  assumes "running s" "g_current_task s = Some c" "sched_exit (poll env) s = Some s'" "i < MAX_TASKS"
  obtains x where "g_tasks s' ! i = (g_tasks s ! i)\<lparr>state := x\<rparr>" "i = c \<Longrightarrow> x = THREAD_STATE_TERMINATED"
    "i \<noteq> c \<Longrightarrow> x = THREAD_STATE_UNUSED \<longleftrightarrow> state (g_tasks s ! i) = THREAD_STATE_UNUSED"
proof -
  let ?u = "upd_task c (state_update (\<lambda>_. THREAD_STATE_TERMINATED)) s"
  let ?f = "\<lambda>t. if state t = THREAD_STATE_BLOCKED then t\<lparr>state := THREAD_STATE_READY\<rparr> else t"
  let ?v = "?u\<lparr>g_tasks := map ?f (g_tasks ?u)\<rparr>"
  have len: "length (g_tasks s) = MAX_TASKS" using assms(1) by (simp add: running_def)
  have sch: "sched_schedule (poll env) ?v = Some s'" using assms(2,3) by (simp add: sched_exit_def Let_def)
  have run: "running ?v" using assms(1) by (simp add: running_def)
  obtain x where x: "g_tasks s' ! i = (g_tasks ?v ! i)\<lparr>state := x\<rparr>" "x = state (g_tasks ?v ! i) \<or> active x \<and> active (state (g_tasks ?v ! i))"
    using schedule_states[OF run sch assms(4)] .
  have v: "g_tasks ?v ! i = ?f (g_tasks ?u ! i)" "g_tasks ?u ! i = (if i = c then (g_tasks s ! i)\<lparr>state := THREAD_STATE_TERMINATED\<rparr> else g_tasks s ! i)"
    using assms(4) len by (simp_all add: nth_upd_task)
  show thesis
    by (rule that[of x]) (use x v in \<open>auto simp: active_def split: if_splits\<close>)
qed

lemma restore_parent_tasks:
  assumes "restore_parent env c k = Some k'"
  shows "i < length (g_tasks (core k)) \<Longrightarrow> g_tasks (core k') ! i = (g_tasks (core k) ! i)\<lparr>saved_elf_data := saved_elf_data (g_tasks (core k') ! i)\<rparr>"
    "g_current_task (core k') = g_current_task (core k)"
  using assms
  by (auto simp: restore_parent_def set_task_def upd_task_def nth_update_if Let_def split: option.splits bind_splits dest!: heap_frames(2))

lemma sys_exit_threads:
  assumes "runs c k" "sys_exit env code k = Some (r, k1)"
  shows "ipc_inv (core k1)"
    "i < MAX_TASKS \<Longrightarrow> tid (task_at i k1) = tid (task_at i k) \<and>
      (if i = c then state (task_at i k1) = THREAD_STATE_TERMINATED \<and> exit_code (task_at i k1) = code
       else state (task_at i k1) = THREAD_STATE_UNUSED \<longleftrightarrow> state (task_at i k) = THREAD_STATE_UNUSED)"
proof -
  let ?k = "set_task c (exit_code_update (\<lambda>_. code)) k"
  obtain k' s where k': "restore_parent env c ?k = Some k'" "sched_exit (poll env) (core k') = Some s" "k1 = k'\<lparr>core := s\<rparr>"
    using assms(2) runs_task(1)[OF assms(1)] by (auto simp: sys_exit_def split: bind_splits)
  have "kernel_ok ?k" using assms(1) by (simp add: runs_def kernel_ok_set_task)
  then have ok': "ipc_inv (core k')" using kernel_ok_restore_parent[OF _ k'(1)] by (simp add: kernel_ok_def)
  then show "ipc_inv (core k1)" using exit_inv[of "core k'" "env_arch env" s] k'(2,3) by (simp add: poll_def)
  have cur: "g_current_task (core k') = Some c" using restore_parent_tasks(2)[OF k'(1)] assms(1) by (simp add: runs_def set_task_def)
  assume i: "i < MAX_TASKS"
  define t where "t = g_tasks (core ?k) ! i"
  have t: "t = (if i = c then (task_at i k)\<lparr>exit_code := code\<rparr> else task_at i k)"
    using i runs_task(4)[OF assms(1)] by (simp add: t_def set_task_def task_at_def nth_upd_task)
  have "i < length (g_tasks (core ?k))" using i runs_task(4)[OF assms(1)] by (simp add: set_task_def)
  then obtain y where y: "g_tasks (core k') ! i = t\<lparr>saved_elf_data := y\<rparr>" using restore_parent_tasks(1)[OF k'(1)] unfolding t_def by blast
  have "running (core k')" using ok' by (simp add: ipc_inv_def)
  then obtain x where "g_tasks s ! i = (g_tasks (core k') ! i)\<lparr>state := x\<rparr>" "i = c \<Longrightarrow> x = THREAD_STATE_TERMINATED"
      "i \<noteq> c \<Longrightarrow> x = THREAD_STATE_UNUSED \<longleftrightarrow> state (g_tasks (core k') ! i) = THREAD_STATE_UNUSED"
    using exit_states[OF _ cur k'(2) i] by blast
  with t y k'(3) show "tid (task_at i k1) = tid (task_at i k) \<and>
      (if i = c then state (task_at i k1) = THREAD_STATE_TERMINATED \<and> exit_code (task_at i k1) = code
       else state (task_at i k1) = THREAD_STATE_UNUSED \<longleftrightarrow> state (task_at i k) = THREAD_STATE_UNUSED)"
    by (cases "i = c") (simp_all add: task_at_def)
qed

text \<open>
  C18. A parent learns how its child ended. When the running thread, known under the identifier \<open>pid\<close>, ends with
  \<^verbatim>\<open>exit(code)\<close>, a \<^verbatim>\<open>waitpid(pid)\<close> that goes on afterwards returns \<open>pid\<close> with the status \<open>code\<close> at once, and frees
  the thread's slot.
\<close>
theorem exit_status_reaches_parent:
  assumes "runs c k" "sched_get_thread_by_id pid (core k) = Some c" "sys_exit env code k = Some (r, k1)"
  shows "\<exists>k2. sys_resume env (Cont_waitpid w pid True) k1 = Some (Ret (sint pid) (Sys_status code), k2) \<and>
    state (task_at c k2) = THREAD_STATE_UNUSED"
proof -
  note ex = sys_exit_threads[OF assms(1,3)]
  have len: "length (g_tasks (core k)) = MAX_TASKS" "length (g_tasks (core k1)) = MAX_TASKS" "c < MAX_TASKS"
    using runs_task(2,4)[OF assms(1)] ex(1) by (simp_all add: ipc_inv_def running_def)
  have "state (g_tasks (core k) ! c) \<noteq> THREAD_STATE_UNUSED"
    using assms(2) first_index_SomeD(2) unfolding sched_get_thread_by_id_def by fastforce
  then have same: "tid (g_tasks (core k1) ! i) = tid (g_tasks (core k) ! i) \<and>
      (state (g_tasks (core k1) ! i) = THREAD_STATE_UNUSED \<longleftrightarrow> state (g_tasks (core k) ! i) = THREAD_STATE_UNUSED)" if "i < MAX_TASKS" for i
    using ex(2)[OF that] by (cases "i = c") (auto simp: task_at_def)
  have "sched_get_thread_by_id pid (core k1) = sched_get_thread_by_id pid (core k)"
    using same len by (intro get_thread_cong) simp_all
  moreover have c: "state (task_at c k1) = THREAD_STATE_TERMINATED" "exit_code (task_at c k1) = code" using ex(2)[OF len(3)] by simp_all
  moreover obtain u where u: "sched_ipc_cleanup_thread (task_at c k1) (core k1) = Some u" "ipc_inv u"
    using cleanup_thread_inv[OF ex(1), of "task_at c k1"] by auto
  moreover have "c < length (g_tasks u)" using u(2) len(3) by (simp add: ipc_inv_def running_def)
  ultimately show ?thesis using assms(2) by (simp add: waitpid_round_def set_task_def task_at_def nth_upd_task)
qed

theorem exit_status_reaches_parent_witness:
  "\<exists>k1 k2. sys_exit x86_env 3 (set_task 1 (tid_update (\<lambda>_. 7)) demo_family) = Some (Exited, k1) \<and>
    sys_resume x86_env (Cont_waitpid 0 7 True) k1 = Some (Ret 7 (Sys_status 3), k2)"
proof -
  let ?k = "set_task 1 (tid_update (\<lambda>_. 7)) demo_family"
  let ?k' = "set_task 1 (exit_code_update (\<lambda>_. 3)) ?k"
  have run: "runs 1 ?k"
    using demo_family_runs kernel_ok_set_task[of demo_family "tid_update (\<lambda>_. 7)" 1] by (simp add: runs_def set_task_def proc_ok_def)
  have t: "task_at 1 ?k' = zero_thread\<lparr>parent := Some 0, state := THREAD_STATE_RUNNING, tid := 7, exit_code := 3\<rparr>"
      "task_at 0 ?k' = task_at 0 demo_family" "task_at 1 ?k = zero_thread\<lparr>parent := Some 0, state := THREAD_STATE_RUNNING, tid := 7\<rparr>"
      "task_at 0 ?k = task_at 0 demo_family"
    using demo_family_tasks(1) runs_task(4)[OF demo_family_runs] by (simp_all add: set_task_def task_at_def nth_upd_task MAX_TASKS_def)
  have "sched_get_thread_by_id 7 (core ?k) = Some 1" unfolding sched_get_thread_by_id_def
    using t(3,4) demo_family_tasks(2) runs_task(4)[OF run]
    by (intro first_index_eqI) (auto simp: task_at_def zero_thread_def MAX_TASKS_def)
  moreover have "restore_parent x86_env 1 ?k' = Some ?k'"
    using t demo_family_tasks(2) by (simp add: restore_parent_def zero_thread_def)
  moreover have "ipc_inv (core ?k')" "g_current_task (core ?k') = Some 1" "runnable (g_tasks (core ?k') ! 0)"
    using run kernel_ok_set_task[of ?k "exit_code_update (\<lambda>_. 3)" 1] t(2) demo_family_tasks(2)
    by (simp_all add: runs_def kernel_ok_def set_task_def task_at_def runnable_def)
  then obtain s where "sched_exit (poll x86_env) (core ?k') = Some s" using exit_returns[of "core ?k'" 1 0 x86_env] by (auto simp: MAX_TASKS_def)
  ultimately have "sys_exit x86_env 3 ?k = Some (Exited, ?k'\<lparr>core := s\<rparr>)" using runs_task(1)[OF run] by (simp add: sys_exit_def)
  with exit_status_reaches_parent[OF run \<open>sched_get_thread_by_id 7 (core ?k) = Some 1\<close> this, of 0] show ?thesis by auto
qed

end
