(* ===== verification/Spec2Isabelle.thy ===== *)
theory Spec2Isabelle
  imports Sage_PMM Sage_FAT32_Props Sage_Process
begin

text \<open>
  \<^bold>\<open>The SageOS kernel.\<close> SageOS is a small operating system for x86, ARM64 and RISC-V in one address space. The C sources
  of its kernel are under \<^verbatim>\<open>src/sageos_build/kernel/\<close>; all file names below are relative to it. Programs are ELF files
  or scripts. They enter the kernel through system calls, which use the thread table of the scheduler, the IPC objects,
  the virtual file system with its mounted backends, the timer, and the kernel heap.

  \<^bold>\<open>Conventions.\<close> C integers keep their width: \<open>u8\<close>, \<open>u16\<close>, \<open>u32\<close> and \<open>u64\<close> are words whose arithmetic wraps. Signed
  values are integers, with the conversions written out. A C string is the list of its characters. A structure is
  a record, an enumeration a datatype, a static array a list of fixed length, and the static variables of a source
  file are the fields of the record that its operations take and return. The records of the scheduler, the timer and the
  IPC subsystem extend each other (\<open>sched\<close>, \<open>timer\<close>, \<open>ipc\<close>). The result \<open>None\<close> of an operation stands for an access
  outside an object, the use of a null pointer, a copy over the kernel itself, or a loop that does not end; operations that
  cannot do so are total.
  A call that gives up the processor returns a continuation (\<open>Wait\<close>, \<open>Block\<close>) and is resumed by a function of its
  own, so that other threads can run in between. Sections under a spin lock are atomic steps.

  \<^bold>\<open>The theories.\<close>
  \<^item> \<open>Sage_Prelude\<close>: word and list lemmas, the scan for a free slot (\<open>first_index\<close>), and the locales \<open>slot_pool\<close>,
    \<open>claiming_pool\<close> and \<open>lazy_pool\<close> of tables whose slots are handed out by such a scan. They are interpreted for capability
    slots, endpoints, ports, shared memory and threads.
  \<^item> \<open>Sage_Rings\<close>: the locales \<open>overwrite_ring\<close> (interpreted for the kernel log and the trace buffer) and \<open>bounded_fifo\<close>
    (interpreted for the message rings). \<open>Sage_Bytes\<close>: little-endian fields of packed structures.
  \<^item> \<open>Sage_PMM\<close>: \<^verbatim>\<open>core/mm.c\<close>, the bitmap of physical frames. It refines a set of free frames; no frame is handed out
    twice; \<^verbatim>\<open>phys_init\<close> reserves what it should, except for an unaligned kernel image.
  \<^item> \<open>Sage_Alloc\<close>: \<^verbatim>\<open>core/sagelang/sage_alloc.c\<close>, the kernel heap of 32 MiB. Its headers and its free list tile the arena in
    every reachable state; blocks are disjoint; freeing gives back exactly the block and coalesces it; a request is granted if and only if a free block or
    the rest of the arena is large enough; reallocation keeps the bytes.
  \<^item> \<open>Sage_Libc\<close>: \<^verbatim>\<open>core/sagelang/sage_libc_shim.c\<close>, strings, memory, formatting and reading of numbers.
  \<^item> \<open>Sage_Log\<close>: \<^verbatim>\<open>core/dmesg.c\<close> and \<^verbatim>\<open>core/telemetry.c\<close>, both refining unbounded logs of which a suffix is kept.
  \<^item> \<open>Sage_Sched\<close>: \<^verbatim>\<open>core/scheduler.c\<close> with the hooks of \<^verbatim>\<open>core/scheduler_ipc_ext.c\<close>. Round robin, bounded waiting, thread
    creation. \<open>Sage_Timer\<close>: \<^verbatim>\<open>core/sagelang/timer_bridge.c\<close>, with the deadlock of a scheduler without runnable threads.
  \<^item> \<open>Sage_Cap\<close>, \<open>Sage_NS\<close>, \<open>Sage_IPC\<close>: \<^verbatim>\<open>core/ipc.c\<close> and \<^verbatim>\<open>include/ipc.h\<close>, capabilities, the name space and the IPC calls.
    The pointers of the caller are arguments of the calls; a null pointer that is used is \<open>None\<close>. \<open>Sage_IPC_Inv\<close>: the states
    reachable from boot and their invariant. \<open>Sage_IPC_Props\<close>: authority, the message queue, and that calls return.
  \<^item> \<open>Sage_VFS\<close>: \<^verbatim>\<open>fs/vfs.c\<close>. Normalisation of paths against a canonical form, resolution of mounts, recursive removal.
  \<^item> \<open>Sage_FAT32\<close>, \<open>Sage_FAT32_Props\<close>: \<^verbatim>\<open>fs/fat32.c\<close> over the sectors of \<^verbatim>\<open>core/ata_pio.c\<close>. Reading and writing refine
    slices of the concatenated clusters of a file.
  \<^item> \<open>Sage_ELF\<close>, \<open>Sage_ELF_Props\<close>: \<^verbatim>\<open>fs/elf.c\<close>, the image and the initial stack of a program. Programs are loaded into the
    address space of the kernel; the ranges of its image and heap are arguments, and loading over them is \<open>None\<close>.
  \<^item> \<open>Sage_Syscall\<close>: \<^verbatim>\<open>core/syscall.c\<close>, with \<^verbatim>\<open>sys_brk\<close>, \<^verbatim>\<open>sys_execve\<close>, \<^verbatim>\<open>timer_delay_ms\<close> and the creation of script tasks. The
    record \<open>kernel\<close> joins the states of the components. \<open>Sage_Syscall_Inv\<close>: every call, resumed call and spawned task
    keeps the invariant \<open>kernel_ok\<close>. \<open>Sage_Syscall_Props\<close>: descriptors as a map, confinement, error codes, listings.
  \<^item> \<open>Sage_Process\<close>: exec, exit and wait between a parent and its child, for a program whose stores stay on its stack
    and outside the kernel.
  \<^item> This theory: the path of a byte from a program through descriptor, mount table and driver to the disk and
    back. The locale \<open>file_backend\<close> states what the mount layer needs of a backend, and FAT32 provides it.

  \<^bold>\<open>Loops and bounds.\<close> Loops over tables and lists are structural recursion. The walks along cluster chains, along the wait
  for a runnable thread and through directories may not end in the code; they are \<open>partial_function (option)\<close>, and the
  theorems state that they return, or that they do not. No fuel is used. Sizes are those of the source: 128 threads, 64
  IPC extensions, 32 descriptors, 64 capabilities for a task, 1024 trace entries, paths of 256 characters.

  \<^bold>\<open>Parameters.\<close> The bytecode program that the VFS calls first (\<open>vfs_bridge\<close>) is generated and is an argument, as are the
  counter readings of the timer, the state of the disk, the addresses of the kernel and of its heap, the contents of user
  memory and the values of uninitialised variables (\<open>sys_env\<close>).

  \<^bold>\<open>Not modelled.\<close> Register switches, stack copies and traps are assembly. Device drivers (virtio, console, keyboard, the
  register handshakes of the disk), boot and the shell are input and output. The branches of the FAT32 driver that use the
  firmware's file protocol call code outside the tree. The virtual-memory functions are empty. The bytecode machine of
  the kernel and the SageLang tool chain (front end, passes, back ends, interpreter) are programs of their own; the
  kernel reaches them only through the parameter above. User-space wrappers and embedded tables hold no logic.
\<close>

section \<open>Files through the mount layer\<close>

lemma norm_path_simple:
  assumes "proper nm" "length nm < 255"
  shows "norm_path (CHR ''/'' # nm) = Some (CHR ''/'' # nm)"
proof -
  let ?p = "CHR ''/'' # nm"
  have "components ?p = [nm]" using components_append[of nm "[]"] assms(1) by (simp add: proper_def)
  then have "resolve_parts (components ?p) = [nm]" "ordinary ?p \<le> 32"
    using assms(1) by (simp_all add: resolve_parts_def resolve_part_def proper_def ordinary_def)
  then show ?thesis using normalize_fits[of 256 ?p] assms(2)
    by (simp add: norm_path_def VFS_MAX_PATH_def path_text_def slashed_def)
qed

lemma lookup_op_mounts:
  "g_mounts s' = g_mounts s \<Longrightarrow> g_mount_count s' = g_mount_count s \<Longrightarrow> lookup_op f p s' = lookup_op f p s"
  by (simp add: lookup_op_def resolve_mount_def split: option.split)

text \<open>
  What the mount layer asks of a backend that stores files: a file that is sound on the device, with \<open>n\<close> bytes, gives
  back what is written inside it.
\<close>
locale file_backend =
  fixes be :: "'w VfsBackend" and sound :: "'w \<Rightarrow> string \<Rightarrow> nat \<Rightarrow> bool"
  assumes write_then_read: "sound w p n \<Longrightarrow> unat off + length data \<le> n \<Longrightarrow>
    \<exists>f g w'. be_write be = Some f \<and> be_read be = Some g \<and> f p off data w = Some (int (length data), w') \<and>
      g p off (of_nat (length data)) w' = Some (Inr data, w')"
begin

text \<open>Then the mount layer gives it back too; neither call reaches the bridge program.\<close>
lemma vfs_write_read:
  assumes "resolve_mount path s = Some (m, p)" "m_backend m = Some be" "norm_path path = Some path"
    "sound (world s) p n" "unat off + length data \<le> n"
  shows "\<exists>s1 s2. vfs_write br path off data s = Some (int (length data), s1) \<and>
    vfs_read br path off (of_nat (length data)) s1 = Some (Inr data, s2)"
proof -
  obtain f g w' where d: "be_write be = Some f" "be_read be = Some g" "f p off data (world s) = Some (int (length data), w')"
    "g p off (of_nat (length data)) w' = Some (Inr data, w')"
    using write_then_read[OF assms(4,5)] by blast
  have look: "lookup_op be_write path s = Some (f, p)" "lookup_op be_read path s = Some (g, p)"
    using assms(1,2) d(1,2) by (simp_all add: lookup_op_def)
  define s0 where "s0 = s\<lparr>vfs_emitted := vfs_emitted s @ [vfs_event.TRACE_VFS_WRITE off (of_nat (length data))]\<rparr>"
  define s1 where "s1 = s0\<lparr>world := w'\<rparr>"
  have "lookup_op be_write path s0 = Some (f, p)" using look(1) lookup_op_mounts[of s0 s be_write] by (simp add: s0_def)
  then have "vfs_write br path off data s = Some (int (length data), s1)"
    using d(3) assms(3) by (simp add: vfs_write_def Let_def s1_def s0_def)
  moreover define s2 where "s2 = s1\<lparr>vfs_emitted := vfs_emitted s1 @ [vfs_event.TRACE_VFS_READ off (of_nat (length data))]\<rparr>"
  have "lookup_op be_read path s2 = lookup_op be_read path s" by (rule lookup_op_mounts) (simp_all add: s2_def s1_def s0_def)
  then have "vfs_read br path off (of_nat (length data)) s1 = Some (Inr data, s2)"
    using d(4) assms(3) look(2) by (simp add: vfs_read_def Let_def s2_def s1_def)
  ultimately show ?thesis by blast
qed

end

definition fat32_sound :: "fat \<Rightarrow> string \<Rightarrow> nat \<Rightarrow> bool" where
  "fat32_sound w p n \<longleftrightarrow>
    (\<exists>nm e cs rs. p = CHR ''/'' # nm \<and> proper nm \<and> healthy_file w nm e cs rs \<and> n = unat (de_file_size e))"

interpretation fat32: file_backend fat32_backend fat32_sound
proof unfold_locales
  fix w p n and off :: u64 and data :: "u8 list"
  assume "fat32_sound w p n" "unat off + length data \<le> n"
  then obtain nm e cs rs where p: "p = CHR ''/'' # nm" "proper nm" "healthy_file w nm e cs rs" "unat off + length data \<le> unat (de_file_size e)"
    by (auto simp: fat32_sound_def)
  obtain d where "fat32_write p off data w = Some (int (length data), d)" "fat32_read p off (of_nat (length data)) d = Some (Inr data)"
    using healthy_write_then_read[OF p(3,4)] p(1,2) by (auto simp: proper_def)
  then show "\<exists>f g w'. be_write fat32_backend = Some f \<and> be_read fat32_backend = Some g \<and>
      f p off data w = Some (int (length data), w') \<and> g p off (of_nat (length data)) w' = Some (Inr data, w')"
    by (simp add: fat32_backend_def)
qed

lemma wrap64_small: "0 \<le> x \<Longrightarrow> x < 2 ^ 63 \<Longrightarrow> wrap64 x = x"
  unfolding wrap64_def by (rule signed_take_bit_int_eq_self) simp_all

lemma unat_offset: "0 \<le> x \<Longrightarrow> x < 2 ^ 64 \<Longrightarrow> unat (word_of_int x :: u64) = nat x"
  by (simp add: unat_eq_nat_uint uint_word_of_int take_bit_int_eq_self)

lemma files_same: "files k = v \<Longrightarrow> k\<lparr>files := v\<rparr> = k"
  by simp

lemma fds_path_length:
  assumes "runs c k" "fds c k fd = Some (p, q, fl)"
  shows "length p < 256"
proof -
  have "fd_at c fd k \<in> set (fd_table (task_at c k))"
    using fd_valid_fds(2)[OF assms(2)] runs_task(3)[OF assms(1)] by (simp add: fd_at_def nat_less_iff)
  then have "fd_ok (fd_at c fd k)" using runs_task(5)[OF assms(1)] by (simp add: proc_ok_def)
  then show ?thesis using fd_valid_fds(3)[OF assms(2)] by (simp add: fd_ok_def VFS_MAX_PATH_def)
qed

lemma permissions_set_fd: "permissions (task_at c (set_fd c fd f k)) = permissions (task_at c k)"
  by (cases "c < length (g_tasks (core k))") (simp_all add: set_fd_def set_task_def task_at_def upd_task_def list_update_beyond)

text \<open>A descriptor whose offset moves while the file system changes.\<close>
lemma moved_fd:
  assumes "runs c k" "fds c k fd = Some (p, q, fl)" "permissions (task_at c k) AND PERM_VFS_CAP_ONLY = 0"
  defines "k' \<equiv> \<lambda>f v. set_fd c fd (offset_update f) (k\<lparr>files := v\<rparr>)"
  shows "runs c (k' f v)" "fds c (k' f v) fd = Some (p, f q, fl)" "files (k' f v) = v"
    "permissions (task_at c (k' f v)) AND PERM_VFS_CAP_ONLY = 0"
proof -
  have r: "runs c (k\<lparr>files := v\<rparr>)" using assms(1) by (simp add: runs_def kernel_ok_def)
  show "runs c (k' f v)" unfolding k'_def by (rule runs_set_fd[OF r]) (simp add: fd_ok_def)
  have at: "fd_at c fd (k\<lparr>files := v\<rparr>) = fd_at c fd k" by (simp add: fd_at_def task_at_def)
  have "valid (fd_at c fd k)" using assms(2) fd_valid_fds(1)[of c fd k] by (simp add: fd_valid_def)
  then show "fds c (k' f v) fd = Some (p, f q, fl)"
    using fds_set_fd[OF r, of fd] fd_valid_fds(2,3)[OF assms(2)] by (simp add: k'_def at)
  show "files (k' f v) = v" by (simp add: k'_def set_fd_def set_task_def)
  show "permissions (task_at c (k' f v)) AND PERM_VFS_CAP_ONLY = 0" using assms(3) unfolding k'_def permissions_set_fd by (simp add: task_at_def)
qed

text \<open>
  C1. A program reads back what it wrote. For an open descriptor of an unconfined program whose path is a soundly laid
  out file in the root directory of a mounted FAT32 volume, and data that end inside the file, \<^verbatim>\<open>write\<close> at the
  descriptor's offset reports all bytes written, \<^verbatim>\<open>lseek\<close> back to the old offset succeeds, and \<^verbatim>\<open>read\<close> of as many
  bytes returns exactly these bytes and leaves the offset behind them: through the descriptor table, the mount
  table, the FAT32 driver and the disk.
\<close>
theorem syscall_write_read_fat32:
  assumes "runs c k" "fds c k fd = Some (CHR ''/'' # nm, q, fl)" "3 \<le> fd" "permissions (task_at c k) AND PERM_VFS_CAP_ONLY = 0"
    "resolve_mount (CHR ''/'' # nm) (files k) = Some (m, CHR ''/'' # nm)" "m_backend m = Some fat32_backend" "proper nm"
    "healthy_file (world (files k)) nm e cs rs" "0 \<le> q" "q + int (length data) \<le> uint (de_file_size e)"
  shows "\<exists>k1 k2 k3. sys_write env fd (Some data) k = Some (Ret (int (length data)) Sys_none, k1) \<and>
    sys_lseek env fd q 0 k1 = Some (Ret q Sys_none, k2) \<and>
    sys_read env fd True (of_nat (length data)) k2 = Some (Ret (int (length data)) (Sys_bytes data), k3) \<and>
    fds c k3 fd = Some (CHR ''/'' # nm, q + int (length data), fl)"
proof -
  let ?p = "CHR ''/'' # nm" and ?n = "int (length data)" and ?w = "word_of_int q :: u64"
  note fd = fd_valid_fds(2,3)[OF assms(2)]
  have small: "q + ?n < 2 ^ 32" using assms(10) uint_bounded[of "de_file_size e"] by simp
  have "unat ?w = nat q" by (rule unat_offset) (use assms(9) small in simp_all)
  then have off: "unat ?w + length data \<le> unat (de_file_size e)"
    using assms(9,10) unat_eq_nat_uint[of "de_file_size e"] by linarith
  have nm: "length nm < 255" using fds_path_length[OF assms(1,2)] by simp
  have sd: "fat32_sound (world (files k)) ?p (unat (de_file_size e))" using assms(7,8) unfolding fat32_sound_def by blast
  obtain s1 s2 where s: "vfs_write (env_bridge env) ?p ?w data (files k) = Some (?n, s1)"
      "vfs_read (env_bridge env) ?p ?w (of_nat (length data)) s1 = Some (Inr data, s2)"
    using fat32.vfs_write_read[OF assms(5,6) norm_path_simple[OF assms(7) nm] sd off] by blast
  define k1 where "k1 = set_fd c fd (offset_update (\<lambda>o1. wrap64 (o1 + ?n))) (k\<lparr>files := s1\<rparr>)"
  define k2 where "k2 = set_fd c fd (offset_update (\<lambda>_. q)) k1"
  define k3 where "k3 = set_fd c fd (offset_update (\<lambda>o1. wrap64 (o1 + ?n))) (k2\<lparr>files := s2\<rparr>)"
  have 1: "runs c k1" "fds c k1 fd = Some (?p, q + ?n, fl)" "files k1 = s1" "permissions (task_at c k1) AND PERM_VFS_CAP_ONLY = 0"
    using moved_fd[OF assms(1,2,4), of "\<lambda>o1. wrap64 (o1 + ?n)" s1] small assms(9) by (simp_all add: k1_def wrap64_small)
  have 2: "runs c k2" "fds c k2 fd = Some (?p, q, fl)" "files k2 = s1" "permissions (task_at c k2) AND PERM_VFS_CAP_ONLY = 0"
    using moved_fd[OF 1(1,2,4), of "\<lambda>_. q" s1] files_same[OF 1(3)] by (simp_all add: k2_def)
  have "sys_write env fd (Some data) k = Some (Ret ?n Sys_none, k1)"
    using runs_task(1)[OF assms(1)] assms(2,3,4) fd s(1)
    by (simp add: sys_write_def fd_valid_fds(1) task_has_vfs_cap_def sret_def k1_def Let_def)
  moreover have "sys_lseek env fd q 0 k1 = Some (Ret q Sys_none, k2)"
    using runs_task(1)[OF 1(1)] 1(2) by (simp add: sys_lseek_def with_fd_def fd_valid_fds(1) sret_def k2_def Let_def)
  moreover have "sys_read env fd True (of_nat (length data)) k2 = Some (Ret ?n (Sys_bytes data), k3)"
    using runs_task(1)[OF 2(1)] 2 assms(3) fd_valid_fds(3)[OF 2(2)] s(2)
    by (simp add: sys_read_def fd_valid_fds(1) task_has_vfs_cap_def k3_def Let_def)
  moreover have "fds c k3 fd = Some (?p, q + ?n, fl)"
    using moved_fd(2)[OF 2(1,2,4), of "\<lambda>o1. wrap64 (o1 + ?n)" s2] small assms(9) by (simp add: k3_def wrap64_small)
  ultimately show ?thesis by blast
qed

text \<open>A kernel whose program has a file open at an offset.\<close>
definition demo_file :: "string \<Rightarrow> int \<Rightarrow> 'w vfs \<Rightarrow> 'w kernel" where
  "demo_file p q v = set_fd 0 3 (\<lambda>e. e\<lparr>valid := True, fd_path := p, offset := q, fd_flags := O_RDWR\<rparr>) (demo_kernel v)"

lemma demo_file_facts:
  assumes "length p < 256"
  shows "runs 0 (demo_file p q v)" "fds 0 (demo_file p q v) 3 = Some (p, q, O_RDWR)" "files (demo_file p q v) = v"
    "permissions (task_at 0 (demo_file p q v)) = 0"
proof -
  have k: "runs 0 (demo_kernel v)"
    using kernel_reach_ok[OF demo_kernel_reach[of TIMER_ARCH_RV64 undefined]] by (simp add: runs_def demo_kernel_current)
  show "runs 0 (demo_file p q v)" unfolding demo_file_def by (rule runs_set_fd[OF k]) (use assms in \<open>simp add: fd_ok_def VFS_MAX_PATH_def\<close>)
  show "fds 0 (demo_file p q v) 3 = Some (p, q, O_RDWR)" unfolding demo_file_def by (subst fds_set_fd[OF k]) (simp_all add: MAX_FD_def)
  show "files (demo_file p q v) = v" by (simp add: demo_file_def set_fd_def set_task_def)
  show "permissions (task_at 0 (demo_file p q v)) = 0" unfolding demo_file_def permissions_set_fd by (rule demo_permissions)
qed

theorem syscall_write_read_fat32_witness:
  "\<forall>br. \<exists>k1 k2 k3. let env = demo_env br in
    sys_write env 3 (Some [7, 8]) (demo_file ''/a.txt'' 1 (demo_vfs fat32_backend demo_disk)) = Some (Ret 2 Sys_none, k1) \<and>
    sys_lseek env 3 1 0 k1 = Some (Ret 1 Sys_none, k2) \<and>
    sys_read env 3 True 2 k2 = Some (Ret 2 (Sys_bytes [7, 8]), k3) \<and> fds 0 k3 3 = Some (''/a.txt'', 3, O_RDWR)"
proof -
  let ?v = "demo_vfs fat32_backend demo_disk"
  have m: "resolve_mount ''/a.txt'' ?v = Some (demo_mount ''/'' fat32_backend, ''/a.txt'')"
    by (simp add: resolve_mount_def demo_vfs_def demo_mount_def upt_rec mount_matches_def is_root_mount_def rel_path_def)
  have p: "proper ''a.txt''" by code_simp
  have h: "healthy_file (world ?v) ''a.txt'' demo_entry [3, 4] [2]" by (simp add: demo_vfs_def demo_healthy)
  have l: "length ''/a.txt'' < 256" by simp
  note f = demo_file_facts[OF l, of 1 ?v]
  show ?thesis
    using syscall_write_read_fat32[OF f(1,2) _ _ _ _ p, of "demo_mount ''/'' fat32_backend" demo_entry "[3, 4]" "[2]" "[7, 8]"]
    by (simp add: f m h demo_mount_def demo_entry_fields Let_def)
qed

end
